(* ===== verification/Prelude.thy ===== *)
theory Prelude
  imports Main "HOL-Library.Word"
begin

text \<open>
  What every component shares: the types of the wire (bytes, C strings, sizes), effects
  that keep the state when an exception is thrown, little-endian object representations
  of unsigned integers, cutting a list into chunks of bounded length, and the invariant
  rule for reachable states. The target is x86-64: bytes are 8-bit and integers are
  stored with their least significant byte first.
\<close>

section \<open>Types and collections of facts\<close>

type_synonym byte = "8 word"
type_synonym cstring = "byte list"      \<comment> \<open>contents of a \<open>std::string\<close> or \<open>std::string_view\<close>\<close>
type_synonym size_t = "64 word"
type_synonym int32 = "32 word"          \<comment> \<open>\<open>int\<close> and \<open>unsigned int\<close>\<close>
type_synonym error_code = int           \<comment> \<open>\<open>boost::system::error_code\<close>, when it is set\<close>

text \<open>Time points are numbers of nanoseconds, durations of \<open>std::chrono::seconds\<close> of seconds.\<close>

definition ns_per_second :: int where
  "ns_per_second = 1000000000"

named_theorems eff "unfolding of effects"
named_theorems wire "lengths and round trips of encodings"

definition str :: "string \<Rightarrow> cstring" where
  "str s = map of_char s"

lemma str_simps [simp]:
  "str [] = []" "str (c # s) = of_char c # str s" "str (s @ t) = str s @ str t"
  by (simp_all add: str_def)

lemma length_str: "length (str s) = length s"
  by (simp add: str_def)

lemma of_char_byte_inject: "(of_char c :: byte) = of_char d \<longleftrightarrow> c = d"
proof
  assume eq: "(of_char c :: byte) = of_char d"
  have "unat (of_char x :: byte) = of_char x" for x
  proof -
    have "unat (of_char x :: byte) = unat (of_nat (of_char x) :: byte)"
      by (simp only: of_nat_of_char)
    also have "\<dots> = of_char x mod 256"
      by (simp add: unat_of_nat del: of_nat_of_char)
    finally show ?thesis
      by simp
  qed
  with eq have "(of_char c :: nat) = of_char d"
    by metis
  then show "c = d"
    by simp
qed simp

lemma str_inject: "str s = str t \<longleftrightarrow> s = t"
proof -
  have "inj (of_char :: char \<Rightarrow> byte)"
    by (rule injI) (simp add: of_char_byte_inject)
  then show ?thesis
    by (simp add: str_def inj_map_eq_map)
qed

section \<open>Effects\<close>

text \<open>
  A C++ member function maps the state of its object to a result and a new state. A thrown
  exception is \<open>Inl\<close>; the changes made before the throw stay, as they do in C++.
\<close>

type_synonym ('e, 's, 'a) eff = "'s \<Rightarrow> ('e + 'a) \<times> 's"

definition ret :: "'a \<Rightarrow> ('e, 's, 'a) eff" where
  "ret a s = (Inr a, s)"

definition throw :: "'e \<Rightarrow> ('e, 's, 'a) eff" where
  "throw e s = (Inl e, s)"

definition bindE :: "('e, 's, 'a) eff \<Rightarrow> ('a \<Rightarrow> ('e, 's, 'b) eff) \<Rightarrow> ('e, 's, 'b) eff" where
  "bindE m f s = (case m s of (Inl e, t) \<Rightarrow> (Inl e, t) | (Inr a, t) \<Rightarrow> f a t)"

text \<open>Two statements in sequence.\<close>

definition seqE :: "('e, 's, unit) eff \<Rightarrow> ('e, 's, 'b) eff \<Rightarrow> ('e, 's, 'b) eff" where
  "seqE m k = bindE m (\<lambda>_. k)"

text \<open>\<open>try m catch (h)\<close>: the handler runs in the state the exception left.\<close>

definition catchE :: "('e, 's, 'a) eff \<Rightarrow> ('e \<Rightarrow> ('e, 's, 'a) eff) \<Rightarrow> ('e, 's, 'a) eff" where
  "catchE m h s = (case m s of (Inl e, t) \<Rightarrow> h e t | (Inr a, t) \<Rightarrow> (Inr a, t))"

definition modify :: "('s \<Rightarrow> 's) \<Rightarrow> ('e, 's, unit) eff" where
  "modify f s = (Inr (), f s)"

definition gets :: "('s \<Rightarrow> 'a) \<Rightarrow> ('e, 's, 'a) eff" where
  "gets f s = (Inr (f s), s)"

definition lift_sum :: "'e + 'a \<Rightarrow> ('e, 's, 'a) eff" where
  "lift_sum r s = (r, s)"

definition whenE :: "bool \<Rightarrow> ('e, 's, unit) eff \<Rightarrow> ('e, 's, unit) eff" where
  "whenE b m = (if b then m else ret ())"

text \<open>A library call that reports an \<open>error_code\<close>, in the form that throws it.\<close>

definition or_throw :: "(error_code \<Rightarrow> 'e) \<Rightarrow> ('s \<Rightarrow> error_code option \<times> 's) \<Rightarrow> ('e, 's, unit) eff" where
  "or_throw mk call s =
     (case call s of (None, t) \<Rightarrow> (Inr (), t) | (Some ec, t) \<Rightarrow> (Inl (mk ec), t))"

text \<open>An operation of a part, run inside the whole.\<close>

definition zoom :: "('w \<Rightarrow> 's) \<Rightarrow> ('s \<Rightarrow> 'w \<Rightarrow> 'w) \<Rightarrow> ('e, 's, 'a) eff \<Rightarrow> ('e, 'w, 'a) eff" where
  "zoom get put m w = (let (r, s) = m (get w) in (r, put s w))"

lemmas [eff] = ret_def throw_def bindE_def seqE_def catchE_def modify_def gets_def
  lift_sum_def whenE_def or_throw_def zoom_def

lemma bindE_Inr_iff:
  "bindE m f s = (Inr b, u) \<longleftrightarrow> (\<exists>a t. m s = (Inr a, t) \<and> f a t = (Inr b, u))"
  by (auto simp: bindE_def split: prod.splits sum.splits)

lemma bindE_Inl_iff:
  "bindE m f s = (Inl e, u) \<longleftrightarrow>
     m s = (Inl e, u) \<or> (\<exists>a t. m s = (Inr a, t) \<and> f a t = (Inl e, u))"
  by (auto simp: bindE_def split: prod.splits sum.splits)

lemma bindE_step:
  "m s = (Inr a, t) \<Longrightarrow> bindE m f s = f a t"
  "m s = (Inl e, t) \<Longrightarrow> bindE m f s = (Inl e, t)"
  by (simp_all add: bindE_def)

lemma seqE_step:
  "m s = (Inr (), t) \<Longrightarrow> seqE m k s = k t"
  "m s = (Inl e, t) \<Longrightarrow> seqE m k s = (Inl e, t)"
  by (simp_all add: seqE_def bindE_def)

lemma catchE_step:
  "m s = (Inr a, t) \<Longrightarrow> catchE m h s = (Inr a, t)"
  "m s = (Inl e, t) \<Longrightarrow> catchE m h s = h e t"
  by (simp_all add: catchE_def)

text \<open>
  A predicate on states that an operation keeps whether or not it throws: the form in
  which the invariants of objects are stated.
\<close>

definition keeps :: "('s \<Rightarrow> bool) \<Rightarrow> ('e, 's, 'a) eff \<Rightarrow> bool" where
  "keeps P m \<longleftrightarrow> (\<forall>s. P s \<longrightarrow> P (snd (m s)))"

named_theorems keeps_intros "operations that keep an invariant"

lemma keepsI: "(\<And>s. P s \<Longrightarrow> P (snd (m s))) \<Longrightarrow> keeps P m"
  by (simp add: keeps_def)

lemma keepsD: "keeps P m \<Longrightarrow> P s \<Longrightarrow> P (snd (m s))"
  by (simp add: keeps_def)

lemma keeps_bindE [keeps_intros]:
  "keeps P m \<Longrightarrow> (\<And>a. keeps P (f a)) \<Longrightarrow> keeps P (bindE m f)"
  by (rule keepsI) (auto simp: bindE_def keeps_def split: prod.splits sum.splits; metis snd_conv)

lemma keeps_seqE [keeps_intros]: "keeps P m \<Longrightarrow> keeps P k \<Longrightarrow> keeps P (seqE m k)"
  by (simp add: seqE_def keeps_bindE)

lemma keeps_catchE [keeps_intros]:
  "keeps P m \<Longrightarrow> (\<And>e. keeps P (h e)) \<Longrightarrow> keeps P (catchE m h)"
  by (rule keepsI) (auto simp: catchE_def keeps_def split: prod.splits sum.splits; metis snd_conv)

lemma keeps_simple [keeps_intros]:
  "keeps P (ret a)" "keeps P (throw e)" "keeps P (gets g)" "keeps P (lift_sum r)"
  by (simp_all add: keeps_def ret_def throw_def gets_def lift_sum_def)

lemma keeps_whenE [keeps_intros]: "keeps P m \<Longrightarrow> keeps P (whenE b m)"
  by (simp add: whenE_def keeps_simple)

lemma keeps_whenE_state [keeps_intros]: "keeps P m \<Longrightarrow> keeps P (\<lambda>s. whenE (c s) m s)"
  by (auto simp: keeps_def whenE_def ret_def)

lemma keeps_if [keeps_intros]:
  "(b \<Longrightarrow> keeps P m) \<Longrightarrow> (\<not> b \<Longrightarrow> keeps P k) \<Longrightarrow> keeps P (if b then m else k)"
  by simp

text \<open>
  Pre- and postconditions: from a state with \<open>P\<close>, a result satisfies \<open>Q\<close> in the state it is
  returned in, an exception \<open>E\<close> in the state it is thrown in.
\<close>

definition valid :: "('s \<Rightarrow> bool) \<Rightarrow> ('e, 's, 'a) eff \<Rightarrow> ('a \<Rightarrow> 's \<Rightarrow> bool) \<Rightarrow> ('e \<Rightarrow> 's \<Rightarrow> bool) \<Rightarrow> bool" where
  "valid P m Q E \<longleftrightarrow>
     (\<forall>s. P s \<longrightarrow> (case m s of (Inr a, t) \<Rightarrow> Q a t | (Inl e, t) \<Rightarrow> E e t))"

lemma validI:
  assumes "\<And>s a t. P s \<Longrightarrow> m s = (Inr a, t) \<Longrightarrow> Q a t"
    and "\<And>s e t. P s \<Longrightarrow> m s = (Inl e, t) \<Longrightarrow> E e t"
  shows "valid P m Q E"
  using assms by (auto simp: valid_def split: prod.splits sum.splits)

lemma validD:
  "valid P m Q E \<Longrightarrow> P s \<Longrightarrow> m s = (Inr a, t) \<Longrightarrow> Q a t"
  "valid P m Q E \<Longrightarrow> P s \<Longrightarrow> m s = (Inl e, t) \<Longrightarrow> E e t"
  by (auto simp: valid_def)

lemma valid_bindE:
  "valid P m R E \<Longrightarrow> (\<And>a. valid (R a) (f a) Q E) \<Longrightarrow> valid P (bindE m f) Q E"
  by (rule validI) (auto simp: bindE_Inr_iff bindE_Inl_iff dest: validD)

lemma valid_seqE: "valid P m (\<lambda>_. R) E \<Longrightarrow> valid R k Q E \<Longrightarrow> valid P (seqE m k) Q E"
  unfolding seqE_def by (rule valid_bindE)

lemma valid_catchE:
  "valid P m Q R \<Longrightarrow> (\<And>e. valid (R e) (h e) Q E) \<Longrightarrow> valid P (catchE m h) Q E"
  by (rule validI) (auto simp: catchE_def split: prod.splits sum.splits dest: validD)

lemma valid_conseq:
  "valid P' m Q' E' \<Longrightarrow> (\<And>s. P s \<Longrightarrow> P' s) \<Longrightarrow> (\<And>a s. Q' a s \<Longrightarrow> Q a s) \<Longrightarrow>
     (\<And>e s. E' e s \<Longrightarrow> E e s) \<Longrightarrow> valid P m Q E"
  by (fastforce simp: valid_def split: prod.splits sum.splits)

lemma valid_if:
  "(b \<Longrightarrow> valid P m Q E) \<Longrightarrow> (\<not> b \<Longrightarrow> valid P k Q E) \<Longrightarrow> valid P (if b then m else k) Q E"
  by simp

lemma valid_ret: "(\<And>s. P s \<Longrightarrow> Q a s) \<Longrightarrow> valid P (ret a) Q E"
  by (simp add: valid_def ret_def)

lemma valid_throw: "(\<And>s. P s \<Longrightarrow> E e s) \<Longrightarrow> valid P (throw e) Q E"
  by (simp add: valid_def throw_def)

lemma valid_gets: "(\<And>s. P s \<Longrightarrow> Q (f s) s) \<Longrightarrow> valid P (gets f) Q E"
  by (simp add: valid_def gets_def)

lemma valid_modify: "(\<And>s. P s \<Longrightarrow> Q () (f s)) \<Longrightarrow> valid P (modify f) Q E"
  by (simp add: valid_def modify_def)

lemma valid_lift_sum:
  "(\<And>s a. P s \<Longrightarrow> r = Inr a \<Longrightarrow> Q a s) \<Longrightarrow> (\<And>s e. P s \<Longrightarrow> r = Inl e \<Longrightarrow> E e s) \<Longrightarrow>
     valid P (lift_sum r) Q E"
  by (cases r) (auto simp: valid_def lift_sum_def)

lemma valid_keeps: "keeps P m \<Longrightarrow> valid P m (\<lambda>_. P) (\<lambda>_. P)"
  by (rule validI) (metis keepsD snd_conv)+

lemma valid_snd: "valid P m (\<lambda>_. Q) (\<lambda>_. Q) \<Longrightarrow> P s \<Longrightarrow> Q (snd (m s))"
  by (cases "m s"; cases "fst (m s)") (fastforce dest: validD)+

section \<open>Object representation of unsigned integers\<close>

fun nat_to_le :: "nat \<Rightarrow> nat \<Rightarrow> byte list" where
  "nat_to_le 0 n = []"
| "nat_to_le (Suc k) n = of_nat (n mod 256) # nat_to_le k (n div 256)"

fun le_to_nat :: "byte list \<Rightarrow> nat" where
  "le_to_nat [] = 0"
| "le_to_nat (b # bs) = unat b + 256 * le_to_nat bs"

lemma length_nat_to_le [simp, wire]: "length (nat_to_le k n) = k"
  by (induction k n rule: nat_to_le.induct) auto

lemma unat_of_nat_byte: "unat (of_nat (n mod 256) :: byte) = n mod 256"
  by (simp add: unat_of_nat)

lemma le_to_nat_to_le [wire]: "n < 256 ^ k \<Longrightarrow> le_to_nat (nat_to_le k n) = n"
proof (induction k n rule: nat_to_le.induct)
  case (1 n)
  then show ?case by simp
next
  case (2 k n)
  have "n div 256 < 256 ^ k"
    using "2.prems" by (simp add: less_mult_imp_div_less mult.commute)
  with "2.IH" show ?case
    by (simp add: unat_of_nat_byte)
qed

lemma le_to_nat_bound: "le_to_nat bs < 256 ^ length bs"
proof (induction bs)
  case Nil
  then show ?case by simp
next
  case (Cons b bs)
  have "unat b < 256"
    using unsigned_less [of b] by simp
  with Cons show ?case by simp
qed

lemma nat_to_le_to_nat [wire]: "nat_to_le (length bs) (le_to_nat bs) = bs"
proof (induction bs)
  case Nil
  then show ?case by simp
next
  case (Cons b bs)
  have "unat b < 256"
    using unsigned_less [of b] by simp
  then have "(unat b + 256 * le_to_nat bs) mod 256 = unat b"
    and "(unat b + 256 * le_to_nat bs) div 256 = le_to_nat bs"
    by simp_all
  with Cons show ?case by simp
qed

text \<open>A word of \<open>k\<close> bytes and its representation.\<close>

definition word_to_le :: "nat \<Rightarrow> 'a::len word \<Rightarrow> byte list" where
  "word_to_le k w = nat_to_le k (unat w)"

definition word_of_le :: "byte list \<Rightarrow> 'a::len word" where
  "word_of_le bs = of_nat (le_to_nat bs)"

lemma length_word_to_le [simp, wire]: "length (word_to_le k w) = k"
  by (simp add: word_to_le_def)

lemma bytes_pow: "(256::nat) ^ k = 2 ^ (8 * k)"
  by (simp add: power_mult)

lemma word_of_le_word_to_le:
  assumes "LENGTH('a) = 8 * k"
  shows "word_of_le (word_to_le k (w :: 'a::len word)) = w"
proof -
  have "unat w < 256 ^ k"
    using unsigned_less [of w] assms by (simp only: bytes_pow)
  then show ?thesis
    by (simp add: word_of_le_def word_to_le_def le_to_nat_to_le)
qed

lemma word_to_le_word_of_le:
  assumes "LENGTH('a) = 8 * k" and "length bs = k"
  shows "word_to_le k (word_of_le bs :: 'a::len word) = bs"
proof -
  have "le_to_nat bs < 2 ^ LENGTH('a)"
    using le_to_nat_bound [of bs] assms by (simp only: bytes_pow)
  then have "unat (word_of_le bs :: 'a word) = le_to_nat bs"
    by (simp add: word_of_le_def unat_of_nat)
  with assms(2) show ?thesis
    by (metis word_to_le_def nat_to_le_to_nat)
qed

section \<open>Lists cut and overwritten\<close>

text \<open>The pieces of at most \<open>n\<close> elements a list is cut into; never an empty sequence.\<close>

function chunks :: "nat \<Rightarrow> 'a list \<Rightarrow> 'a list list" where
  "chunks n xs = (if n = 0 \<or> length xs \<le> n then [xs] else take n xs # chunks n (drop n xs))"
  by pat_completeness auto
termination
  by (relation "measure (\<lambda>(n, xs). length xs)") auto

declare chunks.simps [simp del]

lemma concat_chunks [simp]: "concat (chunks n xs) = xs"
proof (induction n xs rule: chunks.induct)
  case (1 n xs)
  then show ?case
    by (cases "n = 0 \<or> length xs \<le> n") (auto simp: chunks.simps [of n xs])
qed

lemma chunks_not_Nil [simp]: "chunks n xs \<noteq> []"
  by (simp add: chunks.simps [of n xs])

lemma chunks_bounded: "0 < n \<Longrightarrow> c \<in> set (chunks n xs) \<Longrightarrow> length c \<le> n"
proof (induction n xs rule: chunks.induct)
  case (1 n xs)
  then show ?case
    by (cases "length xs \<le> n") (auto simp: chunks.simps [of n xs])
qed

lemma chunks_short: "length xs \<le> n \<Longrightarrow> chunks n xs = [xs]"
  by (simp add: chunks.simps)

lemma chunks_long: "0 < n \<Longrightarrow> n < length xs \<Longrightarrow> chunks n xs = take n xs # chunks n (drop n xs)"
  by (subst chunks.simps) simp

text \<open>Only the last chunk can be shorter than the limit.\<close>

lemma chunks_full: "0 < n \<Longrightarrow> c \<in> set (butlast (chunks n xs)) \<Longrightarrow> length c = n"
proof (induction n xs rule: chunks.induct)
  case (1 n xs)
  then show ?case
    by (cases "length xs \<le> n") (auto simp: chunks_short chunks_long)
qed

lemma length_chunks:
  "0 < n \<Longrightarrow> length (chunks n xs) = (if xs = [] then 1 else (length xs + n - 1) div n)"
proof (induction n xs rule: chunks.induct)
  case (1 n xs)
  show ?case
  proof (cases "length xs \<le> n")
    case True
    have "(length xs + n - 1) div n = 1" if "xs \<noteq> []"
    proof -
      have "length xs + n - 1 = (length xs - 1) + n" and "(length xs - 1) div n = 0"
        using that True by (cases xs; simp)+
      then show ?thesis
        using \<open>0 < n\<close> by (metis div_add_self2 add_0 less_irrefl)
    qed
    with True show ?thesis
      by (simp add: chunks_short)
  next
    case False
    then have "length (chunks n (drop n xs)) = (length xs - n + n - 1) div n"
      using 1 by (simp add: not_le)
    then have "length (chunks n xs) = Suc ((length xs - 1) div n)"
      using False \<open>0 < n\<close> by (simp add: chunks_long)
    also have "\<dots> = (length xs - 1 + n) div n"
      using \<open>0 < n\<close> by (metis div_add_self2 less_irrefl Suc_eq_plus1)
    also have "length xs - 1 + n = length xs + n - 1"
      using False by simp
    finally show ?thesis
      using False by auto
  qed
qed

text \<open>Writing \<open>bs\<close> at the start of a buffer.\<close>

definition overwrite :: "'a list \<Rightarrow> 'a list \<Rightarrow> 'a list" where
  "overwrite buf bs = bs @ drop (length bs) buf"

lemma length_overwrite [simp]: "length bs \<le> length buf \<Longrightarrow> length (overwrite buf bs) = length buf"
  by (simp add: overwrite_def)

lemma take_overwrite [simp]: "n \<le> length bs \<Longrightarrow> take n (overwrite buf bs) = take n bs"
  by (simp add: overwrite_def)

lemma length_takeWhile_less: "\<exists>x \<in> set xs. \<not> P x \<Longrightarrow> length (takeWhile P xs) < length xs"
  by (induction xs) auto

section \<open>Reachable states\<close>

inductive reach :: "('s \<Rightarrow> bool) \<Rightarrow> ('s \<Rightarrow> 's \<Rightarrow> bool) \<Rightarrow> 's \<Rightarrow> bool" for init step where
  reach_init: "init s \<Longrightarrow> reach init step s"
| reach_step: "reach init step s \<Longrightarrow> step s t \<Longrightarrow> reach init step t"

text \<open>The contract of an invariant of a transition system, and what it gives.\<close>

locale inductive_invariant =
  fixes init :: "'s \<Rightarrow> bool" and step :: "'s \<Rightarrow> 's \<Rightarrow> bool" and inv :: "'s \<Rightarrow> bool"
  assumes holds_initially: "init s \<Longrightarrow> inv s"
    and preserved: "inv s \<Longrightarrow> step s t \<Longrightarrow> inv t"
begin

lemma holds_reachable: "reach init step s \<Longrightarrow> inv s"
  by (induction rule: reach.induct) (auto intro: holds_initially preserved)

end

end
