(* ===== verification/Messages.thy ===== *)
theory Messages
  imports Prelude
begin

text \<open>
  The messages of the protocol: \<open>include/Message.hpp\<close> and \<open>src/MessageHeader.cpp\<close>.
  The enumeration \<open>MessageType\<close> with its underlying byte, the packed header that precedes
  every message on the wire and its checked deserialisation, the two event structures a
  viewer sends (packed, least significant byte first), and \<open>convertTo\<close>, which reads a
  structure back from a message of exactly its size. The exception classes of the whole
  program are one datatype, with the values their texts are formatted from.
\<close>

section \<open>Message types\<close>

datatype MessageType =
    JUST_A_MESSAGE | LOGIN | REGISTER_STREAMER | FIND_STREAMER | START_STREAM | RESPONSE
  | ID | ACK | NACK | MOUSE_INPUT | KEYBOARD_INPUT | SCREEN_UPDATE | DISCONNECT

definition all_message_types :: "MessageType list" where
  "all_message_types = [JUST_A_MESSAGE, LOGIN, REGISTER_STREAMER, FIND_STREAMER, START_STREAM,
     RESPONSE, ID, ACK, NACK, MOUSE_INPUT, KEYBOARD_INPUT, SCREEN_UPDATE, DISCONNECT]"

text \<open>\<open>static_cast\<close> between the enumeration and its underlying \<open>unsigned char\<close>.\<close>

fun to_underlying :: "MessageType \<Rightarrow> byte" where
  "to_underlying JUST_A_MESSAGE = 0"
| "to_underlying LOGIN = 1"
| "to_underlying REGISTER_STREAMER = 2"
| "to_underlying FIND_STREAMER = 3"
| "to_underlying START_STREAM = 4"
| "to_underlying RESPONSE = 5"
| "to_underlying ID = 6"
| "to_underlying ACK = 7"
| "to_underlying NACK = 8"
| "to_underlying MOUSE_INPUT = 9"
| "to_underlying KEYBOARD_INPUT = 10"
| "to_underlying SCREEN_UPDATE = 11"
| "to_underlying DISCONNECT = 12"

definition MAX_VALUE :: MessageType where
  "MAX_VALUE = DISCONNECT"

definition from_underlying :: "byte \<Rightarrow> MessageType" where
  "from_underlying b = all_message_types ! unat b"

text \<open>The enumerators are ordered as their underlying values are.\<close>

instantiation MessageType :: linorder
begin

definition less_eq_MessageType :: "MessageType \<Rightarrow> MessageType \<Rightarrow> bool" where
  "less_eq_MessageType a b \<longleftrightarrow> to_underlying a \<le> to_underlying b"

definition less_MessageType :: "MessageType \<Rightarrow> MessageType \<Rightarrow> bool" where
  "less_MessageType a b \<longleftrightarrow> to_underlying a < to_underlying b"

lemma to_underlying_inject: "to_underlying a = to_underlying b \<longleftrightarrow> a = b"
  by (cases a; cases b; simp)

instance
  by standard
    (auto simp: less_eq_MessageType_def less_MessageType_def to_underlying_inject less_le_not_le
      order_antisym_conv dest: order_trans)

end

lemma MessageType_le_MAX_VALUE: "t \<le> MAX_VALUE"
  by (cases t) (simp_all add: less_eq_MessageType_def MAX_VALUE_def)

lemma from_to_underlying [simp, wire]: "from_underlying (to_underlying t) = t"
  by (cases t) (simp_all add: from_underlying_def all_message_types_def)

lemma to_underlying_bound: "to_underlying t \<le> to_underlying MAX_VALUE"
  using MessageType_le_MAX_VALUE by (simp add: less_eq_MessageType_def)

lemma to_from_underlying [wire]:
  assumes "b \<le> to_underlying MAX_VALUE"
  shows "to_underlying (from_underlying b) = b"
proof -
  have "unat b < 13"
    using assms by (simp add: MAX_VALUE_def word_le_nat_alt)
  then have "unat b \<in> set [0..<13]"
    by simp
  moreover have "\<forall>n \<in> set [0..<13]. to_underlying (all_message_types ! n) = of_nat n"
    by (simp add: all_message_types_def upt_rec)
  ultimately have "to_underlying (all_message_types ! unat b) = of_nat (unat b)"
    by blast
  then show ?thesis
    by (simp add: from_underlying_def)
qed

text \<open>\<open>MESSAGE_TYPE_TO_STR\<close>, in the order of its initialiser.\<close>

definition MESSAGE_TYPE_TO_STR :: "(MessageType \<times> string) list" where
  "MESSAGE_TYPE_TO_STR =
    [(JUST_A_MESSAGE, ''JUST_A_MESSAGE''),
     (LOGIN, ''LOGIN''),
     (REGISTER_STREAMER, ''REGISTER_STREAMER''),
     (FIND_STREAMER, ''FIND_STREAMER''),
     (START_STREAM, ''START_STREAM''),
     (RESPONSE, ''RESPONSE''),
     (ID, ''ID''),
     (ACK, ''ACK''),
     (NACK, ''NACK''),
     (MOUSE_INPUT, ''MOUSE_INPUT''),
     (KEYBOARD_INPUT, ''KEYBOARD_INPUT''),
     (SCREEN_UPDATE, ''SCREEN_UPDATE''),
     (DISCONNECT, ''DISCONNECT'')]"

section \<open>Exceptions\<close>

datatype header_error =
    TooShort nat                    \<comment> \<open>Buffer is too short to deserialize from\<close>
  | TooLong size_t size_t           \<comment> \<open>Message is too long\<close>
  | UnknownType byte                \<comment> \<open>Got unknown message type\<close>

datatype socket_error =
    ReadTooBig nat nat              \<comment> \<open>Tried to schedule receiving message with max size ...\<close>
  | NoACK string nat cstring        \<comment> \<open>Did not get ACK. Response type, size, details\<close>

datatype base_error =
    NoEndpoint cstring nat          \<comment> \<open>Did not find host:port\<close>
  | NotRegistered string            \<comment> \<open>Could not register stream. Response type\<close>

datatype exn =
    MessageHeaderException header_error
  | MessageTypeException nat nat
  | SocketException socket_error
  | ScreenViewerBaseException base_error
  | UsersManagerException cstring
  | X11IOControllerException string
  | VideoEncoderException string
  | VideoDecoderException string
  | VNCClientException string
  | SystemError error_code          \<comment> \<open>\<open>boost::system::system_error\<close>\<close>
  | DatabaseError cstring           \<comment> \<open>any other exception of \<open>pqxx\<close>\<close>
  | JsonException cstring           \<comment> \<open>any exception of \<open>nlohmann::json\<close>\<close>
  | OutOfRange                      \<comment> \<open>\<open>std::out_of_range\<close>\<close>
  | ExitProcess int                 \<comment> \<open>\<open>exit(n)\<close>: control does not come back\<close>
  | UndefinedBehaviour string       \<comment> \<open>the C++ standard gives the step no meaning\<close>

text \<open>
  What \<open>catch (const std::exception &)\<close> catches. \<open>IOControllerException\<close> is declared
  as \<open>class IOControllerException: ScreenViewerBaseException\<close>, a private base, so it and
  \<open>X11IOControllerException\<close> do not convert to \<open>std::exception\<close>.
\<close>

fun is_std_exception :: "exn \<Rightarrow> bool" where
  "is_std_exception (X11IOControllerException _) = False"
| "is_std_exception (ExitProcess _) = False"
| "is_std_exception (UndefinedBehaviour _) = False"
| "is_std_exception _ = True"

fun is_header_exception :: "exn \<Rightarrow> bool" where
  "is_header_exception (MessageHeaderException _) = True"
| "is_header_exception _ = False"

text \<open>\<open>MESSAGE_TYPE_TO_STR.at(type)\<close>.\<close>

definition type_to_str_at :: "MessageType \<Rightarrow> exn + string" where
  "type_to_str_at t = (case map_of MESSAGE_TYPE_TO_STR t of None \<Rightarrow> Inl OutOfRange | Some s \<Rightarrow> Inr s)"

text \<open>
  Formatting that is not in the repository: \<open>{fmt}\<close> on unsigned numbers, and the texts
  of the libraries' own exceptions.
\<close>

record lib =
  fmt_unsigned :: "nat \<Rightarrow> string"
  ec_what :: "error_code \<Rightarrow> string"

fun header_error_text :: "lib \<Rightarrow> header_error \<Rightarrow> string" where
  "header_error_text L (TooShort n) =
     ''Buffer is too short to deserialize from ('' @ fmt_unsigned L n @ '' < sizeof(MessageHeader)).''"
| "header_error_text L (TooLong n m) =
     ''Message is too long ('' @ fmt_unsigned L (unat n) @ '' > '' @ fmt_unsigned L (unat m) @ '').''"
| "header_error_text L (UnknownType b) =
     ''Got unknown message type ('' @ fmt_unsigned L (unat b) @ '').''"

fun socket_error_text :: "lib \<Rightarrow> socket_error \<Rightarrow> cstring" where
  "socket_error_text L (ReadTooBig n m) =
     str (''Tried to schedule receiving message with max size of '' @ fmt_unsigned L n
       @ '' bytes, where buffer size is '' @ fmt_unsigned L m @ ''.'')"
| "socket_error_text L (NoACK t n details) =
     str (''Did not get ACK. Response type: '' @ t @ '' size: '' @ fmt_unsigned L n @ ''. '') @ details"

fun base_error_text :: "lib \<Rightarrow> base_error \<Rightarrow> cstring" where
  "base_error_text L (NoEndpoint host port) =
     str ''Did not find '' @ host @ str ('':'' @ fmt_unsigned L port)"
| "base_error_text L (NotRegistered t) = str (''Could not register stream. Response type: '' @ t)"

text \<open>\<open>e.what()\<close>. The last two are no C++ exceptions and have no text.\<close>

fun what :: "lib \<Rightarrow> exn \<Rightarrow> cstring" where
  "what L (MessageHeaderException e) = str (header_error_text L e)"
| "what L (MessageTypeException n m) =
     str (''Message's size ('' @ fmt_unsigned L n @ '') != ('' @ fmt_unsigned L m @ '') sizeof(MessageTypeData)'')"
| "what L (SocketException e) = socket_error_text L e"
| "what L (ScreenViewerBaseException e) = base_error_text L e"
| "what L (UsersManagerException email) =
     str (''User with '' @ [CHR 0x27]) @ email @ str (CHR 0x27 # '' email already exists.'')"
| "what L (X11IOControllerException s) = str s"
| "what L (VideoEncoderException s) = str s"
| "what L (VideoDecoderException s) = str s"
| "what L (VNCClientException s) = str s"
| "what L (SystemError ec) = str (ec_what L ec)"
| "what L (DatabaseError s) = s"
| "what L (JsonException s) = s"
| "what L OutOfRange = str ''_Map_base::at''"
| "what L (ExitProcess _) = []"
| "what L (UndefinedBehaviour _) = []"

text \<open>A call of \<open>nlohmann::json\<close>, which reports an error by the text of its exception.\<close>

definition or_json :: "cstring + 'a \<Rightarrow> exn + 'a" where
  "or_json r = (case r of Inl s \<Rightarrow> Inl (JsonException s) | Inr a \<Rightarrow> Inr a)"

section \<open>The header\<close>

record MessageHeader =
  message_size :: size_t
  hdr_type :: MessageType

definition sizeof_MessageHeader :: nat where
  "sizeof_MessageHeader = 9"

text \<open>The bytes of the packed structure: \<open>std::size_t\<close>, then the type.\<close>

definition header_bytes :: "MessageHeader \<Rightarrow> byte list" where
  "header_bytes h = word_to_le 8 (message_size h) @ [to_underlying (hdr_type h)]"

definition deserialize :: "byte list \<Rightarrow> nat \<Rightarrow> size_t \<Rightarrow> exn + MessageHeader" where
  "deserialize buffer buffer_size max_length =
     (if buffer_size < sizeof_MessageHeader
      then Inl (MessageHeaderException (TooShort buffer_size))
      else let length = word_of_le (take 8 buffer);
               declared_msg_type = buffer ! 8
           in if max_length < length
              then Inl (MessageHeaderException (TooLong length max_length))
              else if to_underlying MAX_VALUE < declared_msg_type
              then Inl (MessageHeaderException (UnknownType declared_msg_type))
              else Inr \<lparr>message_size = length, hdr_type = from_underlying declared_msg_type\<rparr>)"

section \<open>Messages and event structures\<close>

record Message =
  msg_type :: MessageType
  content :: cstring

record KeyboardEventData =
  down :: bool
  key :: int32

record MouseEventData =
  button_mask :: int32
  mouse_x :: int32
  mouse_y :: int32

text \<open>
  Object representations. A \<open>bool\<close> is one byte; the structure is packed. A \<open>bool\<close>
  whose byte is neither 0 nor 1 is read as true, which is what x86-64 code does with it.
\<close>

definition sizeof_KeyboardEventData :: nat where
  "sizeof_KeyboardEventData = 5"

definition sizeof_MouseEventData :: nat where
  "sizeof_MouseEventData = 12"

definition keyboard_bytes :: "KeyboardEventData \<Rightarrow> byte list" where
  "keyboard_bytes e = (if down e then 1 else 0) # word_to_le 4 (key e)"

definition keyboard_of_bytes :: "byte list \<Rightarrow> KeyboardEventData" where
  "keyboard_of_bytes bs = \<lparr>down = (bs ! 0 \<noteq> 0), key = word_of_le (take 4 (drop 1 bs))\<rparr>"

definition mouse_bytes :: "MouseEventData \<Rightarrow> byte list" where
  "mouse_bytes e = word_to_le 4 (button_mask e) @ word_to_le 4 (mouse_x e) @ word_to_le 4 (mouse_y e)"

definition mouse_of_bytes :: "byte list \<Rightarrow> MouseEventData" where
  "mouse_of_bytes bs = \<lparr>button_mask = word_of_le (take 4 bs),
     mouse_x = word_of_le (take 4 (drop 4 bs)), mouse_y = word_of_le (take 4 (drop 8 bs))\<rparr>"

text \<open>\<open>convertTo<T>\<close>, with \<open>sizeof(T)\<close> and the reading of \<open>T\<close>'s representation.\<close>

definition convertTo :: "nat \<Rightarrow> (byte list \<Rightarrow> 'a) \<Rightarrow> Message \<Rightarrow> exn + 'a" where
  "convertTo sz read source =
     (if length (content source) \<noteq> sz
      then Inl (MessageTypeException (length (content source)) sz)
      else Inr (read (content source)))"

section \<open>The contract of an object representation\<close>

text \<open>
  A type that can travel in a message: every value has a representation of the type's size,
  and reading the representation gives the value back.
\<close>

locale packed =
  fixes sz :: nat and bytes :: "'a \<Rightarrow> byte list" and of_bytes :: "byte list \<Rightarrow> 'a"
  assumes length_bytes: "length (bytes x) = sz"
    and of_bytes_bytes: "of_bytes (bytes x) = x"
begin

lemma bytes_inject: "bytes x = bytes y \<longleftrightarrow> x = y"
  by (metis of_bytes_bytes)

lemma convertTo_bytes: "convertTo sz of_bytes \<lparr>msg_type = t, content = bytes x\<rparr> = Inr x"
  by (simp add: convertTo_def length_bytes of_bytes_bytes)

lemma convertTo_Inl_iff:
  "convertTo sz of_bytes m = Inl e \<longleftrightarrow>
     length (content m) \<noteq> sz \<and> e = MessageTypeException (length (content m)) sz"
  by (auto simp: convertTo_def)

end

text \<open>A representation all of whose byte strings of the right length are values.\<close>

locale packed_onto = packed +
  assumes bytes_of_bytes: "length bs = sz \<Longrightarrow> bytes (of_bytes bs) = bs"
begin

lemma convertTo_Inr_iff: "convertTo sz of_bytes m = Inr x \<longleftrightarrow> content m = bytes x"
  by (auto simp: convertTo_def of_bytes_bytes length_bytes bytes_of_bytes)

end

lemma word_bytes_32 [wire]: "word_of_le (word_to_le 4 (w :: int32)) = w"
  by (rule word_of_le_word_to_le) simp

lemma word_bytes_64 [wire]: "word_of_le (word_to_le 8 (w :: size_t)) = w"
  by (rule word_of_le_word_to_le) simp

lemma bytes_word_32 [wire]: "length bs = 4 \<Longrightarrow> word_to_le 4 (word_of_le bs :: int32) = bs"
  by (rule word_to_le_word_of_le) simp_all

lemma bytes_word_64 [wire]: "length bs = 8 \<Longrightarrow> word_to_le 8 (word_of_le bs :: size_t) = bs"
  by (rule word_to_le_word_of_le) simp_all

interpretation keyboard: packed sizeof_KeyboardEventData keyboard_bytes keyboard_of_bytes
  by unfold_locales
    (simp_all add: sizeof_KeyboardEventData_def keyboard_bytes_def keyboard_of_bytes_def wire)

interpretation mouse: packed_onto sizeof_MouseEventData mouse_bytes mouse_of_bytes
proof unfold_locales
  fix e :: MouseEventData
  show "length (mouse_bytes e) = sizeof_MouseEventData"
    by (simp add: sizeof_MouseEventData_def mouse_bytes_def)
  show "mouse_of_bytes (mouse_bytes e) = e"
    by (simp add: mouse_bytes_def mouse_of_bytes_def wire)
next
  fix bs :: "byte list"
  assume "length bs = sizeof_MouseEventData"
  then have "length (take 4 (drop 8 bs)) = 4" "length (take 4 (drop 4 bs)) = 4"
    "length (take 4 bs) = 4" "take 4 (drop 8 bs) = drop 8 bs"
    by (simp_all add: sizeof_MouseEventData_def)
  then have "mouse_bytes (mouse_of_bytes bs) = take 4 bs @ take 4 (drop 4 bs) @ drop 8 bs"
    by (simp add: mouse_bytes_def mouse_of_bytes_def wire)
  also have "\<dots> = bs"
    by (metis append_take_drop_id drop_drop numeral_Bit0)
  finally show "mouse_bytes (mouse_of_bytes bs) = bs" .
qed

section \<open>The header on the wire\<close>

lemma length_header_bytes [simp, wire]: "length (header_bytes h) = sizeof_MessageHeader"
  by (simp add: header_bytes_def sizeof_MessageHeader_def)

lemma header_bytes_parts:
  "take 8 (header_bytes h @ rest) = word_to_le 8 (message_size h)"
  "(header_bytes h @ rest) ! 8 = to_underlying (hdr_type h)"
  by (simp_all add: header_bytes_def nth_append)

lemma deserialize_header_bytes:
  assumes "sizeof_MessageHeader \<le> n"
  shows "deserialize (header_bytes h @ rest) n max_length =
    (if message_size h \<le> max_length then Inr h
     else Inl (MessageHeaderException (TooLong (message_size h) max_length)))"
  using assms to_underlying_bound [of "hdr_type h"]
  unfolding deserialize_def header_bytes_parts
  by (auto simp: wire not_less not_le Let_def)

text \<open>A buffer is accepted exactly when it starts with the bytes of an admissible header.\<close>

lemma deserialize_Inr_iff:
  assumes "sizeof_MessageHeader \<le> n" and "sizeof_MessageHeader \<le> length buffer"
  shows "deserialize buffer n max_length = Inr h \<longleftrightarrow>
    take sizeof_MessageHeader buffer = header_bytes h \<and> message_size h \<le> max_length"
proof
  assume ok: "deserialize buffer n max_length = Inr h"
  let ?w = "word_of_le (take 8 buffer) :: size_t"
  from ok have b: "buffer ! 8 \<le> to_underlying MAX_VALUE" and le: "?w \<le> max_length"
    and h: "h = \<lparr>message_size = ?w, hdr_type = from_underlying (buffer ! 8)\<rparr>"
    by (auto simp: deserialize_def Let_def not_less split: if_splits)
  have "take sizeof_MessageHeader buffer = take 8 buffer @ [buffer ! 8]"
    using assms(2) take_Suc_conv_app_nth [of 8 buffer] by (simp add: sizeof_MessageHeader_def)
  also have "\<dots> = header_bytes h"
    using b h assms(2) by (simp add: header_bytes_def wire sizeof_MessageHeader_def)
  finally show "take sizeof_MessageHeader buffer = header_bytes h \<and> message_size h \<le> max_length"
    using le h by simp
next
  assume "take sizeof_MessageHeader buffer = header_bytes h \<and> message_size h \<le> max_length"
  then show "deserialize buffer n max_length = Inr h"
    using assms(1) deserialize_header_bytes [of n h "drop sizeof_MessageHeader buffer" max_length]
    by (metis append_take_drop_id)
qed

lemma deserialize_bounded:
  "deserialize buffer n max_length = Inr h \<Longrightarrow> message_size h \<le> max_length"
  by (auto simp: deserialize_def Let_def not_less split: if_splits)

lemma deserialize_error:
  "deserialize buffer n max_length = Inl e \<Longrightarrow> is_header_exception e \<and> is_std_exception e"
  by (auto simp: deserialize_def Let_def split: if_splits)

lemma type_to_str_at_total: "\<exists>s. type_to_str_at t = Inr s"
  by (cases t) (simp_all add: type_to_str_at_def MESSAGE_TYPE_TO_STR_def)

text \<open>The name of a message type: what \<open>at\<close> returns.\<close>

definition type_name :: "MessageType \<Rightarrow> string" where
  "type_name t = projr (type_to_str_at t)"

lemma type_name_short: "length (type_name t) \<le> 100"
  by (cases t) (simp_all add: type_name_def type_to_str_at_def MESSAGE_TYPE_TO_STR_def)

lemma type_to_str_at_eq [simp]: "type_to_str_at t = Inr (type_name t)"
  using type_to_str_at_total [of t] by (auto simp: type_name_def)

end
