(* ===== verification/Sessions_Manager.thy ===== *)
theory Sessions_Manager
  imports Messages "HOL-Library.AList"
begin

text \<open>
  The registry of streamers that wait for a viewer: \<open>include/ServerSessionsManager.hpp\<close> and
  \<open>src/ServerSessionsManager.cpp\<close>, without the part of \<open>createBridgeWithStreamer\<close> that works
  on the sessions (theory \<open>Server\<close>) and the interleaving of the cleaner thread (theory
  \<open>Cleaner_Thread\<close>). The \<open>unordered_map\<close> is an association list with distinct keys whose
  order stands for the iteration order of the map; a time point is a number of nanoseconds;
  a session is whatever the shared pointer \<open>'p\<close> points to.
\<close>

record 'p TimedClientSession =
  client_session :: 'p
  time_point :: int

type_synonym 'p senders = "(cstring \<times> 'p TimedClientSession) list"

record controller =
  client_timeout :: int
  check_interval :: int

record 'p manager =
  senders_sessions :: "'p senders"
  connections_controller :: "controller option"     \<comment> \<open>\<open>None\<close> when it is not joinable\<close>

definition SESSION_ID_LENGTH :: nat where
  "SESSION_ID_LENGTH = 10"

definition new_manager :: "'p manager" where
  "new_manager = \<lparr>senders_sessions = [], connections_controller = None\<rparr>"

section \<open>Registration and look-up\<close>

definition map_contains :: "'p senders \<Rightarrow> cstring \<Rightarrow> bool" where
  "map_contains m k \<longleftrightarrow> map_of m k \<noteq> None"

definition registerStreamer :: "'p \<Rightarrow> int \<Rightarrow> (exn, 'p manager, cstring) eff" where
  "registerStreamer sender now m =
     (let session_id = str ''test'';
          sessions = senders_sessions m;
          sessions = (if map_contains sessions session_id then AList.delete session_id sessions else sessions);
          sessions = AList.update session_id \<lparr>client_session = sender, time_point = now\<rparr> sessions
      in (Inr session_id, m\<lparr>senders_sessions := sessions\<rparr>))"

text \<open>\<open>contains\<close> and \<open>extract\<close>, the part of \<open>createBridgeWithStreamer\<close> under the lock.\<close>

definition extract_session :: "cstring \<Rightarrow> 'p manager \<Rightarrow> 'p option \<times> 'p manager" where
  "extract_session session_code m =
     (case map_of (senders_sessions m) session_code of
        None \<Rightarrow> (None, m)
      | Some node \<Rightarrow> (Some (client_session node),
          m\<lparr>senders_sessions := AList.delete session_code (senders_sessions m)\<rparr>))"

definition currentSessions :: "'p manager \<Rightarrow> nat" where
  "currentSessions m = length (senders_sessions m)"

definition reset :: "'p manager \<Rightarrow> 'p manager" where
  "reset m = (let m = m\<lparr>senders_sessions := []\<rparr>
              in if connections_controller m \<noteq> None then m\<lparr>connections_controller := None\<rparr> else m)"

definition initCleanerThread :: "int \<Rightarrow> int \<Rightarrow> 'p manager \<Rightarrow> 'p manager" where
  "initCleanerThread timeout interval m =
     m\<lparr>connections_controller := Some \<lparr>client_timeout = timeout, check_interval = interval\<rparr>\<rparr>"

section \<open>Expiry\<close>

text \<open>The loop reads the clock once for every entry: \<open>clock i\<close> is the \<open>i\<close>-th reading.\<close>

fun terminate_loop :: "(nat \<Rightarrow> int) \<Rightarrow> int \<Rightarrow> nat \<Rightarrow> 'p senders \<Rightarrow> 'p senders" where
  "terminate_loop clock timeout i [] = []"
| "terminate_loop clock timeout i (it # rest) =
     (let now = clock i; elapsed_time = now - time_point (snd it) in
      if elapsed_time > timeout * ns_per_second
      then terminate_loop clock timeout (Suc i) rest
      else it # terminate_loop clock timeout (Suc i) rest)"

definition terminateTimeoutClients :: "(nat \<Rightarrow> int) \<Rightarrow> int \<Rightarrow> 'p manager \<Rightarrow> 'p manager" where
  "terminateTimeoutClients clock timeout m =
     m\<lparr>senders_sessions := terminate_loop clock timeout 0 (senders_sessions m)\<rparr>"

section \<open>Session identifiers\<close>

text \<open>The literal \<open>chrs\<close>; \<open>sizeof\<close> counts its terminator, \<open>pick\<close> ranges up to \<open>sizeof - 2\<close>.\<close>

definition chrs :: string where
  "chrs = ''080886789abcdefghijklmnopqrstuvwxyzABCDEFGHIJKLMNOPQRSTUVWXYZ''"

definition chrs_sizeof :: nat where
  "chrs_sizeof = length chrs + 1"

fun generate_loop :: "('g \<Rightarrow> nat \<times> 'g) \<Rightarrow> nat \<Rightarrow> 'g \<Rightarrow> string \<Rightarrow> string \<times> 'g" where
  "generate_loop pick 0 g random_str = (random_str, g)"
| "generate_loop pick (Suc n) g random_str =
     (let (k, g') = pick g in generate_loop pick n g' (random_str @ [chrs ! k]))"

definition generateSessionID :: "('g \<Rightarrow> nat \<times> 'g) \<Rightarrow> 'g \<Rightarrow> string \<times> 'g" where
  "generateSessionID pick g = generate_loop pick SESSION_ID_LENGTH g []"

section \<open>The contract of the registry\<close>

text \<open>
  What the proxy relies on: a registered session is found under the code that was returned,
  and taking a session by its code removes it and nothing else.
\<close>

locale session_registry =
  fixes found :: "'m \<Rightarrow> cstring \<Rightarrow> 'p option"
    and register :: "'p \<Rightarrow> 'm \<Rightarrow> cstring \<times> 'm"
    and take_session :: "cstring \<Rightarrow> 'm \<Rightarrow> 'p option \<times> 'm"
  assumes found_register: "found (snd (register p m)) (fst (register p m)) = Some p"
    and found_register_other: "k \<noteq> fst (register p m) \<Longrightarrow> found (snd (register p m)) k = found m k"
    and take_found: "fst (take_session k m) = found m k"
    and found_take: "found (snd (take_session k m)) k' = (if k' = k then None else found m k')"
begin

lemma take_registered: "fst (take_session (fst (register p m)) (snd (register p m))) = Some p"
  by (simp add: take_found found_register)

lemma take_twice: "fst (take_session k (snd (take_session k m))) = None"
  by (simp add: take_found found_take)

lemma take_missing: "found m k = None \<Longrightarrow> fst (take_session k m) = None"
  by (simp add: take_found)

end

definition found_session :: "'p manager \<Rightarrow> cstring \<Rightarrow> 'p option" where
  "found_session m k = map_option client_session (map_of (senders_sessions m) k)"

text \<open>Registration at a time, as a pair.\<close>

definition register_at :: "int \<Rightarrow> 'p \<Rightarrow> 'p manager \<Rightarrow> cstring \<times> 'p manager" where
  "register_at now p m = (projr (fst (registerStreamer p now m)), snd (registerStreamer p now m))"

lemma map_of_AList_delete: "map_of (AList.delete k m) = (map_of m)(k := None)"
  by (simp add: AList.delete_conv')

lemma registerStreamer_eq:
  "registerStreamer p now m = (Inr (str ''test''),
     m\<lparr>senders_sessions := AList.update (str ''test'') \<lparr>client_session = p, time_point = now\<rparr>
        (if map_contains (senders_sessions m) (str ''test'')
         then AList.delete (str ''test'') (senders_sessions m) else senders_sessions m)\<rparr>)"
  by (simp add: registerStreamer_def Let_def)

interpretation registry: session_registry found_session "register_at now" extract_session
  by unfold_locales
    (auto simp: found_session_def register_at_def registerStreamer_eq extract_session_def update_conv'
      map_of_AList_delete split: option.splits)

section \<open>Invariant: the only code is the literal one\<close>

definition registry_ok :: "'p manager \<Rightarrow> bool" where
  "registry_ok m \<longleftrightarrow> distinct (map fst (senders_sessions m))
     \<and> fst ` set (senders_sessions m) \<subseteq> {str ''test''}"

text \<open>The two conditions, on the map itself.\<close>

definition keys_ok :: "'p senders \<Rightarrow> bool" where
  "keys_ok xs \<longleftrightarrow> distinct (map fst xs) \<and> fst ` set xs \<subseteq> {str ''test''}"

lemma registry_ok_keys: "registry_ok m \<longleftrightarrow> keys_ok (senders_sessions m)"
  by (simp only: registry_ok_def keys_ok_def)

lemma keys_ok_delete: "keys_ok xs \<Longrightarrow> keys_ok (AList.delete k xs)"
  unfolding keys_ok_def by (intro conjI distinct_delete) (auto simp: AList.delete_eq)

lemma keys_ok_update: "keys_ok xs \<Longrightarrow> keys_ok (AList.update (str ''test'') v xs)"
  unfolding keys_ok_def by (intro conjI distinct_update) (simp_all only: dom_update insert_subset, auto)

lemma terminate_loop_subseq: "set (terminate_loop clock timeout i xs) \<subseteq> set xs
    \<and> (distinct (map fst xs) \<longrightarrow> distinct (map fst (terminate_loop clock timeout i xs)))"
proof (induction xs arbitrary: i)
  case (Cons it rest)
  let ?kept = "terminate_loop clock timeout (Suc i) rest"
  have "set ?kept \<subseteq> set rest" and "fst ` set ?kept \<subseteq> fst ` set rest"
    and "distinct (map fst rest) \<longrightarrow> distinct (map fst ?kept)"
    using Cons.IH [of "Suc i"] by blast+
  then show ?case
    by (simp add: Let_def) blast
qed simp

lemma registry_ok_new [simp]: "registry_ok new_manager"
  by (simp add: registry_ok_def new_manager_def)

lemma registry_ok_register: "registry_ok m \<Longrightarrow> registry_ok (snd (registerStreamer p now m))"
  by (simp only: registry_ok_keys registerStreamer_eq snd_conv manager.simps)
    (simp add: keys_ok_update keys_ok_delete del: str_simps)

lemma registry_ok_extract: "registry_ok m \<Longrightarrow> registry_ok (snd (extract_session k m))"
  by (simp add: registry_ok_keys extract_session_def keys_ok_delete split: option.splits)

lemma registry_ok_terminate: "registry_ok m \<Longrightarrow> registry_ok (terminateTimeoutClients clock timeout m)"
  using terminate_loop_subseq [of clock timeout 0 "senders_sessions m"]
  by (auto simp: registry_ok_def terminateTimeoutClients_def)

lemma registry_ok_reset: "registry_ok (reset m)"
  by (simp add: registry_ok_keys keys_ok_def reset_def Let_def)

lemma registry_ok_init: "registry_ok m \<Longrightarrow> registry_ok (initCleanerThread t i m)"
  by (simp add: registry_ok_def initCleanerThread_def)

lemma registry_ok_at_most_one:
  assumes "registry_ok m"
  shows "currentSessions m \<le> 1"
proof -
  have "length (senders_sessions m) = card (fst ` set (senders_sessions m))"
    using assms by (metis registry_ok_def distinct_card image_set length_map)
  also have "\<dots> \<le> card {str ''test''}"
    using assms by (intro card_mono) (auto simp: registry_ok_def)
  finally show ?thesis
    by (simp add: currentSessions_def)
qed

text \<open>The operations of the registry as one step, in any order.\<close>

datatype 'p registry_op =
    Register 'p int
  | Extract cstring
  | Terminate "nat \<Rightarrow> int" int
  | Reset
  | InitCleaner int int

fun registry_step :: "'p registry_op \<Rightarrow> 'p manager \<Rightarrow> 'p manager" where
  "registry_step (Register p now) m = snd (registerStreamer p now m)"
| "registry_step (Extract k) m = snd (extract_session k m)"
| "registry_step (Terminate clock timeout) m = terminateTimeoutClients clock timeout m"
| "registry_step Reset m = reset m"
| "registry_step (InitCleaner t i) m = initCleanerThread t i m"

interpretation registry_inv: inductive_invariant
  "\<lambda>m. m = new_manager" "\<lambda>m m'. \<exists>op. m' = registry_step op m" registry_ok
proof unfold_locales
  fix m m' :: "'p manager"
  assume ok: "registry_ok m" and "\<exists>op. m' = registry_step op m"
  then obtain op where "m' = registry_step op m"
    by blast
  with ok show "registry_ok m'"
    by (cases op) (auto intro: registry_ok_register registry_ok_extract registry_ok_terminate
      registry_ok_reset registry_ok_init)
qed simp

section \<open>Properties\<close>

text \<open>
  Pairing: a streamer that registers is found under the code it was given, and by one
  viewer only: the first extraction with the code returns it, a second one returns nothing,
  and an extraction never affects another code.
\<close>

theorem streamer_found_once:
  assumes "registerStreamer p now m = (Inr code, m')"
  shows "fst (extract_session code m') = Some p
    \<and> fst (extract_session code (snd (extract_session code m'))) = None
    \<and> (\<forall>other. other \<noteq> code \<longrightarrow>
         found_session (snd (extract_session code m')) other = found_session m' other)"
proof -
  have "register_at now p m = (code, m')"
    using assms by (simp add: register_at_def)
  then have "fst (extract_session code m') = Some p"
    using registry.take_registered [of now p m] by simp
  then show ?thesis
    by (simp add: registry.take_twice registry.found_take)
qed

lemma streamer_found_once_witness:
  "fst (extract_session (str ''test'') (snd (registerStreamer (7 :: nat) 0 new_manager))) = Some 7"
proof -
  have "registerStreamer (7 :: nat) 0 new_manager
      = (Inr (str ''test''), snd (registerStreamer (7 :: nat) 0 new_manager))"
    by (simp add: registerStreamer_eq)
  from streamer_found_once [OF this] show ?thesis
    by simp
qed

text \<open>
  There is room for one streamer: whatever operations ran since the program started, the
  registry holds at most one session, under the code \<open>test\<close>, and a streamer that registers
  while another waits displaces it.
\<close>

theorem one_streamer_at_a_time:
  assumes "reach (\<lambda>m. m = new_manager) (\<lambda>m m'. \<exists>op. m' = registry_step op m) m"
  shows "currentSessions m \<le> 1
    \<and> (\<forall>k. found_session m k \<noteq> None \<longrightarrow> k = str ''test'')
    \<and> map client_session (map snd (senders_sessions (snd (registerStreamer p now m)))) = [p]"
proof -
  have ok: "registry_ok m"
    using registry_inv.holds_reachable [OF assms] .
  have found: "k = str ''test''" if "found_session m k \<noteq> None" for k
  proof -
    have "k \<in> fst ` set (senders_sessions m)"
      using that by (auto simp: found_session_def map_of_eq_None_iff)
    then show ?thesis
      using ok by (auto simp: registry_ok_def)
  qed
  let ?m = "snd (registerStreamer p now m)"
  have "currentSessions ?m \<le> 1"
    by (rule registry_ok_at_most_one) (rule registry_ok_register [OF ok])
  moreover have p: "found_session ?m (str ''test'') = Some p"
    using registry.found_register [of now p m] by (simp add: register_at_def registerStreamer_eq)
  ultimately have "map client_session (map snd (senders_sessions ?m)) = [p]"
    by (cases "senders_sessions ?m") (auto simp: currentSessions_def found_session_def split: if_splits)
  with found registry_ok_at_most_one [OF ok] show ?thesis
    by blast
qed

lemma one_streamer_at_a_time_witness:
  "currentSessions (registry_step (Register (1 :: nat) 5) new_manager) \<le> 1
   \<and> map client_session (map snd (senders_sessions
       (snd (registerStreamer 2 6 (registry_step (Register (1 :: nat) 5) new_manager))))) = [2]"
proof -
  have "reach (\<lambda>m. m = new_manager) (\<lambda>m m'. \<exists>op. m' = registry_step op m)
      (registry_step (Register (1 :: nat) 5) new_manager)"
    by (rule reach_step [OF reach_init], rule refl) blast
  from one_streamer_at_a_time [OF this] show ?thesis
    by blast
qed

lemma terminate_loop_kept:
  assumes "\<And>i. lo \<le> clock i \<and> clock i \<le> hi"
  shows "x \<in> set (terminate_loop clock timeout i xs) \<Longrightarrow> lo - time_point (snd x) \<le> timeout * ns_per_second"
    and "x \<in> set xs \<Longrightarrow> hi - time_point (snd x) \<le> timeout * ns_per_second \<Longrightarrow>
           x \<in> set (terminate_loop clock timeout i xs)"
proof (induction xs arbitrary: i)
  case (Cons y xs)
  {
    case 1
    then show ?case
      using Cons.IH(1) assms [of i] by (fastforce simp: Let_def split: if_splits)
  next
    case 2
    then show ?case
      using Cons.IH(2) assms [of i] by (fastforce simp: Let_def split: if_splits)
  }
qed simp_all



lemma generate_loop_spec:
  assumes "\<And>g. fst (pick g) \<le> chrs_sizeof - 2"
  shows "length (fst (generate_loop pick n g s)) = length s + n
    \<and> set (fst (generate_loop pick n g s)) \<subseteq> set s \<union> set chrs"
proof (induction n arbitrary: g s)
  case 0
  then show ?case by simp
next
  case (Suc n)
  obtain k g' where k: "pick g = (k, g')"
    by fastforce
  have "k < length chrs"
    using assms [of g] k by (simp add: chrs_sizeof_def chrs_def)
  then have "chrs ! k \<in> set chrs"
    by simp
  with Suc [of g' "s @ [chrs ! k]"] k show ?case
    by auto
qed

text \<open>
  A generated session identifier has ten characters, none read from outside the literal
  (the range of \<open>pick\<close> leaves out its terminator), and, since the literal lists the digits as
  \<open>080886789\<close>, none of the digits 1 to 5.
\<close>

theorem session_id_alphabet:
  assumes "\<And>g. fst (pick g) \<le> chrs_sizeof - 2"
  shows "length (fst (generateSessionID pick g)) = 10
    \<and> set (fst (generateSessionID pick g)) \<subseteq> set chrs
    \<and> (\<forall>d \<in> set ''12345''. d \<notin> set (fst (generateSessionID pick g)))"
proof -
  have sub: "set (fst (generateSessionID pick g)) \<subseteq> set chrs"
    and len: "length (fst (generateSessionID pick g)) = 10"
    using generate_loop_spec [OF assms, where n = SESSION_ID_LENGTH and g = g and s = "[]"]
    by (simp_all add: generateSessionID_def SESSION_ID_LENGTH_def)
  have "\<forall>d \<in> set ''12345''. d \<notin> set chrs"
    by (simp add: chrs_def)
  with sub len show ?thesis
    by blast
qed

lemma session_id_alphabet_witness:
  "length (fst (generateSessionID (\<lambda>g. (g mod 61, g + 7)) (3 :: nat))) = 10"
  using session_id_alphabet [of "\<lambda>g :: nat. (g mod 61, g + 7)" 3] by (simp add: chrs_sizeof_def chrs_def)

end
