(* ===== verification/Cleaner_Thread.thy ===== *)
theory Cleaner_Thread
  imports Sessions_Manager
begin

text \<open>
  The interleaving of the cleaner thread that \<open>ServerSessionsManager::initCleanerThread\<close>
  starts with a call of \<open>ServerSessionsManager::reset\<close>: \<open>src/ServerSessionsManager.cpp\<close>.
  The steps are the points where the two threads can be scheduled: the tests of the stop
  request, the acquisitions of the mutex \<open>m\<close>, the critical sections and the join. The
  mutex is released by the destructor of \<open>unique_lock\<close>, for \<open>reset\<close> after the join.
\<close>

section \<open>The two threads\<close>

datatype thread = Cleaner | Resetter

datatype cleaner_pc =
    CTest      \<comment> \<open>before \<open>while (!stop_token.stop_requested())\<close>\<close>
  | CLock      \<comment> \<open>before \<open>unique_lock lock{m}\<close> in \<open>terminateTimeoutClients\<close>\<close>
  | CSweep     \<comment> \<open>in the loop over the sessions, \<open>m\<close> held\<close>
  | CWait      \<comment> \<open>in \<open>cv.wait_for\<close>, \<open>m\<close> not held\<close>
  | CDone      \<comment> \<open>returned\<close>

datatype reset_pc =
    RLock      \<comment> \<open>before \<open>unique_lock lock{m}\<close> in \<open>reset\<close>\<close>
  | RHeld      \<comment> \<open>before \<open>senders_sessions.clear()\<close> and \<open>request_stop()\<close>, \<open>m\<close> held\<close>
  | RJoin      \<comment> \<open>in \<open>connections_controller.join()\<close>, \<open>m\<close> held\<close>
  | RDone      \<comment> \<open>returned\<close>

record 'p threads =
  shared :: "'p manager"
  mutex :: "thread option"
  stop_requested :: bool
  cleaner_at :: cleaner_pc
  reset_at :: reset_pc

text \<open>The thread was started (it is joinable) and somebody calls \<open>reset\<close>.\<close>

definition threads_init :: "'p threads \<Rightarrow> bool" where
  "threads_init s \<longleftrightarrow> mutex s = None \<and> \<not> stop_requested s \<and> cleaner_at s = CTest \<and> reset_at s = RLock
     \<and> connections_controller (shared s) \<noteq> None"

definition controller_timeout :: "'p manager \<Rightarrow> int" where
  "controller_timeout m = (case connections_controller m of None \<Rightarrow> 0 | Some c \<Rightarrow> client_timeout c)"

inductive threads_step :: "'p threads \<Rightarrow> 'p threads \<Rightarrow> bool" where
  go_on: "cleaner_at s = CTest \<Longrightarrow> \<not> stop_requested s \<Longrightarrow>
    threads_step s (s\<lparr>cleaner_at := CLock\<rparr>)"
| stop: "cleaner_at s = CTest \<Longrightarrow> stop_requested s \<Longrightarrow>
    threads_step s (s\<lparr>cleaner_at := CDone\<rparr>)"
| cleaner_acquires: "cleaner_at s = CLock \<Longrightarrow> mutex s = None \<Longrightarrow>
    threads_step s (s\<lparr>cleaner_at := CSweep, mutex := Some Cleaner\<rparr>)"
| sweep: "cleaner_at s = CSweep \<Longrightarrow>
    threads_step s (s\<lparr>shared := terminateTimeoutClients clock (controller_timeout (shared s)) (shared s),
      mutex := None, cleaner_at := CWait\<rparr>)"
| wake: "cleaner_at s = CWait \<Longrightarrow>
    threads_step s (s\<lparr>cleaner_at := CTest\<rparr>)"
| reset_acquires: "reset_at s = RLock \<Longrightarrow> mutex s = None \<Longrightarrow>
    threads_step s (s\<lparr>reset_at := RHeld, mutex := Some Resetter\<rparr>)"
| clear: "reset_at s = RHeld \<Longrightarrow>
    threads_step s (s\<lparr>shared := (shared s)\<lparr>senders_sessions := []\<rparr>, stop_requested := True, reset_at := RJoin\<rparr>)"
| join: "reset_at s = RJoin \<Longrightarrow> cleaner_at s = CDone \<Longrightarrow>
    threads_step s (s\<lparr>shared := (shared s)\<lparr>connections_controller := None\<rparr>, mutex := None, reset_at := RDone\<rparr>)"

inductive_cases threads_stepE: "threads_step s t"

section \<open>Who holds the mutex\<close>

definition mutex_inv :: "'p threads \<Rightarrow> bool" where
  "mutex_inv s \<longleftrightarrow>
     (cleaner_at s = CSweep \<longleftrightarrow> mutex s = Some Cleaner)
   \<and> (reset_at s \<in> {RHeld, RJoin} \<longleftrightarrow> mutex s = Some Resetter)
   \<and> (stop_requested s \<longleftrightarrow> reset_at s \<in> {RJoin, RDone})
   \<and> (cleaner_at s = CDone \<longrightarrow> stop_requested s)
   \<and> (reset_at s = RDone \<longrightarrow> cleaner_at s = CDone)
   \<and> (reset_at s \<in> {RJoin, RDone} \<longrightarrow> senders_sessions (shared s) = [])"

lemma terminate_nothing: "senders_sessions m = [] \<Longrightarrow> senders_sessions (terminateTimeoutClients clock t m) = []"
  by (simp add: terminateTimeoutClients_def)

lemma mutex_inv_step: "threads_step s t \<Longrightarrow> mutex_inv s \<Longrightarrow> mutex_inv t"
proof (induction rule: threads_step.induct)
  case (join s)
  then show ?case
    by (simp add: mutex_inv_def)
qed (simp_all add: mutex_inv_def terminate_nothing, fastforce+)

interpretation threads_invariant: inductive_invariant threads_init threads_step mutex_inv
proof unfold_locales
  fix s :: "'p threads"
  assume "threads_init s"
  then show "mutex_inv s"
    by (simp add: mutex_inv_def threads_init_def)
qed (rule mutex_inv_step)

lemma mutex_cases: "mutex s = None \<or> mutex s = Some Cleaner \<or> mutex s = Some Resetter"
  using thread.exhaust by (metis option.exhaust)

lemma threads_progress:
  assumes "mutex_inv s" and "\<not> (reset_at s = RDone)" and "\<not> (reset_at s = RJoin \<and> cleaner_at s = CLock)"
  shows "\<exists>t. threads_step s t"
proof (cases "cleaner_at s")
  case CTest
  then show ?thesis
    by (cases "stop_requested s") (blast intro: go_on stop)+
next
  case CLock
  with assms show ?thesis
    using mutex_cases [of s]
    by (cases "reset_at s") (auto simp: mutex_inv_def intro: cleaner_acquires clear)
next
  case CSweep
  then show ?thesis
    by (blast intro: sweep)
next
  case CWait
  then show ?thesis
    by (blast intro: wake)
next
  case CDone
  with assms show ?thesis
    by (cases "reset_at s") (auto simp: mutex_inv_def intro: join)
qed

lemma stuck_cases:
  assumes "mutex_inv s"
  shows "(\<nexists>t. threads_step s t) \<longleftrightarrow>
    reset_at s = RDone \<or> (reset_at s = RJoin \<and> cleaner_at s = CLock)"
proof
  assume "\<nexists>t. threads_step s t"
  then show "reset_at s = RDone \<or> (reset_at s = RJoin \<and> cleaner_at s = CLock)"
    using threads_progress [OF assms] by blast
next
  assume "reset_at s = RDone \<or> (reset_at s = RJoin \<and> cleaner_at s = CLock)"
  then show "\<nexists>t. threads_step s t"
    using assms by (auto elim!: threads_stepE simp: mutex_inv_def)
qed

section \<open>Properties\<close>

text \<open>
  C35. In every interleaving the sessions are touched by one thread at a time: the cleaner
  sweeps only while it holds the mutex, \<open>reset\<close> is in its critical section only while it
  does, so never both; and once \<open>reset\<close> has cleared the registry it stays empty.
\<close>

theorem sessions_guarded:
  assumes "reach threads_init threads_step s"
  shows "\<not> (cleaner_at s = CSweep \<and> reset_at s \<in> {RHeld, RJoin})
    \<and> (cleaner_at s = CSweep \<longrightarrow> mutex s = Some Cleaner)
    \<and> (reset_at s \<in> {RHeld, RJoin} \<longrightarrow> mutex s = Some Resetter)
    \<and> (reset_at s \<in> {RJoin, RDone} \<longrightarrow> senders_sessions (shared s) = [])"
  using threads_invariant.holds_reachable [OF assms] by (auto simp: mutex_inv_def)

text \<open>The start of both threads, and the run that ends in the deadlock.\<close>

definition start_threads :: "nat threads" where
  "start_threads = \<lparr>shared = initCleanerThread 120 1 new_manager, mutex = None, stop_requested = False,
     cleaner_at = CTest, reset_at = RLock\<rparr>"

lemma start_threads_init: "threads_init start_threads"
  by (simp add: threads_init_def start_threads_def initCleanerThread_def)

lemma deadlock_run:
  "reach threads_init threads_step (start_threads\<lparr>cleaner_at := CLock, reset_at := RJoin,
     mutex := Some Resetter, stop_requested := True\<rparr>)"
proof -
  let ?s1 = "start_threads\<lparr>cleaner_at := CLock\<rparr>"
  let ?s2 = "?s1\<lparr>reset_at := RHeld, mutex := Some Resetter\<rparr>"
  let ?s3 = "?s2\<lparr>shared := (shared ?s2)\<lparr>senders_sessions := []\<rparr>, stop_requested := True, reset_at := RJoin\<rparr>"
  have "threads_step start_threads ?s1"
    by (rule go_on) (simp_all add: start_threads_def)
  moreover have "threads_step ?s1 ?s2"
    by (rule reset_acquires) (simp_all add: start_threads_def)
  moreover have "threads_step ?s2 ?s3"
    by (rule clear) simp
  ultimately have "reach threads_init threads_step ?s3"
    by (blast intro: reach_step reach_init start_threads_init)
  moreover have "?s3 = start_threads\<lparr>cleaner_at := CLock, reset_at := RJoin,
      mutex := Some Resetter, stop_requested := True\<rparr>"
    by (simp add: start_threads_def initCleanerThread_def new_manager_def)
  ultimately show ?thesis
    by simp
qed

lemma sessions_guarded_witness:
  "senders_sessions (shared (start_threads\<lparr>cleaner_at := CLock, reset_at := RJoin,
     mutex := Some Resetter, stop_requested := True\<rparr>)) = []"
  using sessions_guarded [OF deadlock_run] by simp

text \<open>
  C36. Where the two threads can stop for good: after \<open>reset\<close> has returned, or in one deadlock,
  \<open>reset\<close> joining the cleaner while it holds the mutex that the cleaner is about to lock.
\<close>

theorem threads_stuck_iff:
  assumes "reach threads_init threads_step s"
  shows "(\<nexists>t. threads_step s t) \<longleftrightarrow>
    reset_at s = RDone \<or> (reset_at s = RJoin \<and> cleaner_at s = CLock \<and> mutex s = Some Resetter)"
  using stuck_cases [of s] threads_invariant.holds_reachable [OF assms] by (auto simp: mutex_inv_def)

lemma threads_stuck_iff_witness:
  "\<nexists>t. threads_step (start_threads\<lparr>cleaner_at := CLock, reset_at := RJoin,
     mutex := Some Resetter, stop_requested := True\<rparr>) t"
  using threads_stuck_iff [OF deadlock_run] by simp

text \<open>
  That deadlock happens: there is a run from the start of the thread, with \<open>reset\<close> called
  between the cleaner's test of the stop request and its lock, that ends in it.
\<close>

theorem reset_can_deadlock:
  "\<exists>s :: nat threads. reach threads_init threads_step s \<and> reset_at s = RJoin \<and> cleaner_at s = CLock
     \<and> (\<nexists>t. threads_step s t)"
proof (intro exI conjI)
  let ?s = "start_threads\<lparr>cleaner_at := CLock, reset_at := RJoin, mutex := Some Resetter,
    stop_requested := True\<rparr>"
  show run: "reach threads_init threads_step ?s"
    by (rule deadlock_run)
  show "\<nexists>t. threads_step ?s t"
    using stuck_cases [of ?s] threads_invariant.holds_reachable [OF run] by simp
qed simp_all

end
