(* ===== verification/Sockets.thy ===== *)
theory Sockets
  imports Messages
begin

text \<open>
  The message transport: \<open>include/SocketBase.hpp\<close> and \<open>src/SocketBase.cpp\<close>. The TLS
  stream is Boost.Asio's, so its operations are the argument \<open>ops\<close> and its state is a type
  variable; an operation of \<open>SocketBase\<close> maps the state of the object (stream, receive
  buffer, operations in flight) to a result or exception and a new state. A message is sent
  as one header and content per chunk of at most \<open>BUFFER_SIZE\<close> bytes.
\<close>

section \<open>The stream\<close>

text \<open>
  The calls the code makes on \<open>boost::asio::ssl::stream<tcp::socket>\<close> and its lowest layer.
  \<open>op_write\<close> writes all the bytes or reports an error, \<open>op_read n\<close> returns exactly
  \<open>n\<close> bytes or reports an error.
\<close>

record 's asio =
  op_write :: "byte list \<Rightarrow> 's \<Rightarrow> error_code option \<times> 's"
  op_read :: "nat \<Rightarrow> 's \<Rightarrow> (error_code + byte list) \<times> 's"
  op_shutdown :: "'s \<Rightarrow> error_code option \<times> 's"
  op_close :: "'s \<Rightarrow> error_code option \<times> 's"
  op_is_open :: "'s \<Rightarrow> bool"
  op_handshake :: "'s \<Rightarrow> error_code option \<times> 's"
  op_remote_endpoint :: "'s \<Rightarrow> error_code + cstring"

text \<open>
  What is documented of a connection in working order (\<open>live\<close>): a write appends its bytes
  to what was sent, a read takes its bytes from the front of what the peer has sent
  (\<open>avail\<close>) once there are enough of them, and neither ends the connection.
\<close>

definition stream_contract ::
  "'s asio \<Rightarrow> ('s \<Rightarrow> byte list) \<Rightarrow> ('s \<Rightarrow> byte list) \<Rightarrow> ('s \<Rightarrow> bool) \<Rightarrow> bool" where
  "stream_contract ops sent avail live \<longleftrightarrow>
     (\<forall>s bs. live s \<longrightarrow>
        (\<exists>t. op_write ops bs s = (None, t) \<and> live t \<and> sent t = sent s @ bs \<and> avail t = avail s)) \<and>
     (\<forall>s n. live s \<and> n \<le> length (avail s) \<longrightarrow>
        (\<exists>t. op_read ops n s = (Inr (take n (avail s)), t) \<and> live t \<and> sent t = sent s
           \<and> avail t = drop n (avail s)))"

text \<open>What holds of every connection: a write that fails has sent some prefix of its bytes.\<close>

definition prefix_writes :: "'s asio \<Rightarrow> ('s \<Rightarrow> byte list) \<Rightarrow> bool" where
  "prefix_writes ops sent \<longleftrightarrow>
     (\<forall>s bs. \<exists>k. sent (snd (op_write ops bs s)) = sent s @ take k bs
        \<and> (fst (op_write ops bs s) = None \<longrightarrow> length bs \<le> k))"

text \<open>A read that succeeds returns as many bytes as were asked for.\<close>

definition exact_reads :: "'s asio \<Rightarrow> bool" where
  "exact_reads ops \<longleftrightarrow> (\<forall>s n bs t. op_read ops n s = (Inr bs, t) \<longrightarrow> length bs = n)"

section \<open>The object\<close>

definition BUFFER_SIZE :: nat where
  "BUFFER_SIZE = 1024 * 1024 * 5"

definition BUFFER_SIZE_t :: size_t where
  "BUFFER_SIZE_t = of_nat BUFFER_SIZE"

lemma unat_BUFFER_SIZE_t [simp]: "unat BUFFER_SIZE_t = BUFFER_SIZE"
  by (simp add: BUFFER_SIZE_t_def BUFFER_SIZE_def)

lemma BUFFER_SIZE_pos [simp]: "0 < BUFFER_SIZE"
  by (simp add: BUFFER_SIZE_def)

lemma BUFFER_SIZE_holds_header: "sizeof_MessageHeader \<le> BUFFER_SIZE"
  by (simp add: BUFFER_SIZE_def sizeof_MessageHeader_def)

text \<open>
  Asynchronous operations in flight. A handler is a \<open>std::function\<close>; the ones a class
  passes are values of a type \<open>'h\<close> of its own.
\<close>

datatype 'h async_read = HeaderRead 'h size_t | BodyRead 'h MessageHeader

record ('s, 'h) SocketBase =
  socket :: 's
  data_buffer :: "byte list"
  reads :: "'h async_read list"
  writes :: "(byte list \<times> 'h) list"

definition new_SocketBase :: "'s \<Rightarrow> ('s, 'h) SocketBase" where
  "new_SocketBase s =
     \<lparr>socket = s, data_buffer = replicate BUFFER_SIZE 0, reads = [], writes = []\<rparr>"

abbreviation on_stream :: "('s \<Rightarrow> (exn + 'a) \<times> 's) \<Rightarrow> (exn, ('s, 'h) SocketBase, 'a) eff" where
  "on_stream \<equiv> zoom socket (\<lambda>s sb. sb\<lparr>socket := s\<rparr>)"

text \<open>\<open>boost::asio::write\<close> and \<open>boost::asio::read\<close> in the forms that throw.\<close>

definition asio_write :: "'s asio \<Rightarrow> byte list \<Rightarrow> (exn, ('s, 'h) SocketBase, unit) eff" where
  "asio_write ops bs = on_stream (or_throw SystemError (op_write ops bs))"

definition asio_read :: "'s asio \<Rightarrow> nat \<Rightarrow> (exn, ('s, 'h) SocketBase, byte list) eff" where
  "asio_read ops n = on_stream (\<lambda>s. case op_read ops n s of
       (Inl ec, t) \<Rightarrow> (Inl (SystemError ec), t)
     | (Inr bs, t) \<Rightarrow> (Inr bs, t))"

section \<open>Sending\<close>

text \<open>A header with the size of the content, and the content.\<close>

definition frame :: "MessageType \<Rightarrow> cstring \<Rightarrow> byte list" where
  "frame t c = header_bytes \<lparr>message_size = of_nat (length c), hdr_type = t\<rparr> @ c"

definition sendChunk :: "'s asio \<Rightarrow> Message \<Rightarrow> (exn, ('s, 'h) SocketBase, unit) eff" where
  "sendChunk ops message = asio_write ops (frame (msg_type message) (content message))"

text \<open>The loop of \<open>send\<close>; sizes of strings are natural numbers, and the subtraction is guarded.\<close>

function send_loop :: "'s asio \<Rightarrow> Message \<Rightarrow> nat \<Rightarrow> nat \<Rightarrow> (exn, ('s, 'h) SocketBase, unit) eff" where
  "send_loop ops message message_length ptr_cursor =
     (if BUFFER_SIZE < message_length
      then seqE (sendChunk ops \<lparr>msg_type = msg_type message,
                    content = take BUFFER_SIZE (drop ptr_cursor (content message))\<rparr>)
             (send_loop ops message (message_length - BUFFER_SIZE) (ptr_cursor + BUFFER_SIZE))
      else sendChunk ops \<lparr>msg_type = msg_type message,
                    content = take message_length (drop ptr_cursor (content message))\<rparr>)"
  by pat_completeness auto
termination
  by (relation "measure (\<lambda>(ops, message, message_length, ptr_cursor). message_length)") auto

declare send_loop.simps [simp del]

definition send :: "'s asio \<Rightarrow> Message \<Rightarrow> (exn, ('s, 'h) SocketBase, unit) eff" where
  "send ops message = send_loop ops message (length (content message)) 0"

definition sendACK :: "'s asio \<Rightarrow> (exn, ('s, 'h) SocketBase, unit) eff" where
  "sendACK ops = send ops \<lparr>msg_type = ACK, content = []\<rparr>"

definition sendNACK :: "'s asio \<Rightarrow> (exn, ('s, 'h) SocketBase, unit) eff" where
  "sendNACK ops = send ops \<lparr>msg_type = NACK, content = []\<rparr>"

text \<open>\<open>send\<close> of a trivial structure: its object representation is the content.\<close>

definition send_data :: "'s asio \<Rightarrow> ('a \<Rightarrow> byte list) \<Rightarrow> MessageType \<Rightarrow> 'a \<Rightarrow> (exn, ('s, 'h) SocketBase, unit) eff" where
  "send_data ops bytes t data = send ops \<lparr>msg_type = t, content = bytes data\<rparr>"

text \<open>
  \<open>asyncSendMessage\<close> starts one write of header and content, whatever the size; when it
  completes without an error the completion handler runs (\<open>asyncSendMessage_handler\<close>).
\<close>

definition asyncSendMessage :: "Message \<Rightarrow> 'h \<Rightarrow> (exn, ('s, 'h) SocketBase, unit) eff" where
  "asyncSendMessage message completion_handler = modify (\<lambda>sb.
     sb\<lparr>writes := writes sb @ [(frame (msg_type message) (content message), completion_handler)]\<rparr>)"

definition asyncSendMessage_handler ::
  "('h \<Rightarrow> (exn, 'w, unit) eff) \<Rightarrow> 'h \<Rightarrow> error_code option \<Rightarrow> (exn, 'w, unit) eff" where
  "asyncSendMessage_handler run completion_handler ec =
     (case ec of None \<Rightarrow> run completion_handler | Some _ \<Rightarrow> ret ())"

section \<open>Disconnecting\<close>

definition disconnect :: "'s asio \<Rightarrow> cstring option \<Rightarrow> (exn, ('s, 'h) SocketBase, unit) eff" where
  "disconnect ops disconnect_msg =
     seqE (case disconnect_msg of
             None \<Rightarrow> ret ()
           | Some msg \<Rightarrow> send ops \<lparr>msg_type = DISCONNECT, content = msg\<rparr>)
    (seqE (on_stream (or_throw SystemError (op_shutdown ops)))
          (on_stream (or_throw SystemError (op_close ops))))"

definition safeDisconnect :: "'s asio \<Rightarrow> cstring option \<Rightarrow> (exn, ('s, 'h) SocketBase, unit) eff" where
  "safeDisconnect ops disconnect_msg =
     catchE (disconnect ops disconnect_msg)
       (\<lambda>e. if is_std_exception e then ret () else throw e)"

section \<open>Receiving\<close>

definition readHeader :: "'s asio \<Rightarrow> (exn, ('s, 'h) SocketBase, MessageHeader) eff" where
  "readHeader ops =
     bindE (asio_read ops sizeof_MessageHeader) (\<lambda>buf.
       lift_sum (deserialize buf sizeof_MessageHeader BUFFER_SIZE_t))"

definition receive :: "'s asio \<Rightarrow> (exn, ('s, 'h) SocketBase, Message) eff" where
  "receive ops =
     bindE (readHeader ops) (\<lambda>header.
     bindE (asio_read ops (unat (message_size header))) (\<lambda>message.
       ret \<lparr>msg_type = hdr_type header, content = message\<rparr>))"

definition receiveToBuffer :: "'s asio \<Rightarrow> (exn, ('s, 'h) SocketBase, Message) eff" where
  "receiveToBuffer ops =
     bindE (asio_read ops sizeof_MessageHeader) (\<lambda>buf.
     bindE (lift_sum (deserialize buf sizeof_MessageHeader BUFFER_SIZE_t)) (\<lambda>header.
     bindE (asio_read ops (unat (message_size header))) (\<lambda>bytes.
     seqE (modify (\<lambda>sb. sb\<lparr>data_buffer := overwrite (data_buffer sb) bytes\<rparr>))
          (gets (\<lambda>sb. \<lparr>msg_type = hdr_type header,
                       content = take (unat (message_size header)) (data_buffer sb)\<rparr>)))))"

definition MAX_PRINTABLE_STR_LENGTH :: nat where
  "MAX_PRINTABLE_STR_LENGTH = 100"

definition receiveACK :: "'s asio \<Rightarrow> (exn, ('s, 'h) SocketBase, unit) eff" where
  "receiveACK ops =
     bindE (receiveToBuffer ops) (\<lambda>message.
       if msg_type message \<noteq> ACK
       then let additional_message =
                  (if length (content message) < MAX_PRINTABLE_STR_LENGTH then content message
                   else str ''Too large to print.'')
            in bindE (lift_sum (type_to_str_at (msg_type message))) (\<lambda>name.
                 throw (SocketException (NoACK name (length (content message)) additional_message)))
       else ret ())"

definition getBuffer :: "('s, 'h) SocketBase \<Rightarrow> cstring" where
  "getBuffer sb = take BUFFER_SIZE (data_buffer sb)"

definition isOpen :: "'s asio \<Rightarrow> ('s, 'h) SocketBase \<Rightarrow> bool" where
  "isOpen ops sb = op_is_open ops (socket sb)"

section \<open>Asynchronous reading\<close>

definition asyncReadHeader :: "'h \<Rightarrow> size_t \<Rightarrow> (exn, ('s, 'h) SocketBase, unit) eff" where
  "asyncReadHeader message_handler max_message_size =
     modify (\<lambda>sb. sb\<lparr>reads := reads sb @ [HeaderRead message_handler max_message_size]\<rparr>)"

definition asyncReadMessage :: "'h \<Rightarrow> size_t \<Rightarrow> (exn, ('s, 'h) SocketBase, unit) eff" where
  "asyncReadMessage message_handler max_message_size =
     (if BUFFER_SIZE_t < max_message_size
      then throw (SocketException (ReadTooBig (unat max_message_size) BUFFER_SIZE))
      else asyncReadHeader message_handler max_message_size)"

text \<open>A read that completes is no longer in flight.\<close>

definition pop_read :: "(exn, ('s, 'h) SocketBase, unit) eff" where
  "pop_read = modify (\<lambda>sb. sb\<lparr>reads := tl (reads sb)\<rparr>)"

text \<open>The completion of the read of a header: \<open>bytes\<close> are the bytes that were transferred.\<close>

definition asyncReadHeader_handler ::
  "lib \<Rightarrow> 's asio \<Rightarrow> 'h \<Rightarrow> size_t \<Rightarrow> error_code option \<Rightarrow> byte list \<Rightarrow> (exn, ('s, 'h) SocketBase, unit) eff" where
  "asyncReadHeader_handler L ops message_handler max_message_size ec bytes =
     seqE (modify (\<lambda>sb. sb\<lparr>data_buffer := overwrite (data_buffer sb) bytes\<rparr>))
       (case ec of
          Some _ \<Rightarrow> ret ()
        | None \<Rightarrow>
            catchE
              (bindE (gets data_buffer) (\<lambda>buffer.
               bindE (lift_sum (deserialize buffer (length bytes) max_message_size)) (\<lambda>header.
                 modify (\<lambda>sb. sb\<lparr>reads := reads sb @ [BodyRead message_handler header]\<rparr>))))
              (\<lambda>e. if is_header_exception e then safeDisconnect ops (Some (what L e)) else throw e))"

text \<open>
  The completion of the read of a content, once the bytes are in the buffer. The handler runs
  on whatever the object is a part of, so the two operations of the object it needs, the
  buffer and \<open>safeDisconnect\<close>, are arguments.
\<close>

definition asyncReadMessageImpl_handler ::
  "lib \<Rightarrow> ('w \<Rightarrow> byte list) \<Rightarrow> (cstring option \<Rightarrow> (exn, 'w, unit) eff) \<Rightarrow>
   (Message \<Rightarrow> (exn, 'w, unit) eff) \<Rightarrow> MessageHeader \<Rightarrow> error_code option \<Rightarrow> nat \<Rightarrow> (exn, 'w, unit) eff" where
  "asyncReadMessageImpl_handler L buffer disc message_handler header ec transferred =
     (case ec of
        Some _ \<Rightarrow> ret ()
      | None \<Rightarrow>
          catchE
            (bindE (gets buffer) (\<lambda>data.
               message_handler \<lparr>msg_type = hdr_type header, content = take transferred data\<rparr>))
            (\<lambda>e. if is_std_exception e then disc (Some (what L e)) else throw e))"

section \<open>An in-memory stream\<close>

text \<open>
  A stream that keeps both directions as byte strings. It satisfies the contracts, and
  closed executions of the model run on it.
\<close>

record pipe =
  incoming :: "byte list"
  outgoing :: "byte list"
  opened :: bool

definition pipe_ops :: "pipe asio" where
  "pipe_ops = \<lparr>
     op_write = (\<lambda>bs s. if opened s then (None, s\<lparr>outgoing := outgoing s @ bs\<rparr>) else (Some 9, s)),
     op_read = (\<lambda>n s. if opened s \<and> n \<le> length (incoming s)
                 then (Inr (take n (incoming s)), s\<lparr>incoming := drop n (incoming s)\<rparr>)
                 else (Inl 2, s)),
     op_shutdown = (\<lambda>s. if opened s then (None, s) else (Some 9, s)),
     op_close = (\<lambda>s. (None, s\<lparr>opened := False\<rparr>)),
     op_is_open = opened,
     op_handshake = (\<lambda>s. (if opened s then None else Some 9, s)),
     op_remote_endpoint = (\<lambda>s. if opened s then Inr (str ''127.0.0.1:1'') else Inl 107)\<rparr>"

lemma pipe_ops_simps [simp]:
  "op_write pipe_ops bs s = (if opened s then (None, s\<lparr>outgoing := outgoing s @ bs\<rparr>) else (Some 9, s))"
  "op_read pipe_ops n s = (if opened s \<and> n \<le> length (incoming s)
     then (Inr (take n (incoming s)), s\<lparr>incoming := drop n (incoming s)\<rparr>) else (Inl 2, s))"
  "op_shutdown pipe_ops s = (if opened s then (None, s) else (Some 9, s))"
  "op_close pipe_ops s = (None, s\<lparr>opened := False\<rparr>)"
  "op_is_open pipe_ops = opened"
  "op_handshake pipe_ops s = (if opened s then None else Some 9, s)"
  "op_remote_endpoint pipe_ops s = (if opened s then Inr (str ''127.0.0.1:1'') else Inl 107)"
  by (simp_all add: pipe_ops_def)

lemma pipe_contract: "stream_contract pipe_ops outgoing incoming opened"
  by (simp add: stream_contract_def)

lemma pipe_prefix_writes: "prefix_writes pipe_ops outgoing"
proof -
  have "outgoing (snd (op_write pipe_ops bs s)) = outgoing s @ take (if opened s then length bs else 0) bs
      \<and> (fst (op_write pipe_ops bs s) = None \<longrightarrow> length bs \<le> (if opened s then length bs else 0))" for s bs
    by simp
  then show ?thesis
    unfolding prefix_writes_def by blast
qed

lemma pipe_exact_reads: "exact_reads pipe_ops"
  by (auto simp: exact_reads_def split: if_splits)

end
