(* ===== verification/Transport.thy ===== *)
theory Transport
  imports Sockets
begin

text \<open>
  What \<open>SocketBase\<close> promises. Sending a message is writing the frames of its chunks; what is
  sent is received, message by message; a failure leaves a prefix; a receive never leaves the
  buffer; a refused header ends the connection with its reason.
\<close>

section \<open>Sending is writing frames\<close>

text \<open>The reference: the frames of a message, written one after the other.\<close>

fun write_frames :: "'s asio \<Rightarrow> byte list list \<Rightarrow> (exn, ('s, 'h) SocketBase, unit) eff" where
  "write_frames ops [] = ret ()"
| "write_frames ops (f # fs) = seqE (asio_write ops f) (write_frames ops fs)"

definition frames :: "Message \<Rightarrow> byte list list" where
  "frames m = map (frame (msg_type m)) (chunks BUFFER_SIZE (content m))"

lemma seqE_ret [simp]: "seqE m (ret ()) = m"
  by (rule ext) (auto simp: eff split: prod.splits sum.splits)

lemma send_loop_frames:
  "c \<le> length (content m) \<Longrightarrow>
     send_loop ops m (length (content m) - c) c
     = write_frames ops (map (frame (msg_type m)) (chunks BUFFER_SIZE (drop c (content m))))"
proof (induction ops m "length (content m) - c" c rule: send_loop.induct)
  case (1 ops m c)
  show ?case
  proof (cases "BUFFER_SIZE < length (content m) - c")
    case True
    have "length (content m) - c - BUFFER_SIZE = length (content m) - (c + BUFFER_SIZE)"
      by simp
    with "1.hyps" [OF True] True show ?thesis
      by (simp add: send_loop.simps [of ops m "length (content m) - c"] chunks_long sendChunk_def
        add.commute)
  next
    case False
    then show ?thesis
      by (simp add: send_loop.simps [of ops m "length (content m) - c"] chunks_short sendChunk_def)
  qed
qed

lemma send_frames: "send ops m = write_frames ops (frames m)"
  using send_loop_frames [of 0 m ops] by (simp add: send_def frames_def)

text \<open>
  C29. \<open>send\<close> refines the framing specification on every stream, failing ones included: it
  does exactly the writes of the frames of the message's chunks, in order, up to the first
  that fails. The chunks make up the content, none is longer than the buffer, only the last
  can be shorter, and there are as many as the content needs (one for an empty content).
\<close>

theorem send_refines_framing:
  "send ops m = write_frames ops (map (frame (msg_type m)) (chunks BUFFER_SIZE (content m)))
   \<and> concat (chunks BUFFER_SIZE (content m)) = content m
   \<and> (\<forall>c \<in> set (chunks BUFFER_SIZE (content m)). length c \<le> BUFFER_SIZE)
   \<and> (\<forall>c \<in> set (butlast (chunks BUFFER_SIZE (content m))). length c = BUFFER_SIZE)
   \<and> length (chunks BUFFER_SIZE (content m))
       = (if content m = [] then 1 else (length (content m) + BUFFER_SIZE - 1) div BUFFER_SIZE)"
proof (intro conjI ballI)
  show "send ops m = write_frames ops (map (frame (msg_type m)) (chunks BUFFER_SIZE (content m)))"
    by (simp add: send_frames frames_def)
  show "concat (chunks BUFFER_SIZE (content m)) = content m"
    by simp
qed (blast intro: chunks_bounded chunks_full length_chunks BUFFER_SIZE_pos)+

lemma send_refines_framing_witness:
  "length (hd (chunks BUFFER_SIZE (content \<lparr>msg_type = ACK, content = [7]\<rparr>))) \<le> BUFFER_SIZE"
  using send_refines_framing [of pipe_ops "\<lparr>msg_type = ACK, content = [7]\<rparr>"] chunks_not_Nil hd_in_set by blast

section \<open>Streams in working order\<close>

lemma contract_write:
  assumes "stream_contract ops sent avail live" and "live s"
  obtains t where "op_write ops bs s = (None, t)" "live t" "sent t = sent s @ bs" "avail t = avail s"
  using assms unfolding stream_contract_def by blast

lemma contract_read:
  assumes "stream_contract ops sent avail live" and "live s" and "avail s = bs @ rest"
  obtains t where "op_read ops (length bs) s = (Inr bs, t)" "live t" "sent t = sent s" "avail t = rest"
proof -
  have "length bs \<le> length (avail s)"
    using assms(3) by simp
  then obtain t where "op_read ops (length bs) s = (Inr (take (length bs) (avail s)), t)"
    "live t" "sent t = sent s" "avail t = drop (length bs) (avail s)"
    using assms(1,2) unfolding stream_contract_def by blast
  with assms(3) that show ?thesis
    by simp
qed

lemma write_frames_live:
  assumes "stream_contract ops sent avail live" and "live (socket sb)"
  shows "\<exists>t. write_frames ops fs sb = (Inr (), sb\<lparr>socket := t\<rparr>) \<and> live t
    \<and> sent t = sent (socket sb) @ concat fs \<and> avail t = avail (socket sb)"
  using assms(2)
proof (induction fs arbitrary: sb)
  case Nil
  then show ?case
    by (auto simp: ret_def intro: exI [of _ "socket sb"])
next
  case (Cons f fs)
  obtain t where t: "op_write ops f (socket sb) = (None, t)" "live t"
    "sent t = sent (socket sb) @ f" "avail t = avail (socket sb)"
    by (rule contract_write [OF assms(1) Cons.prems])
  then have "asio_write ops f sb = (Inr (), sb\<lparr>socket := t\<rparr>)"
    by (simp add: asio_write_def eff)
  with Cons.IH [of "sb\<lparr>socket := t\<rparr>"] t show ?case
    by (auto simp: seqE_step)
qed

lemma send_live:
  assumes "stream_contract ops sent avail live" and "live (socket sb)"
  obtains t where "send ops m sb = (Inr (), sb\<lparr>socket := t\<rparr>)" "live t"
    "sent t = sent (socket sb) @ concat (frames m)" "avail t = avail (socket sb)"
  using write_frames_live [OF assms, of "frames m"] that by (auto simp: send_frames)

lemma asio_read_live:
  assumes "stream_contract ops sent avail live" and "live (socket sb)"
    and "avail (socket sb) = bs @ rest" and "length bs = n"
  obtains t where "asio_read ops n sb = (Inr bs, sb\<lparr>socket := t\<rparr>)" "live t"
    "sent t = sent (socket sb)" "avail t = rest"
proof -
  obtain t where t: "op_read ops (length bs) (socket sb) = (Inr bs, t)" "live t"
    "sent t = sent (socket sb)" "avail t = rest"
    by (rule contract_read [OF assms(1-3)])
  then have "asio_read ops n sb = (Inr bs, sb\<lparr>socket := t\<rparr>)"
    using assms(4) by (simp add: asio_read_def zoom_def)
  with t that show ?thesis
    by blast
qed

section \<open>Receiving what was sent\<close>

lemma deserialize_frame:
  assumes "length c \<le> BUFFER_SIZE"
  shows "deserialize (header_bytes \<lparr>message_size = of_nat (length c), hdr_type = t\<rparr>)
    sizeof_MessageHeader BUFFER_SIZE_t = Inr \<lparr>message_size = of_nat (length c), hdr_type = t\<rparr>"
    and "unat (of_nat (length c) :: size_t) = length c"
proof -
  have "length c < 2 ^ 64"
    using assms by (simp add: BUFFER_SIZE_def)
  then show u: "unat (of_nat (length c) :: size_t) = length c"
    by (simp add: unat_of_nat)
  with assms have "(of_nat (length c) :: size_t) \<le> BUFFER_SIZE_t"
    by (simp add: word_le_nat_alt)
  then show "deserialize (header_bytes \<lparr>message_size = of_nat (length c), hdr_type = t\<rparr>)
      sizeof_MessageHeader BUFFER_SIZE_t = Inr \<lparr>message_size = of_nat (length c), hdr_type = t\<rparr>"
    using deserialize_header_bytes [of sizeof_MessageHeader _ "[]"] by simp
qed

lemma readHeader_live:
  assumes "stream_contract ops sent avail live" and "live (socket sb)"
    and "avail (socket sb) = frame t c @ rest" and "length c \<le> BUFFER_SIZE"
  obtains s where "readHeader ops sb
      = (Inr \<lparr>message_size = of_nat (length c), hdr_type = t\<rparr>, sb\<lparr>socket := s\<rparr>)"
    "live s" "sent s = sent (socket sb)" "avail s = c @ rest"
proof -
  let ?h = "\<lparr>message_size = of_nat (length c), hdr_type = t\<rparr> :: MessageHeader"
  have "avail (socket sb) = header_bytes ?h @ c @ rest"
    using assms(3) by (simp add: frame_def)
  then obtain s where "asio_read ops sizeof_MessageHeader sb = (Inr (header_bytes ?h), sb\<lparr>socket := s\<rparr>)"
    "live s" "sent s = sent (socket sb)" "avail s = c @ rest"
    by (rule asio_read_live [OF assms(1,2)]) simp
  with that deserialize_frame(1) [OF assms(4), of t] show ?thesis
    by (simp add: readHeader_def bindE_step lift_sum_def)
qed

lemma receive_live:
  assumes "stream_contract ops sent avail live" and "live (socket sb)"
    and "avail (socket sb) = frame t c @ rest" and "length c \<le> BUFFER_SIZE"
  obtains s where "receive ops sb = (Inr \<lparr>msg_type = t, content = c\<rparr>, sb\<lparr>socket := s\<rparr>)"
    "live s" "sent s = sent (socket sb)" "avail s = rest"
proof -
  obtain s where s: "readHeader ops sb
      = (Inr \<lparr>message_size = of_nat (length c), hdr_type = t\<rparr>, sb\<lparr>socket := s\<rparr>)"
    "live s" "sent s = sent (socket sb)" "avail s = c @ rest"
    by (rule readHeader_live [OF assms])
  obtain u where "asio_read ops (length c) (sb\<lparr>socket := s\<rparr>) = (Inr c, sb\<lparr>socket := u\<rparr>)"
    "live u" "sent u = sent s" "avail u = rest"
    by (rule asio_read_live [OF assms(1), of "sb\<lparr>socket := s\<rparr>" c rest "length c"]) (use s in auto)
  with that s deserialize_frame(2) [OF assms(4)] show ?thesis
    by (simp add: receive_def bindE_step ret_def)
qed

lemma receiveToBuffer_readHeader:
  "receiveToBuffer ops = bindE (readHeader ops) (\<lambda>header.
     bindE (asio_read ops (unat (message_size header))) (\<lambda>bytes.
     seqE (modify (\<lambda>sb. sb\<lparr>data_buffer := overwrite (data_buffer sb) bytes\<rparr>))
          (gets (\<lambda>sb. \<lparr>msg_type = hdr_type header,
                       content = take (unat (message_size header)) (data_buffer sb)\<rparr>))))"
  by (rule ext) (auto simp: receiveToBuffer_def readHeader_def bindE_def split: prod.splits sum.splits)

lemma receiveToBuffer_live:
  assumes "stream_contract ops sent avail live" and "live (socket sb)"
    and "avail (socket sb) = frame t c @ rest" and "length c \<le> BUFFER_SIZE"
  obtains s where "receiveToBuffer ops sb = (Inr \<lparr>msg_type = t, content = c\<rparr>,
      sb\<lparr>socket := s, data_buffer := overwrite (data_buffer sb) c\<rparr>)"
    "live s" "sent s = sent (socket sb)" "avail s = rest"
proof -
  obtain s where s: "readHeader ops sb
      = (Inr \<lparr>message_size = of_nat (length c), hdr_type = t\<rparr>, sb\<lparr>socket := s\<rparr>)"
    "live s" "sent s = sent (socket sb)" "avail s = c @ rest"
    by (rule readHeader_live [OF assms])
  obtain u where u: "asio_read ops (length c) (sb\<lparr>socket := s\<rparr>) = (Inr c, sb\<lparr>socket := u\<rparr>)"
    "live u" "sent u = sent s" "avail u = rest"
    by (rule asio_read_live [OF assms(1), of "sb\<lparr>socket := s\<rparr>" c rest "length c"]) (use s in auto)
  with s u deserialize_frame(2) [OF assms(4)]
  have "receiveToBuffer ops sb = (Inr \<lparr>msg_type = t, content = c\<rparr>,
      sb\<lparr>socket := u, data_buffer := overwrite (data_buffer sb) c\<rparr>)"
    by (simp add: receiveToBuffer_readHeader bindE_step seqE_step modify_def gets_def)
  with u s that show ?thesis
    by metis
qed

text \<open>A peer that receives a number of messages.\<close>

fun receive_messages :: "'s asio \<Rightarrow> nat \<Rightarrow> (exn, ('s, 'h) SocketBase, Message list) eff" where
  "receive_messages ops 0 = ret []"
| "receive_messages ops (Suc n) =
     bindE (receive ops) (\<lambda>m. bindE (receive_messages ops n) (\<lambda>ms. ret (m # ms)))"

lemma receive_messages_live:
  assumes "stream_contract ops sent avail live" and "live (socket sb)"
    and "avail (socket sb) = concat (map (frame t) cs) @ rest"
    and "\<forall>c \<in> set cs. length c \<le> BUFFER_SIZE"
  shows "\<exists>s. receive_messages ops (length cs) sb
      = (Inr (map (\<lambda>c. \<lparr>msg_type = t, content = c\<rparr>) cs), sb\<lparr>socket := s\<rparr>)
    \<and> live s \<and> avail s = rest"
  using assms(2-4)
proof (induction cs arbitrary: sb)
  case Nil
  then show ?case
    by (auto simp: ret_def intro: exI [of _ "socket sb"])
next
  case (Cons c cs)
  obtain s where s: "receive ops sb = (Inr \<lparr>msg_type = t, content = c\<rparr>, sb\<lparr>socket := s\<rparr>)"
    "live s" "avail s = concat (map (frame t) cs) @ rest"
    by (rule receive_live [OF assms(1) Cons.prems(1), of t c "concat (map (frame t) cs) @ rest"])
      (use Cons.prems in auto)
  with Cons.IH [of "sb\<lparr>socket := s\<rparr>"] Cons.prems(3) show ?case
    by (auto simp: bindE_step ret_def)
qed

text \<open>
  C13. Delivery. On a connection in working order every message can be sent, whatever its
  size, and the bytes that this adds to the stream are, for any peer that finds them next on
  its own working stream, one message per chunk: receiving them gives messages of the same
  type whose contents make up the content, and leaves exactly what follows.
\<close>

theorem message_delivery:
  fixes a :: "('s, 'h) SocketBase"
  assumes "stream_contract ops sent avail live" and "live (socket a)"
  shows "\<exists>w a'. send ops m a = (Inr (), a') \<and> live (socket a')
    \<and> sent (socket a') = sent (socket a) @ w
    \<and> (\<forall>(b :: ('s, 'h) SocketBase) rest. live (socket b) \<and> avail (socket b) = w @ rest \<longrightarrow>
         (\<exists>ms b'. receive_messages ops (length (chunks BUFFER_SIZE (content m))) b = (Inr ms, b')
            \<and> (\<forall>x \<in> set ms. msg_type x = msg_type m) \<and> concat (map content ms) = content m
            \<and> live (socket b') \<and> avail (socket b') = rest))"
proof -
  obtain t where t: "send ops m a = (Inr (), a\<lparr>socket := t\<rparr>)" "live t"
    "sent t = sent (socket a) @ concat (frames m)"
    by (rule send_live [OF assms])
  let ?cs = "chunks BUFFER_SIZE (content m)"
  let ?ms = "map (\<lambda>c. \<lparr>msg_type = msg_type m, content = c\<rparr> :: Message) ?cs"
  have ms: "(\<forall>x \<in> set ?ms. msg_type x = msg_type m) \<and> concat (map content ?ms) = content m"
    by (simp add: comp_def)
  have "\<exists>ms b'. receive_messages ops (length ?cs) b = (Inr ms, b')
      \<and> (\<forall>x \<in> set ms. msg_type x = msg_type m) \<and> concat (map content ms) = content m
      \<and> live (socket b') \<and> avail (socket b') = rest"
    if b: "live (socket b)" and next_bytes: "avail (socket b) = concat (frames m) @ rest"
    for b :: "('s, 'h) SocketBase" and rest
  proof -
    have "\<forall>c \<in> set ?cs. length c \<le> BUFFER_SIZE"
      using chunks_bounded [OF BUFFER_SIZE_pos] by blast
    then obtain s where "receive_messages ops (length ?cs) b = (Inr ?ms, b\<lparr>socket := s\<rparr>)"
      "live s" "avail s = rest"
      using receive_messages_live [OF assms(1) b, of "msg_type m" ?cs rest] next_bytes
      unfolding frames_def by blast
    with ms show ?thesis
      by (intro exI [of _ ?ms] exI [of _ "b\<lparr>socket := s\<rparr>"]) simp
  qed
  with t show ?thesis
    by (intro exI [of _ "concat (frames m)"] exI [of _ "a\<lparr>socket := t\<rparr>"]) auto
qed

text \<open>An endpoint with an empty in-memory stream.\<close>

definition idle_pipe :: "(pipe, nat) SocketBase" where
  "idle_pipe = \<lparr>socket = \<lparr>incoming = [], outgoing = [], opened = True\<rparr>, data_buffer = [],
     reads = [], writes = []\<rparr>"

lemma message_delivery_witness:
  "stream_contract pipe_ops outgoing incoming opened \<and> opened (socket idle_pipe)
   \<and> fst (send pipe_ops \<lparr>msg_type = ID, content = [1, 2]\<rparr> idle_pipe) = Inr ()"
proof -
  have "opened (socket idle_pipe)"
    by (simp add: idle_pipe_def)
  with message_delivery [OF pipe_contract this, of "\<lparr>msg_type = ID, content = [1, 2]\<rparr>"] pipe_contract
  show ?thesis
    by (auto simp: prod_eq_iff)
qed

text \<open>
  A message that fits the buffer is received as it was sent, by both forms of receive:
  from a working stream that starts with its frame the message comes back with its type and
  content and the stream is left after it; \<open>receiveToBuffer\<close> also leaves the content at the
  start of \<open>getBuffer\<close>, where the returned view points.
\<close>

theorem receive_roundtrip:
  assumes "stream_contract ops sent avail live" and "live (socket sb)"
    and "avail (socket sb) = frame t c @ rest" and "length c \<le> BUFFER_SIZE"
  shows "fst (receive ops sb) = Inr \<lparr>msg_type = t, content = c\<rparr>
    \<and> avail (socket (snd (receive ops sb))) = rest
    \<and> fst (receiveToBuffer ops sb) = Inr \<lparr>msg_type = t, content = c\<rparr>
    \<and> avail (socket (snd (receiveToBuffer ops sb))) = rest
    \<and> take (length c) (getBuffer (snd (receiveToBuffer ops sb))) = c"
proof -
  obtain s where "receive ops sb = (Inr \<lparr>msg_type = t, content = c\<rparr>, sb\<lparr>socket := s\<rparr>)"
    "avail s = rest"
    by (rule receive_live [OF assms])
  moreover obtain u where "receiveToBuffer ops sb = (Inr \<lparr>msg_type = t, content = c\<rparr>,
      sb\<lparr>socket := u, data_buffer := overwrite (data_buffer sb) c\<rparr>)" "avail u = rest"
    by (rule receiveToBuffer_live [OF assms])
  ultimately show ?thesis
    using assms(4) by (simp add: getBuffer_def min_def)
qed

text \<open>An endpoint that finds one \<open>ID\<close> message on its stream.\<close>

definition pipe_with_id :: "(pipe, nat) SocketBase" where
  "pipe_with_id = idle_pipe\<lparr>socket := \<lparr>incoming = frame ID [1, 2] @ [5], outgoing = [], opened = True\<rparr>\<rparr>"

lemma receive_roundtrip_witness:
  "fst (receive pipe_ops pipe_with_id) = Inr \<lparr>msg_type = ID, content = [1, 2]\<rparr>
   \<and> incoming (socket (snd (receive pipe_ops pipe_with_id))) = [5]"
proof -
  have "opened (socket pipe_with_id)" "incoming (socket pipe_with_id) = frame ID [1, 2] @ [5]"
    "length ([1, 2] :: cstring) \<le> BUFFER_SIZE"
    by (simp_all add: pipe_with_id_def BUFFER_SIZE_def)
  from receive_roundtrip [OF pipe_contract this] show ?thesis
    by blast
qed

section \<open>Failing writes\<close>

lemma asio_write_cases:
  assumes "prefix_writes ops sent"
  obtains (complete) "fst (asio_write ops bs sb) = Inr ()"
      "sent (socket (snd (asio_write ops bs sb))) = sent (socket sb) @ bs"
  | (failed) ec k where "fst (asio_write ops bs sb) = Inl (SystemError ec)"
      "sent (socket (snd (asio_write ops bs sb))) = sent (socket sb) @ take k bs"
proof -
  obtain ec t where w: "op_write ops bs (socket sb) = (ec, t)"
    by fastforce
  from assms obtain k where "sent (snd (op_write ops bs (socket sb))) = sent (socket sb) @ take k bs"
    "fst (op_write ops bs (socket sb)) = None \<longrightarrow> length bs \<le> k"
    unfolding prefix_writes_def by blast
  with w that show thesis
    by (cases ec) (auto simp: asio_write_def eff)
qed

lemma write_frames_prefix:
  assumes "prefix_writes ops sent"
  shows "\<exists>k. sent (socket (snd (write_frames ops fs sb))) = sent (socket sb) @ take k (concat fs)
    \<and> (fst (write_frames ops fs sb) = Inr () \<longrightarrow> length (concat fs) \<le> k)
    \<and> (fst (write_frames ops fs sb) = Inr () \<or> (\<exists>ec. fst (write_frames ops fs sb) = Inl (SystemError ec)))"
proof (induction fs arbitrary: sb)
  case Nil
  then show ?case
    by (simp add: ret_def)
next
  case (Cons f fs)
  obtain r sb' where w: "asio_write ops f sb = (r, sb')"
    by fastforce
  from assms show ?case
  proof (cases rule: asio_write_cases [where bs = f and sb = sb])
    case complete
    with w have w': "asio_write ops f sb = (Inr (), sb')"
      by simp
    obtain k where "sent (socket (snd (write_frames ops fs sb'))) = sent (socket sb') @ take k (concat fs)"
      "fst (write_frames ops fs sb') = Inr () \<longrightarrow> length (concat fs) \<le> k"
      "fst (write_frames ops fs sb') = Inr () \<or> (\<exists>ec. fst (write_frames ops fs sb') = Inl (SystemError ec))"
      using Cons.IH by blast
    with w w' complete show ?thesis
      by (intro exI [of _ "length f + k"]) (simp add: seqE_step)
  next
    case (failed ec k)
    with w have "asio_write ops f sb = (Inl (SystemError ec), sb')"
      by simp
    then have "write_frames ops (f # fs) sb = (Inl (SystemError ec), sb')"
      by (simp add: seqE_step)
    moreover have "sent (socket sb') = sent (socket sb) @ take (min k (length f)) (concat (f # fs))"
      using w failed(2) by (simp add: min_def)
    ultimately show ?thesis
      by (metis fst_conv snd_conv old.sum.distinct(2))
  qed
qed

text \<open>
  A send that fails never corrupts the stream beyond cutting it short: whatever happens,
  the bytes sent are a prefix of the message's frames, all of them when \<open>send\<close> returns, and
  the only exception is the stream's own \<open>system_error\<close>.
\<close>

theorem send_sends_prefix:
  assumes "prefix_writes ops sent"
  shows "\<exists>k. sent (socket (snd (send ops m sb))) = sent (socket sb) @ take k (concat (frames m))
    \<and> (fst (send ops m sb) = Inr () \<longrightarrow> length (concat (frames m)) \<le> k)
    \<and> (fst (send ops m sb) = Inr () \<or> (\<exists>ec. fst (send ops m sb) = Inl (SystemError ec)))"
  using write_frames_prefix [OF assms] by (simp add: send_frames)

lemma send_sends_prefix_witness:
  "prefix_writes pipe_ops outgoing
   \<and> (\<exists>k. outgoing (socket (snd (send pipe_ops \<lparr>msg_type = ACK, content = []\<rparr> idle_pipe))) =
          take k (concat (frames \<lparr>msg_type = ACK, content = []\<rparr>)))"
  using send_sends_prefix [OF pipe_prefix_writes, of "\<lparr>msg_type = ACK, content = []\<rparr>" idle_pipe]
    pipe_prefix_writes by (auto simp: idle_pipe_def)

text \<open>Exceptions of the operations that only write and close.\<close>

lemma asio_write_error: "asio_write ops bs sb = (Inl e, sb') \<Longrightarrow> \<exists>ec. e = SystemError ec"
  by (auto simp: asio_write_def eff split: prod.splits option.splits)

lemma write_frames_error: "write_frames ops fs sb = (Inl e, sb') \<Longrightarrow> \<exists>ec. e = SystemError ec"
  by (induction fs arbitrary: sb)
    (auto simp: ret_def seqE_def bindE_Inl_iff dest: asio_write_error)

lemma send_error: "send ops m sb = (Inl e, sb') \<Longrightarrow> \<exists>ec. e = SystemError ec"
  by (simp add: send_frames write_frames_error)

lemma disconnect_error: "disconnect ops d sb = (Inl e, sb') \<Longrightarrow> \<exists>ec. e = SystemError ec"
  by (auto simp: disconnect_def seqE_def bindE_Inl_iff ret_def zoom_def or_throw_def
      split: option.splits prod.splits dest: send_error)

section \<open>Ending a connection\<close>

lemma safeDisconnect_result: "fst (safeDisconnect ops d sb) = Inr ()"
proof (cases "disconnect ops d sb")
  case (Pair r sb')
  then show ?thesis
    by (cases r) (auto simp: safeDisconnect_def catchE_def ret_def dest: disconnect_error)
qed

lemma safeDisconnect_state: "snd (safeDisconnect ops d sb) = snd (disconnect ops d sb)"
proof (cases "disconnect ops d sb")
  case (Pair r sb')
  then show ?thesis
    by (cases r) (auto simp: safeDisconnect_def catchE_def ret_def dest: disconnect_error)
qed

text \<open>The bytes of a goodbye.\<close>

definition goodbye :: "cstring option \<Rightarrow> byte list" where
  "goodbye d = (case d of None \<Rightarrow> [] | Some reason \<Rightarrow> concat (frames \<lparr>msg_type = DISCONNECT, content = reason\<rparr>))"

lemma disconnect_live:
  assumes "stream_contract ops sent avail live" and "live (socket sb)"
    and shutdown_ok: "\<And>s. live s \<Longrightarrow> \<exists>t. op_shutdown ops s = (None, t) \<and> sent t = sent s"
    and close_ok: "\<And>s. \<exists>t. op_close ops s = (None, t) \<and> sent t = sent s \<and> \<not> op_is_open ops t"
  obtains v where "disconnect ops d sb = (Inr (), sb\<lparr>socket := v\<rparr>)"
    "sent v = sent (socket sb) @ goodbye d" "\<not> op_is_open ops v"
proof -
  have "\<exists>t. (case d of None \<Rightarrow> ret () | Some msg \<Rightarrow> send ops \<lparr>msg_type = DISCONNECT, content = msg\<rparr>) sb
      = (Inr (), sb\<lparr>socket := t\<rparr>) \<and> live t \<and> sent t = sent (socket sb) @ goodbye d"
  proof (cases d)
    case None
    then show ?thesis
      using assms(2) by (intro exI [of _ "socket sb"]) (simp add: ret_def goodbye_def)
  next
    case (Some msg)
    obtain t where "send ops \<lparr>msg_type = DISCONNECT, content = msg\<rparr> sb = (Inr (), sb\<lparr>socket := t\<rparr>)"
      "live t" "sent t = sent (socket sb) @ concat (frames \<lparr>msg_type = DISCONNECT, content = msg\<rparr>)"
      by (rule send_live [OF assms(1,2)])
    with Some show ?thesis
      by (auto simp: goodbye_def)
  qed
  then obtain t where t: "(case d of None \<Rightarrow> ret () | Some msg \<Rightarrow> send ops \<lparr>msg_type = DISCONNECT, content = msg\<rparr>) sb
      = (Inr (), sb\<lparr>socket := t\<rparr>)" "live t" "sent t = sent (socket sb) @ goodbye d"
    by blast
  obtain u where u: "op_shutdown ops t = (None, u)" "sent u = sent t"
    using shutdown_ok [OF t(2)] by blast
  obtain v where v: "op_close ops u = (None, v)" "sent v = sent u" "\<not> op_is_open ops v"
    using close_ok [of u] by blast
  have "disconnect ops d sb = (Inr (), sb\<lparr>socket := v\<rparr>)"
    using t u v by (simp add: disconnect_def seqE_step eff)
  with t u v that show ?thesis
    by simp
qed

text \<open>
  \<open>safeDisconnect\<close> never throws, and on a working connection whose shutdown and close
  succeed it says goodbye and closes: the peer gets the frames of a \<open>DISCONNECT\<close> message
  with the reason (nothing when there is none) and the socket is no longer open.
\<close>

theorem safeDisconnect_closes:
  assumes "stream_contract ops sent avail live" and "live (socket sb)"
    and shutdown_ok: "\<And>s. live s \<Longrightarrow> \<exists>t. op_shutdown ops s = (None, t) \<and> sent t = sent s"
    and close_ok: "\<And>s. \<exists>t. op_close ops s = (None, t) \<and> sent t = sent s \<and> \<not> op_is_open ops t"
  shows "fst (safeDisconnect ops d sb) = Inr ()
    \<and> \<not> isOpen ops (snd (safeDisconnect ops d sb))
    \<and> sent (socket (snd (safeDisconnect ops d sb))) = sent (socket sb) @
        (case d of None \<Rightarrow> [] | Some reason \<Rightarrow> concat (frames \<lparr>msg_type = DISCONNECT, content = reason\<rparr>))"
proof -
  obtain v where "disconnect ops d sb = (Inr (), sb\<lparr>socket := v\<rparr>)"
    "sent v = sent (socket sb) @ goodbye d" "\<not> op_is_open ops v"
    by (rule disconnect_live [OF assms])
  then show ?thesis
    by (simp add: safeDisconnect_result safeDisconnect_state isOpen_def goodbye_def)
qed

lemma safeDisconnect_closes_witness:
  "fst (safeDisconnect pipe_ops (Some [66]) idle_pipe) = Inr ()
   \<and> \<not> isOpen pipe_ops (snd (safeDisconnect pipe_ops (Some [66]) idle_pipe))"
proof -
  have "opened (socket idle_pipe)"
    by (simp add: idle_pipe_def)
  from safeDisconnect_closes [OF pipe_contract this, of "Some [66]"] show ?thesis
    by simp
qed

text \<open>
  When the goodbye cannot be written, the socket is neither shut down nor closed: the
  exception of the failing write skips both calls and \<open>safeDisconnect\<close> only logs it, so the
  stream is left as the write left it.
\<close>

theorem failed_goodbye_skips_close:
  assumes "op_write ops (hd (frames \<lparr>msg_type = DISCONNECT, content = reason\<rparr>)) (socket sb) = (Some ec, t)"
  shows "safeDisconnect ops (Some reason) sb = (Inr (), sb\<lparr>socket := t\<rparr>)"
proof -
  let ?fs = "frames \<lparr>msg_type = DISCONNECT, content = reason\<rparr>"
  obtain f fs where fs: "?fs = f # fs"
    by (cases ?fs) (auto simp: frames_def)
  with assms have "send ops \<lparr>msg_type = DISCONNECT, content = reason\<rparr> sb = (Inl (SystemError ec), sb\<lparr>socket := t\<rparr>)"
    by (simp add: send_frames seqE_def bindE_def asio_write_def eff)
  then have "disconnect ops (Some reason) sb = (Inl (SystemError ec), sb\<lparr>socket := t\<rparr>)"
    by (simp add: disconnect_def seqE_step)
  then show ?thesis
    by (simp add: safeDisconnect_def catchE_step ret_def)
qed

text \<open>A stream all of whose writes fail although it is open.\<close>

definition broken_ops :: "pipe asio" where
  "broken_ops = pipe_ops\<lparr>op_write := \<lambda>bs s. (Some 32, s)\<rparr>"

lemma failed_goodbye_skips_close_witness:
  "isOpen broken_ops (snd (safeDisconnect broken_ops (Some [66]) idle_pipe))"
proof -
  have "op_write broken_ops (hd (frames \<lparr>msg_type = DISCONNECT, content = [66]\<rparr>)) (socket idle_pipe)
      = (Some 32, socket idle_pipe)"
    by (simp add: broken_ops_def)
  from failed_goodbye_skips_close [OF this] show ?thesis
    by (simp add: isOpen_def idle_pipe_def broken_ops_def)
qed

end
