(* ===== verification/Receiving.thy ===== *)
theory Receiving
  imports Transport
begin

text \<open>
  The receiving side of \<open>SocketBase\<close>: the receive buffer is never overrun, the limits on
  message sizes are enforced before a content is read, and what becomes of a header that is
  refused.
\<close>

section \<open>Operations that only touch the stream\<close>

definition only_stream :: "(exn, ('s, 'h) SocketBase, 'a) eff \<Rightarrow> bool" where
  "only_stream m \<longleftrightarrow> (\<forall>sb. \<exists>t. snd (m sb) = sb\<lparr>socket := t\<rparr>)"

named_theorems stream_only "operations that only touch the stream"

lemma only_streamD: "only_stream m \<Longrightarrow> \<exists>t. snd (m sb) = sb\<lparr>socket := t\<rparr>"
  by (simp add: only_stream_def)

lemma only_stream_on_stream [stream_only]: "only_stream (on_stream m)"
  by (auto simp: only_stream_def zoom_def split: prod.splits)

lemma only_stream_bindE [stream_only]:
  assumes "only_stream m" and "\<And>a. only_stream (f a)"
  shows "only_stream (bindE m f)"
  unfolding only_stream_def
proof
  fix sb
  obtain r u where m: "m sb = (r, u)"
    by fastforce
  obtain t where t: "u = sb\<lparr>socket := t\<rparr>"
    using only_streamD [OF assms(1), of sb] m by auto
  show "\<exists>t. snd (bindE m f sb) = sb\<lparr>socket := t\<rparr>"
  proof (cases r)
    case (Inl e)
    with m t show ?thesis
      by (auto simp: bindE_step)
  next
    case (Inr a)
    obtain v where "snd (f a u) = u\<lparr>socket := v\<rparr>"
      using only_streamD [OF assms(2)] by blast
    with m t Inr show ?thesis
      by (auto simp: bindE_step)
  qed
qed

lemma only_stream_seqE [stream_only]:
  "only_stream m \<Longrightarrow> only_stream k \<Longrightarrow> only_stream (seqE m k)"
  by (simp add: seqE_def only_stream_bindE)

lemma socket_update_self: "\<exists>t. sb = sb\<lparr>socket := t\<rparr>"
  by (rule exI [of _ "socket sb"]) simp

lemma only_stream_unchanged [stream_only]:
  "only_stream (ret a)" "only_stream (throw e)" "only_stream (lift_sum r)"
  by (simp_all only: only_stream_def ret_def throw_def lift_sum_def snd_conv socket_update_self simp_thms)

lemma only_stream_asio [stream_only]:
  "only_stream (asio_write ops bs)" "only_stream (asio_read ops n)"
  unfolding asio_write_def asio_read_def by (rule stream_only)+

lemma only_stream_send [stream_only]: "only_stream (send ops m)"
proof -
  have "only_stream (write_frames ops fs)" for fs
    by (induction fs) (auto intro: stream_only)
  then show ?thesis
    by (simp add: send_frames)
qed

lemma only_stream_disconnect [stream_only]: "only_stream (disconnect ops d)"
  unfolding disconnect_def by (auto intro!: stream_only split: option.splits)

lemma only_stream_safeDisconnect [stream_only]: "only_stream (safeDisconnect ops d)"
  using only_stream_disconnect [of ops d] by (simp only: only_stream_def safeDisconnect_state)

lemma only_stream_readHeader [stream_only]: "only_stream (readHeader ops)"
  unfolding readHeader_def by (intro stream_only)

lemma only_stream_receive [stream_only]: "only_stream (receive ops)"
  unfolding receive_def by (intro stream_only)

lemma only_stream_acks [stream_only]: "only_stream (sendACK ops)" "only_stream (sendNACK ops)"
  by (simp_all add: sendACK_def sendNACK_def stream_only)

section \<open>The buffer\<close>

definition buffer_ok :: "('s, 'h) SocketBase \<Rightarrow> bool" where
  "buffer_ok sb \<longleftrightarrow> length (data_buffer sb) = BUFFER_SIZE"

lemma buffer_ok_new [simp]: "buffer_ok (new_SocketBase s)"
  by (simp add: buffer_ok_def new_SocketBase_def)

lemma keeps_buffer_ok_stream: "only_stream m \<Longrightarrow> keeps buffer_ok m"
proof (rule keepsI)
  fix sb :: "('a, 'b) SocketBase"
  assume m: "only_stream m" and "buffer_ok sb"
  moreover obtain t where "snd (m sb) = sb\<lparr>socket := t\<rparr>"
    using only_streamD [OF m] by blast
  ultimately show "buffer_ok (snd (m sb))"
    by (simp add: buffer_ok_def)
qed

lemma asio_read_exact:
  "exact_reads ops \<Longrightarrow> asio_read ops n sb = (Inr bs, sb') \<Longrightarrow> length bs = n"
  by (auto simp: asio_read_def zoom_def exact_reads_def split: prod.splits sum.splits)

lemma deserialize_BUFFER_SIZE:
  "deserialize buf n BUFFER_SIZE_t = Inr h \<Longrightarrow> unat (message_size h) \<le> BUFFER_SIZE"
  using deserialize_bounded [of buf n BUFFER_SIZE_t h] by (simp add: word_le_nat_alt)

lemma receiveToBuffer_cases:
  assumes "exact_reads ops" and "buffer_ok sb"
  obtains (failed) e t where "receiveToBuffer ops sb = (Inl e, sb\<lparr>socket := t\<rparr>)"
  | (received) m t where "receiveToBuffer ops sb
        = (Inr m, sb\<lparr>socket := t, data_buffer := overwrite (data_buffer sb) (content m)\<rparr>)"
      "length (content m) \<le> BUFFER_SIZE"
proof -
  obtain r u where h: "readHeader ops sb = (r, u)"
    by fastforce
  obtain t where t: "u = sb\<lparr>socket := t\<rparr>"
    using only_streamD [OF only_stream_readHeader, of ops sb] h by auto
  show thesis
  proof (cases r)
    case (Inl e)
    with h t failed show ?thesis
      by (simp add: receiveToBuffer_readHeader bindE_step)
  next
    case (Inr hr)
    then have "unat (message_size hr) \<le> BUFFER_SIZE"
      using h by (auto simp: readHeader_def bindE_Inr_iff lift_sum_def dest: deserialize_BUFFER_SIZE)
    obtain r' u' where c: "asio_read ops (unat (message_size hr)) u = (r', u')"
      by fastforce
    obtain t' where t': "u' = sb\<lparr>socket := t'\<rparr>"
      using only_streamD [OF only_stream_asio(2), of ops "unat (message_size hr)" u] c t by auto
    show ?thesis
    proof (cases r')
      case (Inl e)
      with h Inr c t' failed show ?thesis
        by (simp add: receiveToBuffer_readHeader bindE_step)
    next
      case (Inr bs)
      then have "length bs = unat (message_size hr)"
        using asio_read_exact [OF assms(1)] c by blast
      with h \<open>r = Inr hr\<close> Inr c t' \<open>unat (message_size hr) \<le> BUFFER_SIZE\<close> show ?thesis
        by (intro received [of "\<lparr>msg_type = hdr_type hr, content = bs\<rparr>" t'])
          (simp_all add: receiveToBuffer_readHeader bindE_step seqE_step modify_def gets_def)
    qed
  qed
qed

lemma keeps_buffer_ok_receiveToBuffer:
  fixes ops :: "'s asio"
  assumes "exact_reads ops"
  shows "keeps buffer_ok (receiveToBuffer ops :: (exn, ('s, 'h) SocketBase, Message) eff)"
proof (rule keepsI)
  fix sb :: "('s, 'h) SocketBase"
  assume ok: "buffer_ok sb"
  from assms ok show "buffer_ok (snd (receiveToBuffer ops sb))"
    by (cases rule: receiveToBuffer_cases) (use ok in \<open>auto simp: buffer_ok_def\<close>)
qed

text \<open>
  C18. The receive buffer is never overrun, whatever the peer sends: \<open>receiveToBuffer\<close> keeps
  its size, and a message it returns is at most \<open>BUFFER_SIZE\<close> long and is the contents of the
  start of the buffer.
\<close>

theorem receive_buffer_safe:
  assumes "exact_reads ops" and "length (data_buffer sb) = BUFFER_SIZE"
  shows "length (data_buffer (snd (receiveToBuffer ops sb))) = BUFFER_SIZE
    \<and> (\<forall>m. fst (receiveToBuffer ops sb) = Inr m \<longrightarrow>
         length (content m) \<le> BUFFER_SIZE
         \<and> content m = take (length (content m)) (getBuffer (snd (receiveToBuffer ops sb))))"
proof -
  have ok: "buffer_ok sb"
    using assms(2) by (simp add: buffer_ok_def)
  from assms(1) ok show ?thesis
    by (cases rule: receiveToBuffer_cases)
      (use assms(2) in \<open>auto simp: getBuffer_def min_def\<close>)
qed

lemma receive_buffer_safe_witness:
  "length (data_buffer (snd (receiveToBuffer pipe_ops
     (new_SocketBase \<lparr>incoming = replicate 9 255, outgoing = [], opened = True\<rparr> :: (pipe, nat) SocketBase))))
   = BUFFER_SIZE"
  using receive_buffer_safe [OF pipe_exact_reads,
      of "new_SocketBase \<lparr>incoming = replicate 9 255, outgoing = [], opened = True\<rparr> :: (pipe, nat) SocketBase"]
  by (simp add: new_SocketBase_def)

section \<open>Acknowledgements\<close>

text \<open>
  \<open>receiveACK\<close> on a working stream that starts with a message: it returns exactly when
  the message is an \<open>ACK\<close>; any other message is consumed and reported with its type, its
  size and, when it is shorter than 100 bytes, its content.
\<close>

theorem receiveACK_outcome:
  assumes "stream_contract ops sent avail live" and "live (socket sb)"
    and "avail (socket sb) = frame t c @ rest" and "length c \<le> BUFFER_SIZE"
  shows "fst (receiveACK ops sb) =
      (if t = ACK then Inr ()
       else Inl (SocketException (NoACK (type_name t) (length c)
                   (if length c < 100 then c else str ''Too large to print.''))))
    \<and> avail (socket (snd (receiveACK ops sb))) = rest"
proof -
  obtain s where "receiveToBuffer ops sb = (Inr \<lparr>msg_type = t, content = c\<rparr>,
      sb\<lparr>socket := s, data_buffer := overwrite (data_buffer sb) c\<rparr>)" "avail s = rest"
    by (rule receiveToBuffer_live [OF assms])
  then show ?thesis
    by (simp add: receiveACK_def bindE_step lift_sum_def throw_def ret_def MAX_PRINTABLE_STR_LENGTH_def)
qed

lemma receiveACK_outcome_witness:
  "fst (receiveACK pipe_ops pipe_with_id) = Inl (SocketException (NoACK (type_name ID) 2 [1, 2]))"
proof -
  have "opened (socket pipe_with_id)" "incoming (socket pipe_with_id) = frame ID [1, 2] @ [5]"
    "length ([1, 2] :: cstring) \<le> BUFFER_SIZE"
    by (simp_all add: pipe_with_id_def BUFFER_SIZE_def)
  from receiveACK_outcome [OF pipe_contract this] show ?thesis
    by simp
qed

section \<open>Asynchronous reading\<close>

lemma deserialize_prefix:
  assumes "sizeof_MessageHeader \<le> length bytes"
  shows "deserialize (overwrite buf bytes) n mx = deserialize bytes n mx"
proof -
  have "take 8 (overwrite buf bytes) = take 8 bytes" and "overwrite buf bytes ! 8 = bytes ! 8"
    using assms by (simp_all add: sizeof_MessageHeader_def overwrite_def nth_append)
  then show ?thesis
    by (simp only: deserialize_def)
qed

text \<open>
  A read can only be scheduled with a limit the buffer can hold: \<open>asyncReadMessage\<close> with
  a greater limit throws and schedules nothing, otherwise it schedules one header.
\<close>

theorem asyncReadMessage_limit:
  "asyncReadMessage h mx sb =
     (if mx \<le> BUFFER_SIZE_t then (Inr (), sb\<lparr>reads := reads sb @ [HeaderRead h mx]\<rparr>)
      else (Inl (SocketException (ReadTooBig (unat mx) BUFFER_SIZE)), sb))"
  by (auto simp: asyncReadMessage_def asyncReadHeader_def throw_def modify_def)

lemma accepted_header_step:
  assumes "length bytes = sizeof_MessageHeader" and "deserialize bytes (length bytes) mx = Inr hr"
  shows "asyncReadHeader_handler L ops h mx None bytes sb =
    (Inr (), sb\<lparr>data_buffer := overwrite (data_buffer sb) bytes, reads := reads sb @ [BodyRead h hr]\<rparr>)"
  using assms
  by (simp add: asyncReadHeader_handler_def seqE_step modify_def catchE_def bindE_def gets_def
    lift_sum_def deserialize_prefix)

lemma refused_header_step:
  assumes "length bytes = sizeof_MessageHeader" and "deserialize bytes (length bytes) mx = Inl e"
  shows "asyncReadHeader_handler L ops h mx None bytes sb =
    safeDisconnect ops (Some (what L e)) (sb\<lparr>data_buffer := overwrite (data_buffer sb) bytes\<rparr>)"
  using assms deserialize_error [OF assms(2)]
  by (simp add: asyncReadHeader_handler_def seqE_step modify_def catchE_def bindE_def gets_def
    lift_sum_def deserialize_prefix)

text \<open>What the completion of the read of a header leaves of an object.\<close>

lemma header_handler_result:
  fixes sb :: "('s, 'h) SocketBase"
  assumes "ec = None \<Longrightarrow> length bytes = sizeof_MessageHeader"
  obtains t rr where
    "snd (asyncReadHeader_handler L ops h mx ec bytes sb) =
       sb\<lparr>data_buffer := overwrite (data_buffer sb) bytes, socket := t, reads := reads sb @ rr\<rparr>"
    "rr = [] \<or> (\<exists>hr. rr = [BodyRead h hr] \<and> message_size hr \<le> mx)"
proof (cases ec)
  case (Some e)
  then show ?thesis
    by (intro that [where t = "socket sb" and rr = "[]"]) (simp_all add: asyncReadHeader_handler_def seqE_step modify_def ret_def)
next
  case None
  then have len: "length bytes = sizeof_MessageHeader"
    by (rule assms)
  show ?thesis
  proof (cases "deserialize bytes (length bytes) mx")
    case (Inl e)
    obtain t where "snd (safeDisconnect ops (Some (what L e)) (sb\<lparr>data_buffer := overwrite (data_buffer sb) bytes\<rparr>))
        = sb\<lparr>data_buffer := overwrite (data_buffer sb) bytes, socket := t\<rparr>"
      using only_streamD [OF only_stream_safeDisconnect, of ops "Some (what L e)"
          "sb\<lparr>data_buffer := overwrite (data_buffer sb) bytes\<rparr>"] by auto
    with None Inl len show ?thesis
      by (intro that [where t = t and rr = "[]"]) (simp_all add: refused_header_step)
  next
    case (Inr hr)
    with None len deserialize_bounded [OF Inr] show ?thesis
      by (intro that [where t = "socket sb" and rr = "[BodyRead h hr]"]) (simp_all add: accepted_header_step)
  qed
qed

text \<open>
  C19. The fate of a header. When its nine bytes arrive, the handler never throws; the content
  is scheduled for reading exactly when the bytes are those of a header whose size is within
  the limit of the read, and then for that header; in every other case nothing is scheduled
  and the connection is ended with the reason the deserialisation gave.
\<close>

theorem header_read_outcome:
  assumes "length bytes = sizeof_MessageHeader"
  shows "fst (asyncReadHeader_handler L ops h mx None bytes sb) = Inr ()
    \<and> (\<forall>hr. bytes = header_bytes hr \<and> message_size hr \<le> mx \<longrightarrow>
         snd (asyncReadHeader_handler L ops h mx None bytes sb) =
           sb\<lparr>data_buffer := overwrite (data_buffer sb) bytes, reads := reads sb @ [BodyRead h hr]\<rparr>)
    \<and> ((\<forall>hr. bytes \<noteq> header_bytes hr \<or> mx < message_size hr) \<longrightarrow>
         reads (snd (asyncReadHeader_handler L ops h mx None bytes sb)) = reads sb
         \<and> (\<exists>e. deserialize bytes sizeof_MessageHeader mx = Inl e
              \<and> asyncReadHeader_handler L ops h mx None bytes sb =
                safeDisconnect ops (Some (what L e)) (sb\<lparr>data_buffer := overwrite (data_buffer sb) bytes\<rparr>)))"
proof (cases "deserialize bytes (length bytes) mx")
  case (Inl e)
  have "\<not> (bytes = header_bytes hr \<and> message_size hr \<le> mx)" for hr
    using Inl deserialize_Inr_iff [of "length bytes" bytes mx hr] assms by auto
  moreover have "reads (snd (safeDisconnect ops d sb)) = reads sb" for d and sb :: "('a, 'b) SocketBase"
    using only_streamD [OF only_stream_safeDisconnect, of ops d sb] by auto
  ultimately show ?thesis
    using Inl assms by (auto simp: refused_header_step safeDisconnect_result)
next
  case (Inr hr)
  note step = accepted_header_step [OF assms Inr, of L ops h sb]
  have hr: "bytes = header_bytes hr" "message_size hr \<le> mx"
    using deserialize_Inr_iff [of "length bytes" bytes mx hr] assms Inr by auto
  then have not_refused: "\<not> (\<forall>hr. bytes \<noteq> header_bytes hr \<or> mx < message_size hr)"
    by (metis not_le)
  show ?thesis
  proof (intro conjI allI impI)
    show "fst (asyncReadHeader_handler L ops h mx None bytes sb) = Inr ()"
      by (simp only: step fst_conv)
    show "snd (asyncReadHeader_handler L ops h mx None bytes sb) =
        sb\<lparr>data_buffer := overwrite (data_buffer sb) bytes, reads := reads sb @ [BodyRead h hr']\<rparr>"
      if "bytes = header_bytes hr' \<and> message_size hr' \<le> mx" for hr'
    proof -
      have "hr' = hr"
        using that Inr assms deserialize_Inr_iff [of "length bytes" bytes mx hr'] by simp
      then show ?thesis
        by (simp only: step snd_conv)
    qed
  qed (erule notE [OF not_refused])+
qed

lemma header_read_outcome_witness:
  "length (replicate 9 255 :: byte list) = sizeof_MessageHeader
   \<and> fst (asyncReadHeader_handler \<lparr>fmt_unsigned = (\<lambda>n. []), ec_what = (\<lambda>e. [])\<rparr> pipe_ops 0 1000 None
            (replicate 9 255) idle_pipe) = Inr ()"
proof -
  have "length (replicate 9 255 :: byte list) = sizeof_MessageHeader"
    by (simp add: sizeof_MessageHeader_def)
  moreover from this have "fst (asyncReadHeader_handler \<lparr>fmt_unsigned = (\<lambda>n. []), ec_what = (\<lambda>e. [])\<rparr>
      pipe_ops 0 1000 None (replicate 9 255) idle_pipe) = Inr ()"
    by (rule header_read_outcome [THEN conjunct1])
  ultimately show ?thesis ..
qed

text \<open>
  \<open>asyncSendMessage\<close> does not split: it writes one frame of any size, and a peer refuses
  a frame whose content is larger than the buffer (and smaller than \<open>2 ^ 64\<close>), in either form
  of receive, as too long, without consuming the content.
\<close>

theorem oversized_async_message_refused:
  assumes "stream_contract ops sent avail live" and "live (socket sb)"
    and "avail (socket sb) = frame t c @ rest" and "BUFFER_SIZE < length c" and "length c < 2 ^ 64"
  shows "asyncSendMessage \<lparr>msg_type = t, content = c\<rparr> h a = (Inr (), a\<lparr>writes := writes a @ [(frame t c, h)]\<rparr>)
    \<and> fst (receive ops sb) = Inl (MessageHeaderException (TooLong (of_nat (length c)) BUFFER_SIZE_t))
    \<and> fst (receiveToBuffer ops sb) = Inl (MessageHeaderException (TooLong (of_nat (length c)) BUFFER_SIZE_t))
    \<and> avail (socket (snd (receive ops sb))) = c @ rest"
proof -
  let ?h = "\<lparr>message_size = of_nat (length c), hdr_type = t\<rparr> :: MessageHeader"
  have "\<not> message_size ?h \<le> BUFFER_SIZE_t"
    using assms(4,5) by (simp add: word_le_nat_alt unat_of_nat)
  then have refused: "deserialize (header_bytes ?h) sizeof_MessageHeader BUFFER_SIZE_t
      = Inl (MessageHeaderException (TooLong (of_nat (length c)) BUFFER_SIZE_t))"
    using deserialize_header_bytes [of sizeof_MessageHeader ?h "[]" BUFFER_SIZE_t] by simp
  have "avail (socket sb) = header_bytes ?h @ c @ rest"
    using assms(3) by (simp add: frame_def)
  then obtain s where s: "asio_read ops sizeof_MessageHeader sb = (Inr (header_bytes ?h), sb\<lparr>socket := s\<rparr>)"
    "avail s = c @ rest"
    by (rule asio_read_live [OF assms(1,2)]) simp
  then have "readHeader ops sb
      = (Inl (MessageHeaderException (TooLong (of_nat (length c)) BUFFER_SIZE_t)), sb\<lparr>socket := s\<rparr>)"
    using refused by (simp add: readHeader_def bindE_step lift_sum_def)
  then show ?thesis
    using s by (simp add: receive_def receiveToBuffer_readHeader bindE_step asyncSendMessage_def modify_def)
qed

text \<open>An endpoint that finds a frame one byte too long.\<close>

definition oversized :: cstring where
  "oversized = replicate (BUFFER_SIZE + 1) 0"

lemma oversized_async_message_refused_witness:
  "fst (receive pipe_ops (idle_pipe\<lparr>socket := \<lparr>incoming = frame SCREEN_UPDATE oversized @ [],
       outgoing = [], opened = True\<rparr>\<rparr>))
   = Inl (MessageHeaderException (TooLong (of_nat (length oversized)) BUFFER_SIZE_t))"
proof -
  let ?sb = "idle_pipe\<lparr>socket := \<lparr>incoming = frame SCREEN_UPDATE oversized @ [], outgoing = [], opened = True\<rparr>\<rparr>"
  have "opened (socket ?sb)" "incoming (socket ?sb) = frame SCREEN_UPDATE oversized @ []"
    by simp_all
  moreover have "BUFFER_SIZE < length oversized" "length oversized < 2 ^ 64"
    by (simp_all add: oversized_def BUFFER_SIZE_def)
  ultimately show ?thesis
    by (intro oversized_async_message_refused [OF pipe_contract, THEN conjunct2, THEN conjunct1])
qed

end
