(* ===== verification/Client_Socket.thy ===== *)
theory Client_Socket
  imports Receiving "HOL-Library.Signed_Division"
begin

text \<open>
  The client's end of a connection: \<open>include/ClientSocket.hpp\<close> and \<open>src/ClientSocket.cpp\<close>.
  The requests are the synchronous operations of \<open>SocketBase\<close> in the order the code calls
  them; name resolution, the connection and the writer of \<open>nlohmann::json\<close> are arguments.
\<close>

section \<open>State\<close>

type_synonym endpoint_address = "cstring \<times> 16 word"

record 's resolver =
  op_resolve :: "cstring \<Rightarrow> 16 word \<Rightarrow> error_code + endpoint_address list"
  op_connect :: "endpoint_address \<Rightarrow> 's \<Rightarrow> error_code option \<times> 's"

record 'j json_writer =
  json_null :: 'j
  json_assign :: "string \<Rightarrow> cstring \<Rightarrow> 'j \<Rightarrow> 'j"
  json_to_string :: "'j \<Rightarrow> cstring + cstring"

text \<open>What the constructor sets on the TLS context and on the stream.\<close>

datatype verify_mode = verify_unset | verify_peer | verify_fail_if_no_peer_cert

record tls_settings =
  default_verify_paths :: bool
  socket_verify_mode :: verify_mode
  context_verify_mode :: verify_mode
  verify_callback :: "bool \<Rightarrow> bool"      \<comment> \<open>of the preverification of OpenSSL\<close>

text \<open>
  \<open>context_thread\<close> is \<open>None\<close> when the thread is not joinable, otherwise it says whether it was
  asked to stop.
\<close>

record ('s, 'h) ClientSocket =
  socket_base :: "('s, 'h) SocketBase"
  tls :: tls_settings
  context_thread :: "bool option"
  io_context_stopped :: bool

abbreviation on_base :: "(exn, ('s, 'h) SocketBase, 'a) eff \<Rightarrow> (exn, ('s, 'h) ClientSocket, 'a) eff" where
  "on_base \<equiv> zoom socket_base (\<lambda>b c. c\<lparr>socket_base := b\<rparr>)"

section \<open>Construction\<close>

definition verify_certificate :: "bool \<Rightarrow> bool" where
  "verify_certificate preverified = preverified"

definition tls_setup :: "bool \<Rightarrow> tls_settings" where
  "tls_setup verify_cert =
     (if verify_cert
      then \<lparr>default_verify_paths = True, socket_verify_mode = verify_peer,
             context_verify_mode = verify_unset, verify_callback = verify_certificate\<rparr>
      else \<lparr>default_verify_paths = False, socket_verify_mode = verify_unset,
             context_verify_mode = verify_fail_if_no_peer_cert, verify_callback = (\<lambda>_. True)\<rparr>)"

definition connect :: "'s resolver \<Rightarrow> 's asio \<Rightarrow> cstring \<Rightarrow> 16 word \<Rightarrow> (exn, ('s, 'h) SocketBase, unit) eff" where
  "connect R ops host port =
     (case op_resolve R host port of
        Inl ec \<Rightarrow> throw (SystemError ec)
      | Inr [] \<Rightarrow> throw (ScreenViewerBaseException (NoEndpoint host (unat port)))
      | Inr (endpoint # _) \<Rightarrow>
          seqE (on_stream (or_throw SystemError (op_connect R endpoint)))
               (on_stream (or_throw SystemError (op_handshake ops))))"

definition start_context_thread :: "(exn, ('s, 'h) ClientSocket, unit) eff" where
  "start_context_thread = modify (\<lambda>c. c\<lparr>context_thread := Some False\<rparr>)"

definition new_ClientSocket ::
  "'s resolver \<Rightarrow> 's asio \<Rightarrow> 's \<Rightarrow> cstring \<Rightarrow> 16 word \<Rightarrow> bool \<Rightarrow> exn + ('s, 'h) ClientSocket" where
  "new_ClientSocket R ops s host port verify_cert =
     (let c = \<lparr>socket_base = new_SocketBase s, tls = tls_setup verify_cert,
               context_thread = None, io_context_stopped = False\<rparr>
      in case seqE (on_base (connect R ops host port)) start_context_thread c of
           (Inl e, _) \<Rightarrow> Inl e
         | (Inr u, c') \<Rightarrow> Inr c')"

section \<open>Requests\<close>

definition login ::
  "'j json_writer \<Rightarrow> 's asio \<Rightarrow> cstring \<Rightarrow> cstring \<Rightarrow> (exn, ('s, 'h) SocketBase, unit) eff" where
  "login W ops email password =
     (let json = json_assign W ''password'' password (json_assign W ''email'' email (json_null W))
      in bindE (lift_sum (or_json (json_to_string W json))) (\<lambda>text.
         seqE (send ops \<lparr>msg_type = LOGIN, content = text\<rparr>)
              (receiveACK ops)))"

definition findOtherClient :: "'s asio \<Rightarrow> cstring \<Rightarrow> (exn, ('s, 'h) SocketBase, bool) eff" where
  "findOtherClient ops client_id =
     seqE (send ops \<lparr>msg_type = FIND_STREAMER, content = client_id\<rparr>)
       (bindE (receiveToBuffer ops) (\<lambda>message. ret (msg_type message = ACK)))"

definition requestStreamerID :: "'s asio \<Rightarrow> (exn, ('s, 'h) SocketBase, cstring) eff" where
  "requestStreamerID ops =
     seqE (send ops \<lparr>msg_type = REGISTER_STREAMER, content = []\<rparr>)
       (bindE (receive ops) (\<lambda>response.
          if msg_type response = ID then ret (content response)
          else bindE (lift_sum (type_to_str_at (msg_type response))) (\<lambda>name.
                 throw (ScreenViewerBaseException (NotRegistered name)))))"

text \<open>
  The loop of \<open>waitForStartStreamMessage\<close>: \<open>clock 0\<close> is \<open>start\<close> and \<open>clock i\<close> the reading
  before the \<open>i\<close>-th message. It need not end, so its value is an option.
\<close>

partial_function (option) wait_loop ::
  "'s asio \<Rightarrow> (nat \<Rightarrow> int) \<Rightarrow> int \<Rightarrow> nat \<Rightarrow> ('s, 'h) SocketBase \<Rightarrow> ((exn + bool) \<times> ('s, 'h) SocketBase) option" where
  "wait_loop ops clock timeout i sb =
     (if (clock i - clock 0) sdiv ns_per_second < timeout
      then (case receiveToBuffer ops sb of
              (Inl e, sb') \<Rightarrow> Some (Inl e, sb')
            | (Inr message, sb') \<Rightarrow>
                if msg_type message = START_STREAM then Some (Inr True, sb')
                else (case type_to_str_at (msg_type message) of
                        Inl e \<Rightarrow> Some (Inl e, sb')
                      | Inr name \<Rightarrow> wait_loop ops clock timeout (Suc i) sb'))
      else Some (Inr False, sb))"

definition DEFAULT_TIMEOUT :: int where
  "DEFAULT_TIMEOUT = 2 ^ 63 - 1"

definition waitForStartStreamMessage ::
  "'s asio \<Rightarrow> (nat \<Rightarrow> int) \<Rightarrow> int \<Rightarrow> ('s, 'h) SocketBase \<Rightarrow> ((exn + bool) \<times> ('s, 'h) SocketBase) option" where
  "waitForStartStreamMessage ops clock timeout sb = wait_loop ops clock timeout 1 sb"

text \<open>
  \<open>disconnect\<close> asks the thread to stop, closes the connection without a goodbye and joins the
  thread; \<open>stop_possible\<close> holds of every thread that was started.
\<close>

definition client_disconnect :: "'s asio \<Rightarrow> (exn, ('s, 'h) ClientSocket, unit) eff" where
  "client_disconnect ops =
     seqE (modify (\<lambda>c. if context_thread c \<noteq> None then c\<lparr>context_thread := Some True\<rparr> else c))
    (seqE (on_base (safeDisconnect ops None))
          (modify (\<lambda>c. if context_thread c \<noteq> None
                       then c\<lparr>io_context_stopped := True, context_thread := None\<rparr> else c)))"

text \<open>
  The destructor; \<open>owns\<close> tells whether the object still has its \<open>io_context\<close>, which a moved-from
  one has not, and \<open>own_thread\<close> whether the thread itself drops the last reference. The thread
  ends up detached or, by the destructor of \<open>std::jthread\<close>, joined.
\<close>

definition destroy_ClientSocket :: "bool \<Rightarrow> bool \<Rightarrow> ('s, 'h) ClientSocket \<Rightarrow> ('s, 'h) ClientSocket \<times> bool" where
  "destroy_ClientSocket owns own_thread c =
     (if owns
      then (let c = c\<lparr>context_thread := map_option (\<lambda>_. True) (context_thread c), io_context_stopped := True\<rparr>
            in if own_thread then (c\<lparr>context_thread := None\<rparr>, False)
               else (c\<lparr>context_thread := None\<rparr>, context_thread c \<noteq> None))
      else (c, False))"

section \<open>Waiting for a viewer\<close>

text \<open>What a peer sends as a sequence of messages that each fit one frame.\<close>

definition message_stream :: "(MessageType \<times> cstring) list \<Rightarrow> byte list" where
  "message_stream ms = concat (map (\<lambda>(t, c). frame t c) ms)"

definition not_starting :: "(MessageType \<times> cstring) list \<Rightarrow> bool" where
  "not_starting ms \<longleftrightarrow> (\<forall>(t, c) \<in> set ms. t \<noteq> START_STREAM \<and> length c \<le> BUFFER_SIZE)"

definition in_time :: "(nat \<Rightarrow> int) \<Rightarrow> int \<Rightarrow> nat \<Rightarrow> bool" where
  "in_time clock timeout i \<longleftrightarrow> (clock i - clock 0) sdiv ns_per_second < timeout"

text \<open>Messages that are not the awaited one are consumed, one for every reading of the clock.\<close>

lemma wait_loop_skips:
  assumes "stream_contract ops sent avail live"
  shows "live (socket sb) \<Longrightarrow> avail (socket sb) = message_stream ms @ rest \<Longrightarrow> not_starting ms \<Longrightarrow>
    (\<And>j. j < length ms \<Longrightarrow> in_time clock timeout (i + j)) \<Longrightarrow>
    \<exists>sb'. wait_loop ops clock timeout i sb = wait_loop ops clock timeout (i + length ms) sb'
      \<and> live (socket sb') \<and> avail (socket sb') = rest"
proof (induction ms arbitrary: i sb)
  case Nil
  then show ?case
    by (auto simp: message_stream_def)
next
  case (Cons m ms)
  obtain t c where m: "m = (t, c)"
    by fastforce
  have front: "avail (socket sb) = frame t c @ message_stream ms @ rest" and c: "length c \<le> BUFFER_SIZE"
    and t: "t \<noteq> START_STREAM" and ms: "not_starting ms"
    using Cons.prems(2,3) m by (auto simp: message_stream_def not_starting_def)
  obtain s where s: "receiveToBuffer ops sb = (Inr \<lparr>msg_type = t, content = c\<rparr>,
      sb\<lparr>socket := s, data_buffer := overwrite (data_buffer sb) c\<rparr>)" "live s" "avail s = message_stream ms @ rest"
    by (rule receiveToBuffer_live [OF assms Cons.prems(1) front c])
  have "in_time clock timeout (Suc i + j)" if "j < length ms" for j
    using Cons.prems(4) [of "Suc j"] that by simp
  then obtain sb' where "wait_loop ops clock timeout (Suc i)
        (sb\<lparr>socket := s, data_buffer := overwrite (data_buffer sb) c\<rparr>)
      = wait_loop ops clock timeout (Suc i + length ms) sb'" "live (socket sb')" "avail (socket sb') = rest"
    using Cons.IH [of "sb\<lparr>socket := s, data_buffer := overwrite (data_buffer sb) c\<rparr>" "Suc i"] s(2,3) ms by auto
  moreover have "wait_loop ops clock timeout i sb = wait_loop ops clock timeout (Suc i)
      (sb\<lparr>socket := s, data_buffer := overwrite (data_buffer sb) c\<rparr>)"
    using Cons.prems(4) [of 0] s(1) t by (subst wait_loop.simps) (simp add: in_time_def)
  ultimately show ?case
    by auto
qed

text \<open>The message that is waited for, when it comes first and in time.\<close>

lemma wait_now:
  assumes "stream_contract ops sent avail live" and "live (socket sb)"
    and "avail (socket sb) = frame START_STREAM c @ rest" and "length c \<le> BUFFER_SIZE" and "in_time clock timeout 1"
  shows "\<exists>s. waitForStartStreamMessage ops clock timeout sb
        = Some (Inr True, sb\<lparr>socket := s, data_buffer := overwrite (data_buffer sb) c\<rparr>)
    \<and> live s \<and> avail s = rest \<and> sent s = sent (socket sb)"
proof -
  obtain s where s: "receiveToBuffer ops sb = (Inr \<lparr>msg_type = START_STREAM, content = c\<rparr>,
      sb\<lparr>socket := s, data_buffer := overwrite (data_buffer sb) c\<rparr>)" "live s" "avail s = rest" "sent s = sent (socket sb)"
    by (rule receiveToBuffer_live [OF assms(1-4)])
  then have "wait_loop ops clock timeout 1 sb = Some (Inr True, sb\<lparr>socket := s, data_buffer := overwrite (data_buffer sb) c\<rparr>)"
    using assms(5) by (subst wait_loop.simps) (simp add: in_time_def)
  with s(2-4) show ?thesis
    by (intro exI [of _ s]) (simp add: waitForStartStreamMessage_def)
qed

text \<open>
  C31. Waiting for a viewer ends, and with the right answer. On a working stream on which
  messages of other types come first, each read before the timeout, and then \<open>START_STREAM\<close>:
  the call returns true when that message is still in time, and has consumed the stream up to
  and with it; when the timeout has passed by then it returns false and leaves it unread.
\<close>

theorem wait_ends:
  assumes "stream_contract ops sent avail live" and "live (socket sb)"
    and "avail (socket sb) = message_stream ms @ frame START_STREAM c @ rest"
    and "not_starting ms" and "length c \<le> BUFFER_SIZE"
    and "\<forall>i. 1 \<le> i \<and> i \<le> length ms \<longrightarrow> in_time clock timeout i"
  shows "\<exists>sb'. waitForStartStreamMessage ops clock timeout sb
        = Some (Inr (in_time clock timeout (Suc (length ms))), sb')
    \<and> avail (socket sb') = (if in_time clock timeout (Suc (length ms)) then rest
                           else frame START_STREAM c @ rest)"
proof -
  obtain sb' where skip: "wait_loop ops clock timeout 1 sb = wait_loop ops clock timeout (1 + length ms) sb'"
    "live (socket sb')" "avail (socket sb') = frame START_STREAM c @ rest"
    using wait_loop_skips [OF assms(1-4), of clock timeout 1] assms(6) by auto
  obtain s where s: "receiveToBuffer ops sb' = (Inr \<lparr>msg_type = START_STREAM, content = c\<rparr>,
      sb'\<lparr>socket := s, data_buffer := overwrite (data_buffer sb') c\<rparr>)" "avail s = rest"
    by (rule receiveToBuffer_live [OF assms(1) skip(2,3) assms(5)])
  show ?thesis
  proof (cases "in_time clock timeout (Suc (length ms))")
    case True
    then have "wait_loop ops clock timeout (1 + length ms) sb'
        = Some (Inr True, sb'\<lparr>socket := s, data_buffer := overwrite (data_buffer sb') c\<rparr>)"
      using s(1) by (subst wait_loop.simps) (simp add: in_time_def)
    with True s(2) skip(1) show ?thesis
      by (simp add: waitForStartStreamMessage_def)
  next
    case False
    then have "wait_loop ops clock timeout (1 + length ms) sb' = Some (Inr False, sb')"
      by (subst wait_loop.simps) (simp add: in_time_def)
    with False skip(1,3) show ?thesis
      by (simp add: waitForStartStreamMessage_def)
  qed
qed

lemma wait_ends_witness:
  "\<exists>sb'. waitForStartStreamMessage pipe_ops (\<lambda>i. int i * 1000) 5
      (idle_pipe\<lparr>socket := \<lparr>incoming = message_stream [(ACK, [1])] @ frame START_STREAM [] @ [9],
          outgoing = [], opened = True\<rparr>\<rparr>) = Some (Inr True, sb')"
proof -
  let ?sb = "idle_pipe\<lparr>socket := \<lparr>incoming = message_stream [(ACK, [1])] @ frame START_STREAM [] @ [9],
      outgoing = [], opened = True\<rparr>\<rparr>"
  have timely: "in_time (\<lambda>i. int i * 1000) 5 1" "in_time (\<lambda>i. int i * 1000) 5 2"
    by (simp_all add: in_time_def ns_per_second_def signed_divide_int_def)
  have "opened (socket ?sb)" "incoming (socket ?sb) = message_stream [(ACK, [1])] @ frame START_STREAM [] @ [9]"
    by simp_all
  moreover have "not_starting [(ACK, [1])]" "length ([] :: cstring) \<le> BUFFER_SIZE"
    by (simp_all add: not_starting_def BUFFER_SIZE_def)
  moreover have "\<forall>i. 1 \<le> i \<and> i \<le> length [(ACK, [1 :: byte])] \<longrightarrow> in_time (\<lambda>i. int i * 1000) 5 i"
  proof (intro allI impI)
    fix i
    assume "1 \<le> i \<and> i \<le> length [(ACK, [1 :: byte])]"
    then have "i = 1"
      by auto
    with timely(1) show "in_time (\<lambda>i. int i * 1000) 5 i"
      by simp
  qed
  ultimately show ?thesis
    using wait_ends [OF pipe_contract, of ?sb "[(ACK, [1])]" "[]" "[9]" "\<lambda>i. int i * 1000" 5] timely(2)
    by (auto simp: numeral_2_eq_2)
qed

section \<open>Requests and their answers\<close>

text \<open>
  A streamer's registration, from the client's side: \<open>REGISTER_STREAMER\<close> goes out, and the
  answer is the content of the \<open>ID\<close> message that comes back; any other answer is an exception
  that names its type. Exactly one message is consumed.
\<close>

theorem registration_answer:
  assumes contract: "stream_contract ops sent avail live" and "live (socket sb)"
    and "avail (socket sb) = frame t c @ rest" and "length c \<le> BUFFER_SIZE"
  shows "\<exists>s. requestStreamerID ops sb =
      ((if t = ID then Inr c else Inl (ScreenViewerBaseException (NotRegistered (type_name t)))), sb\<lparr>socket := s\<rparr>)
    \<and> sent s = sent (socket sb) @ frame REGISTER_STREAMER [] \<and> avail s = rest \<and> live s"
proof -
  obtain s where s: "send ops \<lparr>msg_type = REGISTER_STREAMER, content = []\<rparr> sb = (Inr (), sb\<lparr>socket := s\<rparr>)"
    "live s" "sent s = sent (socket sb) @ concat (frames \<lparr>msg_type = REGISTER_STREAMER, content = []\<rparr>)"
    "avail s = avail (socket sb)"
    by (rule send_live [OF assms(1,2)])
  have "live (socket (sb\<lparr>socket := s\<rparr>))" "avail (socket (sb\<lparr>socket := s\<rparr>)) = frame t c @ rest"
    using s assms(3) by simp_all
  then obtain u where u: "receive ops (sb\<lparr>socket := s\<rparr>) = (Inr \<lparr>msg_type = t, content = c\<rparr>, sb\<lparr>socket := u\<rparr>)"
    "sent u = sent s" "avail u = rest" "live u"
    using receive_live [OF contract _ _ assms(4), of "sb\<lparr>socket := s\<rparr>" t rest] by auto
  have "frames \<lparr>msg_type = REGISTER_STREAMER, content = []\<rparr> = [frame REGISTER_STREAMER []]"
    by (simp add: frames_def chunks_short)
  with s(1,3) u show ?thesis
    by (intro exI [of _ u]) (simp add: requestStreamerID_def seqE_step bindE_step ret_def throw_def lift_sum_def)
qed

lemma registration_answer_witness:
  "fst (requestStreamerID pipe_ops pipe_with_id) = Inr [1, 2]"
proof -
  have "opened (socket pipe_with_id)" "incoming (socket pipe_with_id) = frame ID [1, 2] @ [5]"
    "length ([1, 2] :: cstring) \<le> BUFFER_SIZE"
    by (simp_all add: pipe_with_id_def BUFFER_SIZE_def)
  from registration_answer [OF pipe_contract this] show ?thesis
    by auto
qed

lemma find_answer:
  assumes contract: "stream_contract ops sent avail live" and "live (socket sb)"
    and "avail (socket sb) = frame t c @ rest" and "length c \<le> BUFFER_SIZE"
  shows "\<exists>s. findOtherClient ops client_id sb =
      (Inr (t = ACK), sb\<lparr>socket := s, data_buffer := overwrite (data_buffer sb) c\<rparr>)
    \<and> sent s = sent (socket sb) @ concat (frames \<lparr>msg_type = FIND_STREAMER, content = client_id\<rparr>) \<and> avail s = rest \<and> live s"
proof -
  obtain s where s: "send ops \<lparr>msg_type = FIND_STREAMER, content = client_id\<rparr> sb = (Inr (), sb\<lparr>socket := s\<rparr>)"
    "live s" "sent s = sent (socket sb) @ concat (frames \<lparr>msg_type = FIND_STREAMER, content = client_id\<rparr>)"
    "avail s = avail (socket sb)"
    by (rule send_live [OF assms(1,2)])
  have front: "live (socket (sb\<lparr>socket := s\<rparr>))" "avail (socket (sb\<lparr>socket := s\<rparr>)) = frame t c @ rest"
    using s assms(3) by simp_all
  obtain u where "receiveToBuffer ops (sb\<lparr>socket := s\<rparr>) = (Inr \<lparr>msg_type = t, content = c\<rparr>,
      sb\<lparr>socket := u, data_buffer := overwrite (data_buffer sb) c\<rparr>)" "sent u = sent s" "avail u = rest" "live u"
    by (rule receiveToBuffer_live [OF contract front assms(4)]) simp
  with s(1,3) show ?thesis
    by (intro exI [of _ u]) (simp add: findOtherClient_def seqE_step bindE_step ret_def)
qed

lemma login_answer:
  assumes contract: "stream_contract ops sent avail live" and "live (socket sb)"
    and "avail (socket sb) = frame t c @ rest" and "length c \<le> BUFFER_SIZE"
    and "json_to_string W (json_assign W ''password'' password (json_assign W ''email'' email (json_null W))) = Inr text"
  shows "\<exists>s. snd (login W ops email password sb) =
        sb\<lparr>socket := s, data_buffer := overwrite (data_buffer sb) c\<rparr>
    \<and> (fst (login W ops email password sb) = Inr () \<longleftrightarrow> t = ACK)
    \<and> sent s = sent (socket sb) @ concat (frames \<lparr>msg_type = LOGIN, content = text\<rparr>) \<and> avail s = rest \<and> live s"
proof -
  obtain s where s: "send ops \<lparr>msg_type = LOGIN, content = text\<rparr> sb = (Inr (), sb\<lparr>socket := s\<rparr>)"
    "live s" "sent s = sent (socket sb) @ concat (frames \<lparr>msg_type = LOGIN, content = text\<rparr>)"
    "avail s = avail (socket sb)"
    by (rule send_live [OF assms(1,2)])
  have front: "live (socket (sb\<lparr>socket := s\<rparr>))" "avail (socket (sb\<lparr>socket := s\<rparr>)) = frame t c @ rest"
    using s assms(3) by simp_all
  obtain u where u: "receiveToBuffer ops (sb\<lparr>socket := s\<rparr>) = (Inr \<lparr>msg_type = t, content = c\<rparr>,
      sb\<lparr>socket := u, data_buffer := overwrite (data_buffer sb) c\<rparr>)" "sent u = sent s" "avail u = rest" "live u"
    by (rule receiveToBuffer_live [OF contract front assms(4)]) simp
  have "login W ops email password sb = receiveACK ops (sb\<lparr>socket := s\<rparr>)"
    using assms(5) s(1) by (simp add: login_def Let_def or_json_def bindE_step lift_sum_def seqE_step)
  with s(3) u show ?thesis
    by (intro exI [of _ u]) (simp add: receiveACK_def bindE_step lift_sum_def throw_def ret_def Let_def)
qed

section \<open>Connecting and leaving\<close>

text \<open>
  A client socket exists only behind a completed handshake. The constructor resolves the
  name, connects to the first endpoint and shakes hands; it fails with the reason of the step
  that failed, or with its own when no endpoint is found, and then no thread was started; an
  object it returns has its thread running, and verifies certificates exactly when asked to.
\<close>

theorem construction_outcome:
  "new_ClientSocket R ops s host port verify_cert =
     (case op_resolve R host port of
        Inl ec \<Rightarrow> Inl (SystemError ec)
      | Inr [] \<Rightarrow> Inl (ScreenViewerBaseException (NoEndpoint host (unat port)))
      | Inr (endpoint # _) \<Rightarrow>
          (case op_connect R endpoint s of
             (Some ec, _) \<Rightarrow> Inl (SystemError ec)
           | (None, s1) \<Rightarrow>
               (case op_handshake ops s1 of
                  (Some ec, _) \<Rightarrow> Inl (SystemError ec)
                | (None, s2) \<Rightarrow> Inr \<lparr>socket_base = (new_SocketBase s)\<lparr>socket := s2\<rparr>, tls = tls_setup verify_cert,
                    context_thread = Some False, io_context_stopped = False\<rparr>)))
   \<and> (\<forall>preverified. verify_callback (tls_setup verify_cert) preverified = (if verify_cert then preverified else True))"
  by (auto simp: new_ClientSocket_def Let_def connect_def start_context_thread_def eff tls_setup_def
    verify_certificate_def new_SocketBase_def split: sum.splits list.splits prod.splits option.splits)

lemma client_disconnect_eq:
  "client_disconnect ops c =
     (Inr (), c\<lparr>socket_base := snd (safeDisconnect ops None (socket_base c)), context_thread := None,
        io_context_stopped := io_context_stopped c \<or> context_thread c \<noteq> None\<rparr>)"
  using safeDisconnect_result [of ops None "socket_base c"]
  by (cases c) (auto simp: client_disconnect_def eff split: prod.splits)

end
