(* ===== verification/Mouse.thy ===== *)
theory Mouse
  imports Messages
begin

text \<open>
  The encoding of mouse buttons: \<open>include/MouseConfig.hpp\<close> and \<open>src/MouseConfig.cpp\<close>.
  A button travels as one bit of an \<open>int\<close>; bit 6 says that it is pressed. The viewer
  encodes SDL button numbers (\<open>convertToMask\<close>, \<open>setClicked\<close>), the streamer decodes X11
  button numbers (\<open>extractButtonID\<close>, \<open>isClicked\<close>, \<open>isScrollMoved\<close>).
\<close>

unbundle bit_operations_syntax

definition MOVE :: int32 where "MOVE = 0"

definition LEFT_BUTTON :: int32 where "LEFT_BUTTON = 1"
definition LEFT_BUTTON_MASK :: int32 where "LEFT_BUTTON_MASK = 1"

definition MID_BUTTON :: int32 where "MID_BUTTON = 2"
definition MID_BUTTON_MASK :: int32 where "MID_BUTTON_MASK = push_bit (2 - 1) 1"

definition RIGHT_BUTTON :: int32 where "RIGHT_BUTTON = 3"
definition RIGHT_BUTTON_MASK :: int32 where "RIGHT_BUTTON_MASK = push_bit (3 - 1) 1"

definition SCROLL_UP :: int32 where "SCROLL_UP = 4"
definition SCROLL_UP_MASK :: int32 where "SCROLL_UP_MASK = push_bit (4 - 1) 1"

definition SCROLL_DOWN :: int32 where "SCROLL_DOWN = 5"
definition SCROLL_DOWN_MASK :: int32 where "SCROLL_DOWN_MASK = push_bit (5 - 1) 1"

definition IS_CLICKED_MASK :: int32 where "IS_CLICKED_MASK = push_bit (6 - 1) 1"

definition FORWARD_BUTTON :: int32 where "FORWARD_BUTTON = 9"
definition FORWARD_BUTTON_MASK :: int32 where "FORWARD_BUTTON_MASK = push_bit 6 1"

definition BACK_BUTTON :: int32 where "BACK_BUTTON = 8"
definition BACK_BUTTON_MASK :: int32 where "BACK_BUTTON_MASK = push_bit (8 - 1) 1"

lemmas button_defs = MOVE_def LEFT_BUTTON_def LEFT_BUTTON_MASK_def MID_BUTTON_def
  MID_BUTTON_MASK_def RIGHT_BUTTON_def RIGHT_BUTTON_MASK_def SCROLL_UP_def SCROLL_UP_MASK_def
  SCROLL_DOWN_def SCROLL_DOWN_MASK_def IS_CLICKED_MASK_def FORWARD_BUTTON_def
  FORWARD_BUTTON_MASK_def BACK_BUTTON_def BACK_BUTTON_MASK_def

definition extractButtonID :: "int32 \<Rightarrow> int32" where
  "extractButtonID msk =
     (if msk AND LEFT_BUTTON_MASK \<noteq> 0 then LEFT_BUTTON
      else if msk AND MID_BUTTON_MASK \<noteq> 0 then MID_BUTTON
      else if msk AND RIGHT_BUTTON_MASK \<noteq> 0 then RIGHT_BUTTON
      else if msk AND SCROLL_UP_MASK \<noteq> 0 then SCROLL_UP
      else if msk AND SCROLL_DOWN_MASK \<noteq> 0 then SCROLL_DOWN
      else if msk AND FORWARD_BUTTON_MASK \<noteq> 0 then FORWARD_BUTTON
      else if msk AND BACK_BUTTON_MASK \<noteq> 0 then BACK_BUTTON
      else 0)"

text \<open>
  \<open>1 << (sdl_button_id - 1)\<close> on a 32-bit \<open>int\<close>: a negative count or one above 31 has
  no meaning.
\<close>

definition convertToMask :: "byte \<Rightarrow> exn + int32" where
  "convertToMask sdl_button_id =
     (if sdl_button_id = 4 then Inr BACK_BUTTON_MASK
      else if sdl_button_id = 5 then Inr FORWARD_BUTTON_MASK
      else if sdl_button_id = 0 \<or> 32 < sdl_button_id then Inl (UndefinedBehaviour ''shift count'')
      else Inr (push_bit (unat sdl_button_id - 1) 1))"

definition isClicked :: "int32 \<Rightarrow> bool" where
  "isClicked msk \<longleftrightarrow> msk AND IS_CLICKED_MASK \<noteq> 0"

definition isScrollMoved :: "int32 \<Rightarrow> bool" where
  "isScrollMoved msk \<longleftrightarrow> msk AND SCROLL_UP_MASK \<noteq> 0 \<or> msk AND SCROLL_DOWN_MASK \<noteq> 0"

definition setClicked :: "int32 \<Rightarrow> int32" where
  "setClicked msk = msk OR IS_CLICKED_MASK"

section \<open>The pressed bit is separate from the button bits\<close>

lemma masks_disjoint:
  "IS_CLICKED_MASK AND LEFT_BUTTON_MASK = 0" "IS_CLICKED_MASK AND MID_BUTTON_MASK = 0"
  "IS_CLICKED_MASK AND RIGHT_BUTTON_MASK = 0" "IS_CLICKED_MASK AND SCROLL_UP_MASK = 0"
  "IS_CLICKED_MASK AND SCROLL_DOWN_MASK = 0" "IS_CLICKED_MASK AND FORWARD_BUTTON_MASK = 0"
  "IS_CLICKED_MASK AND BACK_BUTTON_MASK = 0"
  by (simp_all add: button_defs push_bit_eq_mult)

lemma setClicked_and:
  "IS_CLICKED_MASK AND m = 0 \<Longrightarrow> setClicked msk AND m = msk AND m"
  by (simp add: setClicked_def bit.conj_disj_distrib2)

lemma extractButtonID_setClicked [simp]: "extractButtonID (setClicked msk) = extractButtonID msk"
  by (simp add: extractButtonID_def setClicked_and masks_disjoint)

lemma isScrollMoved_setClicked [simp]: "isScrollMoved (setClicked msk) = isScrollMoved msk"
  by (simp add: isScrollMoved_def setClicked_and masks_disjoint)

lemma isClicked_setClicked [simp]: "isClicked (setClicked msk)"
proof -
  have "setClicked msk AND IS_CLICKED_MASK = IS_CLICKED_MASK"
    by (simp add: setClicked_def and.commute)
  then show ?thesis
    by (simp add: isClicked_def button_defs push_bit_eq_mult)
qed

section \<open>The buttons of a mouse\<close>

text \<open>The X11 number of an SDL button: SDL counts back and forward as 4 and 5, X11 as 8 and 9.\<close>

definition x11_button :: "byte \<Rightarrow> int32" where
  "x11_button b = (if b = 4 then 8 else if b = 5 then 9 else ucast b)"

text \<open>What each encoded button decodes to.\<close>

definition decodes_to :: "int32 \<Rightarrow> int32 \<Rightarrow> bool" where
  "decodes_to msk button \<longleftrightarrow>
     extractButtonID msk = button \<and> \<not> isScrollMoved msk \<and> \<not> isClicked msk \<and> button \<noteq> 0"

lemma mask_values:
  "LEFT_BUTTON_MASK = 1" "MID_BUTTON_MASK = 2" "RIGHT_BUTTON_MASK = 4" "SCROLL_UP_MASK = 8"
  "SCROLL_DOWN_MASK = 16" "IS_CLICKED_MASK = 32" "FORWARD_BUTTON_MASK = 64" "BACK_BUTTON_MASK = 128"
  by (simp_all add: button_defs push_bit_eq_mult)

lemmas decoding = decodes_to_def extractButtonID_def isScrollMoved_def isClicked_def mask_values

lemma decodes_left: "decodes_to 1 1" by (simp add: decoding LEFT_BUTTON_def)
lemma decodes_mid: "decodes_to 2 2" by (simp add: decoding MID_BUTTON_def)
lemma decodes_right: "decodes_to 4 3" by (simp add: decoding RIGHT_BUTTON_def)
lemma decodes_back: "decodes_to 128 8" by (simp add: decoding BACK_BUTTON_def)
lemma decodes_forward: "decodes_to 64 9" by (simp add: decoding FORWARD_BUTTON_def)

lemma convertToMask_buttons:
  "convertToMask 1 = Inr 1" "convertToMask 2 = Inr 2" "convertToMask 3 = Inr 4"
  "convertToMask 4 = Inr 128" "convertToMask 5 = Inr 64"
  by (simp_all add: convertToMask_def mask_values push_bit_eq_mult)

lemma button_encoding:
  assumes "b \<in> {1, 2, 3, 4, 5}"
  obtains msk where "convertToMask b = Inr msk" and "decodes_to msk (x11_button b)"
  using assms convertToMask_buttons decodes_left decodes_mid decodes_right decodes_back
    decodes_forward that by (auto simp: x11_button_def)

lemma decodes_not_MOVE: "decodes_to msk button \<Longrightarrow> msk \<noteq> MOVE"
  by (auto simp: decodes_to_def extractButtonID_def MOVE_def)

lemma setClicked_not_MOVE: "setClicked msk \<noteq> MOVE"
  using isClicked_setClicked [of msk] by (auto simp: isClicked_def MOVE_def)

text \<open>
  Every button of a mouse (SDL numbers 1 to 5) survives the journey from the viewer to
  the streamer: it is encoded without undefined behaviour, decodes to the X11 number of the
  same button whether or not the pressed bit was added, is not mistaken for the wheel, and
  reads as pressed exactly when the pressed bit was added.
\<close>

theorem button_roundtrip:
  assumes "b \<in> {1, 2, 3, 4, 5}"
  shows "\<exists>msk. convertToMask b = Inr msk
    \<and> extractButtonID msk = x11_button b \<and> extractButtonID (setClicked msk) = x11_button b
    \<and> \<not> isScrollMoved msk \<and> \<not> isScrollMoved (setClicked msk)
    \<and> \<not> isClicked msk \<and> isClicked (setClicked msk)
    \<and> msk \<noteq> MOVE \<and> setClicked msk \<noteq> MOVE"
proof -
  obtain msk where "convertToMask b = Inr msk" and "decodes_to msk (x11_button b)"
    using assms by (rule button_encoding)
  then show ?thesis
    using decodes_not_MOVE setClicked_not_MOVE by (auto simp: decodes_to_def)
qed

lemma button_roundtrip_witness:
  "(4 :: byte) \<in> {1, 2, 3, 4, 5} \<and> extractButtonID (projr (convertToMask 4)) = 8"
  using button_roundtrip [of 4] by (auto simp: x11_button_def)

text \<open>
  What the streamer reads from an arbitrary mask: adding the pressed bit never changes
  the button or makes it a wheel event, and no button is found exactly when none of the
  seven button bits is set.
\<close>

theorem pressed_bit_independent:
  "extractButtonID (setClicked msk) = extractButtonID msk
   \<and> isScrollMoved (setClicked msk) = isScrollMoved msk
   \<and> isClicked (setClicked msk)
   \<and> (extractButtonID msk = 0 \<longleftrightarrow> msk AND 0xDF = 0)"
proof -
  have parts: "(0xDF :: int32) = LEFT_BUTTON_MASK OR MID_BUTTON_MASK OR RIGHT_BUTTON_MASK
      OR SCROLL_UP_MASK OR SCROLL_DOWN_MASK OR FORWARD_BUTTON_MASK OR BACK_BUTTON_MASK"
    by (simp add: mask_values)
  have "extractButtonID msk = 0 \<longleftrightarrow> msk AND 0xDF = 0"
    unfolding parts bit.conj_disj_distrib
    by (auto simp: extractButtonID_def LEFT_BUTTON_def MID_BUTTON_def RIGHT_BUTTON_def
      SCROLL_UP_def SCROLL_DOWN_def FORWARD_BUTTON_def BACK_BUTTON_def or_eq_0_iff)
  then show ?thesis
    by simp
qed

end
