(* ===== verification/Keys_Mapping.thy ===== *)
theory Keys_Mapping
  imports Messages
begin

text \<open>
  The translation of key symbols: \<open>src/KeysMapping.cpp\<close>. The numbers behind the names
  \<open>SDLK_...\<close> and \<open>XK_...\<close> come from the headers of SDL and of X11, so they are two
  arguments of the function, from names to numbers; the table itself is the one of the source,
  row by row.
\<close>

type_synonym symbol = string

definition sdl_to_x11 :: "(symbol \<times> symbol) list" where
  "sdl_to_x11 =
    [(''SDLK_BACKSPACE'', ''XK_BackSpace''),
     (''SDLK_TAB'', ''XK_Tab''),
     (''SDLK_CLEAR'', ''XK_Clear''),
     (''SDLK_RETURN'', ''XK_Return''),
     (''SDLK_PAUSE'', ''XK_Pause''),
     (''SDLK_ESCAPE'', ''XK_Escape''),
     (''SDLK_DELETE'', ''XK_Delete''),
     (''SDLK_KP_0'', ''XK_KP_0''),
     (''SDLK_KP_1'', ''XK_KP_1''),
     (''SDLK_KP_2'', ''XK_KP_2''),
     (''SDLK_KP_3'', ''XK_KP_3''),
     (''SDLK_KP_4'', ''XK_KP_4''),
     (''SDLK_KP_5'', ''XK_KP_5''),
     (''SDLK_KP_6'', ''XK_KP_6''),
     (''SDLK_KP_7'', ''XK_KP_7''),
     (''SDLK_KP_8'', ''XK_KP_8''),
     (''SDLK_KP_9'', ''XK_KP_9''),
     (''SDLK_KP_PERIOD'', ''XK_KP_Decimal''),
     (''SDLK_KP_DIVIDE'', ''XK_KP_Divide''),
     (''SDLK_KP_MULTIPLY'', ''XK_KP_Multiply''),
     (''SDLK_KP_MINUS'', ''XK_KP_Subtract''),
     (''SDLK_KP_PLUS'', ''XK_KP_Add''),
     (''SDLK_KP_ENTER'', ''XK_KP_Enter''),
     (''SDLK_KP_EQUALS'', ''XK_KP_Equal''),
     (''SDLK_UP'', ''XK_Up''),
     (''SDLK_DOWN'', ''XK_Down''),
     (''SDLK_RIGHT'', ''XK_Right''),
     (''SDLK_LEFT'', ''XK_Left''),
     (''SDLK_INSERT'', ''XK_Insert''),
     (''SDLK_HOME'', ''XK_Home''),
     (''SDLK_END'', ''XK_End''),
     (''SDLK_PAGEUP'', ''XK_Page_Up''),
     (''SDLK_PAGEDOWN'', ''XK_Page_Down''),
     (''SDLK_F1'', ''XK_F1''),
     (''SDLK_F2'', ''XK_F2''),
     (''SDLK_F3'', ''XK_F3''),
     (''SDLK_F4'', ''XK_F4''),
     (''SDLK_F5'', ''XK_F5''),
     (''SDLK_F6'', ''XK_F6''),
     (''SDLK_F7'', ''XK_F7''),
     (''SDLK_F8'', ''XK_F8''),
     (''SDLK_F9'', ''XK_F9''),
     (''SDLK_F10'', ''XK_F10''),
     (''SDLK_F11'', ''XK_F11''),
     (''SDLK_F12'', ''XK_F12''),
     (''SDLK_F13'', ''XK_F13''),
     (''SDLK_F14'', ''XK_F14''),
     (''SDLK_F15'', ''XK_F15''),
     (''SDLK_NUMLOCKCLEAR'', ''XK_Num_Lock''),
     (''SDLK_CAPSLOCK'', ''XK_Caps_Lock''),
     (''SDLK_SCROLLLOCK'', ''XK_Scroll_Lock''),
     (''SDLK_RSHIFT'', ''XK_Shift_R''),
     (''SDLK_LSHIFT'', ''XK_Shift_L''),
     (''SDLK_RCTRL'', ''XK_Control_R''),
     (''SDLK_LCTRL'', ''XK_Control_L''),
     (''SDLK_RALT'', ''XK_Alt_R''),
     (''SDLK_LALT'', ''XK_Alt_L''),
     (''SDLK_LGUI'', ''XK_Super_L''),
     (''SDLK_RGUI'', ''XK_Super_R''),
     (''SDLK_MODE'', ''XK_Mode_switch''),
     (''SDLK_HELP'', ''XK_Help''),
     (''SDLK_PRINTSCREEN'', ''XK_Print''),
     (''SDLK_SYSREQ'', ''XK_Sys_Req'')]"

definition SDLKeySymToX11 :: "(symbol \<Rightarrow> int32) \<Rightarrow> (symbol \<Rightarrow> int32) \<Rightarrow> int32 \<Rightarrow> int32" where
  "SDLKeySymToX11 sdl x11 code =
     (case map_of (map (\<lambda>(k, x). (sdl k, x11 x)) sdl_to_x11) code of
        Some v \<Rightarrow> v
      | None \<Rightarrow> code)"

lemma map_of_injected:
  "inj_on f (fst ` set xs) \<Longrightarrow> k \<in> fst ` set xs \<Longrightarrow>
     map_of (map (\<lambda>(k, x). (f k, g x)) xs) (f k) = map_option g (map_of xs k)"
proof (induction xs)
  case Nil
  then show ?case by simp
next
  case (Cons kx xs)
  obtain k' x where kx: "kx = (k', x)" by fastforce
  show ?case
  proof (cases "k = k'")
    case True
    then show ?thesis using kx by simp
  next
    case False
    then have "f k \<noteq> f k'"
      using Cons.prems kx by (auto simp: inj_on_def)
    with False Cons kx show ?thesis
      by (auto simp: inj_on_def)
  qed
qed

lemma distinct_sdl_to_x11: "distinct (map fst sdl_to_x11)"
  unfolding sdl_to_x11_def
  by (simp only: list.map fst_conv distinct.simps set_simps insert_iff empty_iff list.inject
    char.inject simp_thms list.distinct bool.simps)

text \<open>
  The translation is the table, completed by the identity: when SDL gives the listed keys
  different codes, the code of every listed key goes to the X11 symbol in its row, and every
  code that is not listed goes through unchanged.
\<close>

theorem keysym_translation:
  assumes "inj_on sdl (fst ` set sdl_to_x11)"
  shows "((k, x) \<in> set sdl_to_x11 \<longrightarrow> SDLKeySymToX11 sdl x11 (sdl k) = x11 x)
    \<and> (code \<notin> sdl ` fst ` set sdl_to_x11 \<longrightarrow> SDLKeySymToX11 sdl x11 code = code)"
proof (intro conjI impI)
  assume row: "(k, x) \<in> set sdl_to_x11"
  then have "map_of sdl_to_x11 k = Some x"
    using distinct_sdl_to_x11 by simp
  with map_of_injected [OF assms, of k x11] row show "SDLKeySymToX11 sdl x11 (sdl k) = x11 x"
    by (force simp: SDLKeySymToX11_def)
next
  assume "code \<notin> sdl ` fst ` set sdl_to_x11"
  then have "map_of (map (\<lambda>(k, x). (sdl k, x11 x)) sdl_to_x11) code = None"
    by (force simp: map_of_eq_None_iff)
  then show "SDLKeySymToX11 sdl x11 code = code"
    by (simp add: SDLKeySymToX11_def)
qed

text \<open>Codes that differ: the position of a key in the table.\<close>

definition row_number :: "symbol \<Rightarrow> int32" where
  "row_number k = of_nat (length (takeWhile (\<lambda>r. r \<noteq> k) (map fst sdl_to_x11)))"

lemma row_number_bound: "length (takeWhile (\<lambda>r. r \<noteq> k) (map fst sdl_to_x11)) \<le> 63"
proof -
  have "length (map fst sdl_to_x11) = 63"
    by (simp add: sdl_to_x11_def)
  then show ?thesis
    using length_takeWhile_le by metis
qed

lemma unat_row_number:
  "unat (row_number k) = length (takeWhile (\<lambda>r. r \<noteq> k) (map fst sdl_to_x11))"
  using row_number_bound [of k] by (simp add: row_number_def unat_of_nat)

lemma inj_row_number: "inj_on row_number (fst ` set sdl_to_x11)"
proof (rule inj_onI)
  let ?pos = "\<lambda>k. length (takeWhile (\<lambda>r. r \<noteq> k) (map fst sdl_to_x11))"
  fix j k
  assume j: "j \<in> fst ` set sdl_to_x11" and k: "k \<in> fst ` set sdl_to_x11"
    and eq: "row_number j = row_number k"
  have found: "map fst sdl_to_x11 ! ?pos l = l" if "l \<in> fst ` set sdl_to_x11" for l
  proof -
    have "?pos l < length (map fst sdl_to_x11)"
      using that by (intro length_takeWhile_less) auto
    then show ?thesis
      using nth_length_takeWhile by fastforce
  qed
  have "?pos j = ?pos k"
    using eq by (metis unat_row_number)
  then show "j = k"
    using found [OF j] found [OF k] by metis
qed

lemma keysym_translation_witness:
  "inj_on row_number (fst ` set sdl_to_x11)
   \<and> SDLKeySymToX11 row_number (\<lambda>x. if x = ''XK_Escape'' then 65307 else 0) (row_number ''SDLK_ESCAPE'') = 65307
   \<and> SDLKeySymToX11 row_number (\<lambda>x. 1) 97 = 97"
proof -
  have row: "(''SDLK_ESCAPE'', ''XK_Escape'') \<in> set sdl_to_x11"
    unfolding sdl_to_x11_def
    by (simp only: list.set insert_iff prod.inject list.inject char.inject simp_thms bool.simps)
  have "row_number k \<noteq> 97" for k
  proof
    assume "row_number k = 97"
    then have "unat (row_number k) = 97"
      by simp
    then show False
      using row_number_bound [of k] by (simp add: unat_row_number)
  qed
  then have "97 \<notin> row_number ` fst ` set sdl_to_x11"
    by auto
  with row keysym_translation [OF inj_row_number, of "''SDLK_ESCAPE''" "''XK_Escape''"]
    keysym_translation [OF inj_row_number, where code = 97 and ?x11.0 = "\<lambda>x. 1"]
    inj_row_number
  show ?thesis
    by auto
qed

end
