(* ===== verification/IO_Controller.thy ===== *)
theory IO_Controller
  imports Messages
begin

text \<open>
  The interface of a controlled machine: \<open>include/streamer/IOController.hpp\<close>, and the part of
  \<open>cv::Mat\<close> the program uses. The virtual functions of \<open>IOController\<close> are a record of
  operations on the object of type \<open>'c\<close>; what the outside world answers during a call is an
  argument of type \<open>'w\<close>.
\<close>

section \<open>Images\<close>

text \<open>A \<open>CV_8UC4\<close> or \<open>CV_8UC3\<close> image; its pixels are rows of values of type \<open>'p\<close>.\<close>

type_synonym vec4b = "byte \<times> byte \<times> byte \<times> byte"      \<comment> \<open>blue, green, red, alpha\<close>
type_synonym vec3b = "byte \<times> byte \<times> byte"             \<comment> \<open>blue, green, red\<close>

record 'p mat =
  mat_rows :: nat
  mat_cols :: nat
  mat_data :: "'p list list"

definition mat_ok :: "'p mat \<Rightarrow> bool" where
  "mat_ok m \<longleftrightarrow> length (mat_data m) = mat_rows m \<and> (\<forall>row \<in> set (mat_data m). length row = mat_cols m)"

definition mat_at :: "'p mat \<Rightarrow> nat \<Rightarrow> nat \<Rightarrow> 'p" where
  "mat_at m r c = mat_data m ! r ! c"

definition mat_set :: "'p mat \<Rightarrow> nat \<Rightarrow> nat \<Rightarrow> 'p \<Rightarrow> 'p mat" where
  "mat_set m r c v = m\<lparr>mat_data := (mat_data m)[r := (mat_data m ! r)[c := v]]\<rparr>"

definition mat_empty :: "'p mat \<Rightarrow> bool" where
  "mat_empty m \<longleftrightarrow> mat_rows m = 0 \<or> mat_cols m = 0"

lemma mat_set_size [simp]:
  "mat_rows (mat_set m r c v) = mat_rows m" "mat_cols (mat_set m r c v) = mat_cols m"
  by (simp_all add: mat_set_def)

lemma mat_set_ok:
  assumes "mat_ok m" and "r < mat_rows m"
  shows "mat_ok (mat_set m r c v)"
proof -
  have "length row = mat_cols m" if "row \<in> set ((mat_data m)[r := (mat_data m ! r)[c := v]])" for row
    using that set_update_subset_insert [of "mat_data m" r "(mat_data m ! r)[c := v]"] assms
    by (auto simp: mat_ok_def)
  with assms(1) show ?thesis
    by (simp add: mat_ok_def mat_set_def)
qed

lemma mat_at_set:
  assumes "mat_ok m" and "r < mat_rows m" and "c < mat_cols m"
  shows "mat_at (mat_set m r c v) r' c' = (if r' = r \<and> c' = c then v else mat_at m r' c')"
proof (cases "r' = r")
  case True
  have "length (mat_data m ! r) = mat_cols m"
    using assms(1,2) by (simp add: mat_ok_def)
  with True assms show ?thesis
    by (simp add: mat_at_def mat_set_def mat_ok_def nth_list_update)
next
  case False
  with assms show ?thesis
    by (simp add: mat_at_def mat_set_def)
qed

section \<open>The interface\<close>

record ('w, 'c) io_ops =
  io_keyboard :: "'w \<Rightarrow> KeyboardEventData \<Rightarrow> (exn, 'c, unit) eff"
  io_mouse :: "'w \<Rightarrow> MouseEventData \<Rightarrow> (exn, 'c, unit) eff"
  io_screenshot :: "'w \<Rightarrow> (exn, 'c, vec4b mat) eff"

text \<open>
  What the streamer relies on: every screenshot has the size of the controlled screen, and no
  operation changes that size. The encoder is created once, for the size of the first one.
\<close>

locale io_controller =
  fixes ops :: "('w, 'c) io_ops" and screen_size :: "'c \<Rightarrow> nat \<times> nat"
  assumes keyboard_size: "screen_size (snd (io_keyboard ops w e c)) = screen_size c"
    and mouse_size: "screen_size (snd (io_mouse ops w m c)) = screen_size c"
    and screenshot_size: "screen_size (snd (io_screenshot ops w c)) = screen_size c"
    and screenshot_fits: "fst (io_screenshot ops w c) = Inr img \<Longrightarrow> (mat_rows img, mat_cols img) = screen_size c"
begin

lemma screenshots_agree:
  assumes "io_screenshot ops w c = (Inr img, c')" and "io_screenshot ops w' c' = (Inr img', c'')"
  shows "mat_rows img' = mat_rows img \<and> mat_cols img' = mat_cols img"
  using screenshot_fits [of w c img] screenshot_fits [of w' c' img'] screenshot_size [of w c] assms
  by (metis fst_conv snd_conv prod.inject)

text \<open>Any sequence of input events leaves the size.\<close>

lemma events_size:
  "screen_size (fold (\<lambda>(w, ev) c. case ev of Inl e \<Rightarrow> snd (io_keyboard ops w e c)
                                   | Inr m \<Rightarrow> snd (io_mouse ops w m c)) evs c) = screen_size c"
  by (induction evs arbitrary: c) (auto simp: keyboard_size mouse_size split: sum.splits)

end

end
