(* ===== verification/Video.thy ===== *)
theory Video
  imports IO_Controller
begin

text \<open>
  The codec: \<open>include/VideoEncoder.hpp\<close>, \<open>src/VideoEncoder.cpp\<close>, \<open>include/VideoDecoder.hpp\<close> and
  \<open>src/VideoDecoder.cpp\<close>. libavcodec and libswscale are not in the repository: what they
  answer when a codec is set up is a record of answers, and the codec itself is a state with
  the calls the code makes on it.
\<close>

section \<open>Encoder\<close>

record encoder_settings =
  enc_height :: int
  enc_width :: int
  time_base :: "int \<times> int"
  framerate_num :: int
  framerate_den :: int
  pix_fmt :: string
  gop_size :: int
  codec_options :: "(string \<times> string) list"

text \<open>The answers of libavcodec while an encoder or a decoder is set up; errors are negative.\<close>

record av_setup =
  find_codec :: bool
  alloc_context :: bool
  pix_fmt_bits :: "int option"          \<comment> \<open>bits per pixel of \<open>RGB24\<close>, \<open>None\<close> without a descriptor\<close>
  open_codec :: int
  alloc_frame :: bool
  frame_get_buffer :: int
  frame_make_writable :: int

definition createEncodeContext :: "av_setup \<Rightarrow> int \<Rightarrow> int \<Rightarrow> int \<Rightarrow> exn + encoder_settings" where
  "createEncodeContext A fps height width =
     (if \<not> find_codec A then Inl (VideoEncoderException ''Codec with specified id not found.'')
      else if \<not> alloc_context A then Inl (VideoEncoderException ''Could not allocate video codec context.'')
      else let context_ptr = \<lparr>enc_height = height, enc_width = width, time_base = (1, fps),
             framerate_num = fps, framerate_den = 1, pix_fmt = ''AV_PIX_FMT_YUV420P'', gop_size = fps * 2,
             codec_options = [(''preset'', ''ultrafast''), (''crf'', ''30''), (''tune'', ''zerolatency'')]\<rparr>
        in case pix_fmt_bits A of
             None \<Rightarrow> Inl (VideoEncoderException ''Could get descriptor for pixel format'')
           | Some bits \<Rightarrow>
               if bits \<noteq> 3 * 8 then Inl (VideoEncoderException ''Unhandled bits per pixel, bad in pix fmt'')
               else if open_codec A < 0
               then Inl (VideoEncoderException ''Could not initialize decode avcodec context.'')
               else Inr context_ptr)"

text \<open>The frame the encoder reads from has the size of the context.\<close>

definition createFrame :: "av_setup \<Rightarrow> encoder_settings \<Rightarrow> exn + int \<times> int" where
  "createFrame A context =
     (if \<not> alloc_frame A then Inl (VideoEncoderException ''Could not allocate video frame_ptr'')
      else if frame_get_buffer A < 0
      then Inl (VideoEncoderException ''Could not allocate the video frame data'')
      else if frame_make_writable A < 0 then Inl (VideoEncoderException ''Frame data not writable'')
      else Inr (enc_height context, enc_width context))"

text \<open>
  The codec: \<open>avcodec_send_frame\<close> with the time stamp and the converted picture, and
  \<open>avcodec_receive_packet\<close>, which returns a code and, when that is 0, the bytes of a packet.
\<close>

record 'a av_encoder =
  send_frame :: "int \<Rightarrow> vec3b mat \<Rightarrow> 'a \<Rightarrow> int \<times> 'a"
  receive_packet :: "'a \<Rightarrow> int \<times> cstring \<times> 'a"

record 'a VideoEncoder =
  frame_id :: int
  enc_context :: encoder_settings
  enc_frame :: "int \<times> int"              \<comment> \<open>height and width of the buffer\<close>
  enc_codec :: 'a

definition new_VideoEncoder :: "av_setup \<Rightarrow> 'a \<Rightarrow> int \<Rightarrow> int \<Rightarrow> int \<Rightarrow> exn + 'a VideoEncoder" where
  "new_VideoEncoder A codec fps height width =
     (case createEncodeContext A fps height width of
        Inl e \<Rightarrow> Inl e
      | Inr context \<Rightarrow>
          (case createFrame A context of
             Inl e \<Rightarrow> Inl e
           | Inr buffer \<Rightarrow> Inr \<lparr>frame_id = 1, enc_context = context, enc_frame = buffer, enc_codec = codec\<rparr>))"

definition AVERROR_EAGAIN :: int where
  "AVERROR_EAGAIN = -11"

definition frame_overrun :: exn where
  "frame_overrun = UndefinedBehaviour ''write past the frame buffer''"

text \<open>
  \<open>sws_scale\<close> is told the size of the image and writes that many rows and columns into the
  buffer of the frame, whatever the size of the latter.
\<close>

definition convertToAVFrame :: "vec3b mat \<Rightarrow> (exn, 'a VideoEncoder, unit) eff" where
  "convertToAVFrame img =
     bindE (gets enc_frame) (\<lambda>(height, width).
       if int (mat_rows img) > height \<or> int (mat_cols img) > width then throw frame_overrun else ret ())"

definition take_packet :: "'a av_encoder \<Rightarrow> (exn, 'a VideoEncoder, cstring) eff" where
  "take_packet V e =
     (let (r, bytes, st) = receive_packet V (enc_codec e)
      in (Inr (if r = 0 then bytes else []), e\<lparr>enc_codec := st\<rparr>))"

definition encode :: "'a av_encoder \<Rightarrow> vec3b mat \<Rightarrow> (exn, 'a VideoEncoder, cstring option) eff" where
  "encode V img =
     seqE (convertToAVFrame img)
    (\<lambda>e. let (r, st) = send_frame V (frame_id e) img (enc_codec e); e = e\<lparr>enc_codec := st\<rparr> in
       if r = 0
       then let e = e\<lparr>frame_id := frame_id e mod framerate_num (enc_context e) + 1\<rparr>
            in bindE (take_packet V) (\<lambda>bytes. ret (Some bytes)) e
       else if r = AVERROR_EAGAIN
       then bindE (take_packet V) (\<lambda>bytes. ret (Some bytes)) e
       else (Inr None, e))"

section \<open>Decoder\<close>

definition createDecodeContext :: "av_setup \<Rightarrow> exn + unit" where
  "createDecodeContext A =
     (if \<not> find_codec A then Inl (VideoDecoderException ''Could not find codec by given id.'')
      else if \<not> alloc_context A then Inl (VideoDecoderException ''Could not allocate avcodec context.'')
      else if open_codec A < 0
      then Inl (VideoDecoderException ''Could not initialize encode avcodec context.'')
      else case pix_fmt_bits A of
             None \<Rightarrow> Inl (VideoDecoderException ''Could not get descriptor for pixel format'')
           | Some bits \<Rightarrow>
               if bits \<noteq> 3 * 8 then Inl (VideoDecoderException ''Unhandled bits per pixel, bad in pix fmt.'')
               else Inr ())"

text \<open>A decoded picture, and \<open>sws_scale\<close> to \<open>BGR24\<close> at the same size.\<close>

record 'f av_frame =
  frame_width :: int
  frame_height :: int
  picture :: 'f

record ('d, 'f) av_decoder =
  send_packet :: "cstring \<Rightarrow> 'd \<Rightarrow> int \<times> 'd"
  receive_frame :: "'d \<Rightarrow> int \<times> 'f av_frame \<times> 'd"
  to_bgr24 :: "'f av_frame \<Rightarrow> vec3b list list"

definition avframeToCvmat :: "('d, 'f) av_decoder \<Rightarrow> 'f av_frame \<Rightarrow> vec3b mat" where
  "avframeToCvmat V frame =
     \<lparr>mat_rows = nat (frame_height frame), mat_cols = nat (frame_width frame), mat_data = to_bgr24 V frame\<rparr>"

definition empty_mat :: "'p mat" where
  "empty_mat = \<lparr>mat_rows = 0, mat_cols = 0, mat_data = []\<rparr>"

definition decode :: "('d, 'f) av_decoder \<Rightarrow> cstring \<Rightarrow> 'd \<Rightarrow> vec3b mat \<times> 'd" where
  "decode V packet d =
     (let (r, d) = send_packet V packet d;
          (recv_frame_ret, frame, d) = receive_frame V d
      in if recv_frame_ret = 0 then (avframeToCvmat V frame, d) else (empty_mat, d))"

section \<open>Time stamps\<close>

definition enc_fits :: "vec3b mat \<Rightarrow> 'a VideoEncoder \<Rightarrow> bool" where
  "enc_fits img e \<longleftrightarrow> int (mat_rows img) \<le> fst (enc_frame e) \<and> int (mat_cols img) \<le> snd (enc_frame e)"

lemma encode_keeps: "enc_frame (snd (encode V img e)) = enc_frame e \<and> enc_context (snd (encode V img e)) = enc_context e"
  by (auto simp: encode_def convertToAVFrame_def take_packet_def Let_def eff split: prod.splits)

lemma encode_no_overrun:
  "enc_fits img e \<Longrightarrow> \<exists>r. fst (encode V img e) = Inr r"
  by (auto simp: enc_fits_def encode_def convertToAVFrame_def take_packet_def Let_def eff split: prod.splits)

lemma encode_accepted:
  assumes "enc_fits img e" and "fst (send_frame V (frame_id e) img (enc_codec e)) = 0"
  shows "frame_id (snd (encode V img e)) = frame_id e mod framerate_num (enc_context e) + 1"
  using assms by (auto simp: enc_fits_def encode_def convertToAVFrame_def take_packet_def Let_def eff split: prod.splits)

text \<open>A sequence of images given to the encoder.\<close>

fun encode_all :: "'a av_encoder \<Rightarrow> vec3b mat list \<Rightarrow> (exn, 'a VideoEncoder, unit) eff" where
  "encode_all V [] = ret ()"
| "encode_all V (img # imgs) = bindE (encode V img) (\<lambda>_. encode_all V imgs)"

text \<open>
  Time stamps repeat. With an encoder that accepts every frame, the time stamp of the next
  frame after \<open>n\<close> frames is \<open>n mod fps + 1\<close>: it runs from 1 to \<open>fps\<close> and then starts again at 1, so
  the sequence the codec is given is not increasing.
\<close>

theorem time_stamps_cycle:
  assumes "new_VideoEncoder A codec fps height width = Inr e" and "1 \<le> fps"
    and accepts: "\<forall>pts img st. fst (send_frame V pts img st) = 0"
    and fits: "\<forall>img \<in> set imgs. int (mat_rows img) \<le> height \<and> int (mat_cols img) \<le> width"
  shows "fst (encode_all V imgs e) = Inr ()
    \<and> frame_id (snd (encode_all V imgs e)) = int (length imgs) mod fps + 1"
proof -
  have "fst (encode_all V imgs e) = Inr () \<and>
      frame_id (snd (encode_all V imgs e)) = (int n + int (length imgs)) mod fps + 1"
    if "frame_id e = int n mod fps + 1" "framerate_num (enc_context e) = fps" "enc_frame e = (height, width)"
      "\<forall>img \<in> set imgs. int (mat_rows img) \<le> height \<and> int (mat_cols img) \<le> width" for n e
    using that
  proof (induction imgs arbitrary: e n)
    case Nil
    then show ?case
      by (simp add: ret_def)
  next
    case (Cons img imgs)
    then have fit: "enc_fits img e"
      by (simp add: enc_fits_def)
    obtain r e' where enc: "encode V img e = (Inr r, e')"
      using encode_no_overrun [OF fit, of V] by (metis prod.collapse)
    have "frame_id e' = (int n mod fps + 1) mod fps + 1"
      using encode_accepted [OF fit, of V] accepts Cons.prems(1,2) enc by simp
    then have "frame_id e' = int (Suc n) mod fps + 1"
      by (simp add: mod_add_left_eq mod_add_right_eq add.commute)
    moreover have "framerate_num (enc_context e') = fps" "enc_frame e' = (height, width)"
      using encode_keeps [of V img e] enc Cons.prems(2,3) by simp_all
    ultimately show ?case
      using Cons.IH [of e' "Suc n"] Cons.prems(4) enc by (simp add: bindE_def add.assoc add.commute add.left_commute)
  qed
  from this [of e 0] show ?thesis
    using assms(1,2) fits
    by (auto simp: new_VideoEncoder_def createEncodeContext_def createFrame_def Let_def
      split: if_splits option.splits sum.splits)
qed

definition good_setup :: av_setup where
  "good_setup = \<lparr>find_codec = True, alloc_context = True, pix_fmt_bits = Some 24, open_codec = 0,
     alloc_frame = True, frame_get_buffer = 0, frame_make_writable = 0\<rparr>"

definition counting_encoder :: "nat av_encoder" where
  "counting_encoder = \<lparr>send_frame = (\<lambda>pts img n. (0, n + 1)), receive_packet = (\<lambda>n. (0, [of_nat n], n))\<rparr>"

lemma time_stamps_cycle_witness:
  "\<exists>e. new_VideoEncoder good_setup 0 30 4 4 = Inr e
     \<and> frame_id (snd (encode_all counting_encoder (replicate 30 empty_mat) e)) = 1"
proof -
  obtain e where e: "new_VideoEncoder good_setup (0 :: nat) 30 4 4 = Inr e"
    by (simp add: new_VideoEncoder_def createEncodeContext_def createFrame_def good_setup_def)
  have "\<forall>pts img st. fst (send_frame counting_encoder pts img st) = 0"
    "\<forall>img \<in> set (replicate 30 (empty_mat :: vec3b mat)). int (mat_rows img) \<le> 4 \<and> int (mat_cols img) \<le> 4"
    by (simp_all add: counting_encoder_def empty_mat_def)
  from time_stamps_cycle [OF e _ this] e show ?thesis
    by simp
qed

end
