(* ===== verification/Viewer.thy ===== *)
theory Viewer
  imports Client_Socket Mouse Keys_Mapping Video
begin

text \<open>
  The viewing side: \<open>include/ScreenViewerClient.hpp\<close> and \<open>src/ScreenViewerClient.cpp\<close>. One thread
  receives a message, shows the frame it may hold and then works off the pending input events.
  SDL is outside: its events come as a queue, its clock as a sequence of readings, the calls
  that draw are kept as a list. \<open>exit\<close> is the exception \<open>ExitProcess\<close>, which nothing catches.
\<close>

section \<open>State\<close>

text \<open>
  The events the code tells apart. A wheel event is read through \<open>event.button.x\<close>, the member
  of the union that overlays the vertical movement.
\<close>

datatype window_event = SDL_WINDOWEVENT_RESIZED | OtherWindowEvent

datatype sdl_event =
    SDL_MOUSEMOTION int int
  | SDL_MOUSEWHEEL int
  | SDL_MOUSEBUTTONDOWN byte int int
  | SDL_MOUSEBUTTONUP byte int int
  | SDL_KEYDOWN int32
  | SDL_KEYUP int32
  | SDL_WINDOWEVENT window_event int int
  | SDL_QUIT
  | OtherEvent

datatype sdl_call =
    SDL_RenderSetLogicalSize int int
  | SDL_UpdateTexture "vec3b mat"
  | SDL_RenderClear
  | SDL_RenderCopy
  | SDL_RenderPresent

text \<open>
  The sizes are \<open>int\<close>s that are only copied. \<open>last_pos_update\<close> is the static variable of the
  event loop, \<open>None\<close> until control first passes it; \<open>clock_reads\<close> counts the readings so far.
\<close>

record ('s, 'd) viewer =
  vw_socket :: "('s, unit) SocketBase"
  window_width :: int
  window_height :: int
  vw_frame_width :: int
  vw_frame_height :: int
  vw_texture :: "int \<times> int"
  vw_decoder :: 'd
  last_pos_update :: "int option"
  clock_reads :: nat
  event_queue :: "sdl_event list"
  sdl_calls :: "sdl_call list"

record ('s, 'd, 'f) viewer_deps =
  vd_asio :: "'s asio"
  vd_codec :: "('d, 'f) av_decoder"
  vd_clock :: "nat \<Rightarrow> int"
  vd_sdl_key :: "symbol \<Rightarrow> int32"
  vd_x11_key :: "symbol \<Rightarrow> int32"
  cv_resize :: "vec3b mat \<Rightarrow> int \<Rightarrow> int \<Rightarrow> vec3b mat"
  SDL_CreateWindow :: "int \<Rightarrow> int \<Rightarrow> bool"
  SDL_CreateRenderer :: bool
  SDL_CreateTexture :: "int \<Rightarrow> int \<Rightarrow> bool"
  SDL_GetError :: string

abbreviation on_vw_socket :: "(exn, ('s, unit) SocketBase, 'a) eff \<Rightarrow> (exn, ('s, 'd) viewer, 'a) eff" where
  "on_vw_socket \<equiv> zoom vw_socket (\<lambda>s v. v\<lparr>vw_socket := s\<rparr>)"

definition clock_now :: "('s, 'd, 'f) viewer_deps \<Rightarrow> (exn, ('s, 'd) viewer, int) eff" where
  "clock_now D v = (Inr (vd_clock D (clock_reads v)), v\<lparr>clock_reads := clock_reads v + 1\<rparr>)"

definition sdl_call :: "sdl_call \<Rightarrow> (exn, ('s, 'd) viewer, unit) eff" where
  "sdl_call c = modify (\<lambda>v. v\<lparr>sdl_calls := sdl_calls v @ [c]\<rparr>)"

section \<open>Construction\<close>

definition createWindow :: "('s, 'd, 'f) viewer_deps \<Rightarrow> int \<Rightarrow> int \<Rightarrow> exn + unit" where
  "createWindow D width height =
     (if SDL_CreateWindow D width height then Inr ()
      else Inl (VNCClientException (''Could not create window: '' @ SDL_GetError D)))"

definition createRenderer :: "('s, 'd, 'f) viewer_deps \<Rightarrow> exn + unit" where
  "createRenderer D =
     (if SDL_CreateRenderer D then Inr ()
      else Inl (VNCClientException (''Could not create renderer: '' @ SDL_GetError D)))"

definition createTexture :: "('s, 'd, 'f) viewer_deps \<Rightarrow> int \<Rightarrow> int \<Rightarrow> exn + int \<times> int" where
  "createTexture D width height =
     (if SDL_CreateTexture D width height then Inr (width, height)
      else Inl (VNCClientException (''Could not create texture: '' @ SDL_GetError D)))"

definition new_ScreenViewerClient ::
  "('s, 'd, 'f) viewer_deps \<Rightarrow> av_setup \<Rightarrow> 'd \<Rightarrow> ('s, unit) SocketBase \<Rightarrow> exn + ('s, 'd) viewer" where
  "new_ScreenViewerClient D A dec sock =
     (case createWindow D 800 600 of
        Inl e \<Rightarrow> Inl e
      | Inr _ \<Rightarrow> (case createRenderer D of
          Inl e \<Rightarrow> Inl e
        | Inr _ \<Rightarrow> (case createTexture D 800 600 of
            Inl e \<Rightarrow> Inl e
          | Inr texture \<Rightarrow> (case createDecodeContext A of
              Inl e \<Rightarrow> Inl e
            | Inr _ \<Rightarrow> Inr \<lparr>vw_socket = sock, window_width = 800, window_height = 600,
                vw_frame_width = 800, vw_frame_height = 600, vw_texture = texture, vw_decoder = dec,
                last_pos_update = None, clock_reads = 0, event_queue = [], sdl_calls = []\<rparr>))))"

section \<open>Input events\<close>

text \<open>
  \<open>v * extent / window\<close> on \<open>int\<close>s: a product or quotient out of range, or a window of size 0, has
  no meaning; the quotient is truncated towards zero.
\<close>

definition int_range :: "int \<Rightarrow> bool" where
  "int_range i \<longleftrightarrow> - (2 ^ 31) \<le> i \<and> i < 2 ^ 31"

definition scale_coordinate :: "int \<Rightarrow> int \<Rightarrow> int \<Rightarrow> exn + int32" where
  "scale_coordinate v extent window =
     (if \<not> int_range (v * extent) then Inl (UndefinedBehaviour ''signed overflow'')
      else if window = 0 then Inl (UndefinedBehaviour ''division by zero'')
      else if \<not> int_range (v * extent sdiv window) then Inl (UndefinedBehaviour ''signed overflow'')
      else Inr (word_of_int (v * extent sdiv window)))"

definition send_mouse :: "('s, 'd, 'f) viewer_deps \<Rightarrow> int32 \<Rightarrow> int32 \<Rightarrow> int32 \<Rightarrow> (exn, ('s, 'd) viewer, unit) eff" where
  "send_mouse D msk x y = on_vw_socket (send_data (vd_asio D) mouse_bytes MOUSE_INPUT
     \<lparr>button_mask = msk, mouse_x = x, mouse_y = y\<rparr>)"

text \<open>The static variable is set by the first motion event, before the comparison.\<close>

definition init_last_pos_update :: "('s, 'd, 'f) viewer_deps \<Rightarrow> (exn, ('s, 'd) viewer, int) eff" where
  "init_last_pos_update D v = (case last_pos_update v of
     Some t \<Rightarrow> (Inr t, v)
   | None \<Rightarrow> bindE (clock_now D) (\<lambda>t. seqE (modify (\<lambda>v. v\<lparr>last_pos_update := Some t\<rparr>)) (ret t)) v)"

definition handle_motion ::
  "('s, 'd, 'f) viewer_deps \<Rightarrow> int \<Rightarrow> int \<Rightarrow> int \<Rightarrow> (exn, ('s, 'd) viewer, unit) eff" where
  "handle_motion D interval mx my =
     bindE (init_last_pos_update D) (\<lambda>last.
     bindE (clock_now D) (\<lambda>t.
       if t - last > interval
       then bindE (gets id) (\<lambda>v.
            bindE (lift_sum (scale_coordinate mx (vw_frame_width v) (window_width v))) (\<lambda>x.
            bindE (lift_sum (scale_coordinate my (vw_frame_height v) (window_height v))) (\<lambda>y.
            seqE (send_mouse D MOVE x y)
           (bindE (clock_now D) (\<lambda>t'. modify (\<lambda>v. v\<lparr>last_pos_update := Some t'\<rparr>))))))
       else ret ()))"

definition handle_button ::
  "('s, 'd, 'f) viewer_deps \<Rightarrow> bool \<Rightarrow> byte \<Rightarrow> int \<Rightarrow> int \<Rightarrow> (exn, ('s, 'd) viewer, unit) eff" where
  "handle_button D pressed button bx by' =
     bindE (gets id) (\<lambda>v.
     bindE (lift_sum (scale_coordinate bx (vw_frame_width v) (window_width v))) (\<lambda>x.
     bindE (lift_sum (scale_coordinate by' (vw_frame_height v) (window_height v))) (\<lambda>y.
     bindE (lift_sum (convertToMask button)) (\<lambda>msk.
       send_mouse D (if pressed then setClicked msk else msk) x y))))"

definition handle_key :: "('s, 'd, 'f) viewer_deps \<Rightarrow> bool \<Rightarrow> int32 \<Rightarrow> (exn, ('s, 'd) viewer, unit) eff" where
  "handle_key D is_key_down code =
     on_vw_socket (send_data (vd_asio D) keyboard_bytes KEYBOARD_INPUT
       \<lparr>down = is_key_down, key = SDLKeySymToX11 (vd_sdl_key D) (vd_x11_key D) code\<rparr>)"

fun handle_event :: "('s, 'd, 'f) viewer_deps \<Rightarrow> int \<Rightarrow> sdl_event \<Rightarrow> (exn, ('s, 'd) viewer, unit) eff" where
  "handle_event D interval (SDL_MOUSEMOTION x y) = handle_motion D interval x y"
| "handle_event D interval (SDL_MOUSEWHEEL d) =
     send_mouse D (if d > 0 then SCROLL_UP_MASK else SCROLL_DOWN_MASK) 0 0"
| "handle_event D interval (SDL_MOUSEBUTTONDOWN button x y) = handle_button D True button x y"
| "handle_event D interval (SDL_MOUSEBUTTONUP button x y) = handle_button D False button x y"
| "handle_event D interval (SDL_KEYDOWN code) = handle_key D True code"
| "handle_event D interval (SDL_KEYUP code) = handle_key D False code"
| "handle_event D interval (SDL_WINDOWEVENT e data1 data2) =
     (if e = SDL_WINDOWEVENT_RESIZED
      then modify (\<lambda>v. v\<lparr>window_width := data1, window_height := data2\<rparr>) else ret ())"
| "handle_event D interval SDL_QUIT = throw (ExitProcess 1)"
| "handle_event D interval OtherEvent = ret ()"

text \<open>
  The condition of the loop polls an event before it looks at the clock. Durations are in
  nanoseconds.
\<close>

fun poll_loop :: "('s, 'd, 'f) viewer_deps \<Rightarrow> int \<Rightarrow> int \<Rightarrow> int \<Rightarrow> sdl_event list \<Rightarrow> (exn, ('s, 'd) viewer, unit) eff" where
  "poll_loop D start max_poll_time interval [] = ret ()"
| "poll_loop D start max_poll_time interval (e # es) =
     seqE (modify (\<lambda>v. v\<lparr>event_queue := es\<rparr>))
    (bindE (clock_now D) (\<lambda>t.
       if t - start < max_poll_time
       then seqE (handle_event D interval e) (poll_loop D start max_poll_time interval es)
       else ret ()))"

definition client_handleIOEvents :: "('s, 'd, 'f) viewer_deps \<Rightarrow> int \<Rightarrow> int \<Rightarrow> (exn, ('s, 'd) viewer, unit) eff" where
  "client_handleIOEvents D max_poll_time interval =
     bindE (clock_now D) (\<lambda>start v. poll_loop D start max_poll_time interval (event_queue v) v)"

section \<open>Frames\<close>

definition getNewFrame :: "('s, 'd, 'f) viewer_deps \<Rightarrow> Message \<Rightarrow> (exn, ('s, 'd) viewer, vec3b mat) eff" where
  "getNewFrame D msg =
     bindE (\<lambda>v. let (img, d) = decode (vd_codec D) (content msg) (vw_decoder v) in (Inr img, v\<lparr>vw_decoder := d\<rparr>))
       (\<lambda>decoded_image. bindE (gets id) (\<lambda>v.
          if \<not> mat_empty decoded_image
             \<and> (int (mat_rows decoded_image) \<noteq> vw_frame_height v \<or> int (mat_cols decoded_image) \<noteq> vw_frame_width v)
          then let height = int (mat_rows decoded_image); width = int (mat_cols decoded_image) in
               seqE (modify (\<lambda>v. v\<lparr>vw_frame_height := height, vw_frame_width := width\<rparr>))
              (bindE (lift_sum (createTexture D width height)) (\<lambda>texture.
               seqE (modify (\<lambda>v. v\<lparr>vw_texture := texture\<rparr>))
                    (ret (cv_resize D decoded_image width height))))
          else ret decoded_image))"

text \<open>\<open>SDL_UpdateTexture\<close> without a rectangle reads rows and columns for the whole texture.\<close>

definition texture_overrun :: exn where
  "texture_overrun = UndefinedBehaviour ''read past the image''"

definition update_texture :: "vec3b mat \<Rightarrow> (exn, ('s, 'd) viewer, unit) eff" where
  "update_texture img =
     bindE (gets vw_texture) (\<lambda>(width, height).
       if int (mat_rows img) < height \<or> int (mat_cols img) < width then throw texture_overrun
       else sdl_call (SDL_UpdateTexture img))"

definition show_frame :: "vec3b mat \<Rightarrow> (exn, ('s, 'd) viewer, unit) eff" where
  "show_frame resized_img =
     bindE (gets id) (\<lambda>v.
     seqE (sdl_call (SDL_RenderSetLogicalSize (window_width v) (window_height v)))
    (seqE (update_texture resized_img)
    (seqE (sdl_call SDL_RenderClear)
    (seqE (sdl_call SDL_RenderCopy)
          (sdl_call SDL_RenderPresent)))))"

section \<open>The loop\<close>

definition ns_per_millisecond :: int where
  "ns_per_millisecond = 1000000"

definition handle_message :: "('s, 'd, 'f) viewer_deps \<Rightarrow> Message \<Rightarrow> (exn, ('s, 'd) viewer, unit) eff" where
  "handle_message D msg =
     (if msg_type msg = SCREEN_UPDATE
      then bindE (getNewFrame D msg) (\<lambda>resized_img.
             if \<not> mat_empty resized_img then show_frame resized_img else ret ())
      else bindE (lift_sum (type_to_str_at (msg_type msg))) (\<lambda>name. ret ()))"

definition runLoop_body :: "('s, 'd, 'f) viewer_deps \<Rightarrow> (exn, ('s, 'd) viewer, unit) eff" where
  "runLoop_body D =
     bindE (on_vw_socket (receiveToBuffer (vd_asio D))) (\<lambda>msg.
     seqE (handle_message D msg)
          (client_handleIOEvents D (5 * ns_per_millisecond) (50 * ns_per_millisecond)))"

text \<open>\<open>arrivals i\<close> are the events that reach the queue before the \<open>i\<close>-th round.\<close>

partial_function (option) runLoop ::
  "('s, 'd, 'f) viewer_deps \<Rightarrow> (nat \<Rightarrow> sdl_event list) \<Rightarrow> nat \<Rightarrow> ('s, 'd) viewer
     \<Rightarrow> ((exn + unit) \<times> ('s, 'd) viewer) option" where
  "runLoop D arrivals i v =
     (case runLoop_body D (v\<lparr>event_queue := event_queue v @ arrivals i\<rparr>) of
        (Inl e, v') \<Rightarrow> Some (Inl e, v')
      | (Inr u, v') \<Rightarrow> runLoop D arrivals (Suc i) v')"

text \<open>\<open>run\<close> catches the exceptions of Boost only.\<close>

definition viewer_run ::
  "('s, 'd, 'f) viewer_deps \<Rightarrow> (nat \<Rightarrow> sdl_event list) \<Rightarrow> ('s, 'd) viewer \<Rightarrow> ((exn + unit) \<times> ('s, 'd) viewer) option" where
  "viewer_run D arrivals v = map_option (\<lambda>(r, v'). (case r of Inl (SystemError ec) \<Rightarrow> Inr () | _ \<Rightarrow> r, v'))
     (runLoop D arrivals 0 v)"

end
