(* ===== verification/Viewer_Safety.thy ===== *)
theory Viewer_Safety
  imports Viewer
begin

text \<open>
  What the viewer promises. The texture always has the size of the last frame, so no frame is
  read past its end; \<open>run\<close> ends with the connection and has then shown every frame that
  arrived; a round of the event loop handles the pending events in order, and loses the one it
  polls when the time is up.
\<close>

section \<open>The texture has the size of the frame\<close>

definition vw_inv :: "('s, 'd) viewer \<Rightarrow> bool" where
  "vw_inv v \<longleftrightarrow> vw_texture v = (vw_frame_width v, vw_frame_height v)"

text \<open>\<open>cv::resize\<close> to the size an image has copies it.\<close>

definition resize_copies :: "('s, 'd, 'f) viewer_deps \<Rightarrow> bool" where
  "resize_copies D \<longleftrightarrow> (\<forall>img. cv_resize D img (int (mat_cols img)) (int (mat_rows img)) = img)"

text \<open>The ways \<open>run\<close> can end other than by returning.\<close>

definition viewer_fault :: "exn \<Rightarrow> bool" where
  "viewer_fault e \<longleftrightarrow> e = ExitProcess 1 \<or> (\<exists>h. e = MessageHeaderException h) \<or> (\<exists>s. e = VNCClientException s)
     \<or> e \<in> UndefinedBehaviour ` {''signed overflow'', ''division by zero'', ''shift count''}"

definition viewer_error :: "exn \<Rightarrow> bool" where
  "viewer_error e \<longleftrightarrow> viewer_fault e \<or> (\<exists>ec. e = SystemError ec)"

lemma not_texture_overrun: "viewer_error e \<Longrightarrow> e \<noteq> texture_overrun"
  by (auto simp: viewer_error_def viewer_fault_def texture_overrun_def)

lemma asio_read_error: "asio_read ops n sb = (Inl e, sb') \<Longrightarrow> \<exists>ec. e = SystemError ec"
  by (auto simp: asio_read_def zoom_def split: prod.splits sum.splits)

lemma is_header_exceptionD: "is_header_exception e \<Longrightarrow> \<exists>h. e = MessageHeaderException h"
  by (cases e) auto

lemma receiveToBuffer_error:
  "receiveToBuffer ops sb = (Inl e, sb') \<Longrightarrow> (\<exists>ec. e = SystemError ec) \<or> (\<exists>h. e = MessageHeaderException h)"
  by (auto simp: receiveToBuffer_def bindE_Inl_iff lift_sum_def seqE_def modify_def gets_def
      dest: asio_read_error deserialize_error is_header_exceptionD)

text \<open>An operation that keeps the sizes and throws only what is listed above.\<close>

definition vw_safe :: "(exn, ('s, 'd) viewer, 'a) eff \<Rightarrow> bool" where
  "vw_safe m \<longleftrightarrow> valid vw_inv m (\<lambda>_. vw_inv) (\<lambda>e _. viewer_error e)"

named_theorems vw_safety "operations of the viewer that are safe"

lemma vw_safe_bindE [vw_safety]: "vw_safe m \<Longrightarrow> (\<And>a. vw_safe (f a)) \<Longrightarrow> vw_safe (bindE m f)"
  unfolding vw_safe_def by (rule valid_bindE)

lemma vw_safe_seqE [vw_safety]: "vw_safe m \<Longrightarrow> vw_safe k \<Longrightarrow> vw_safe (seqE m k)"
  unfolding vw_safe_def by (rule valid_seqE)

lemma vw_safe_simple [vw_safety]: "vw_safe (ret a)" "vw_safe (gets g)" "vw_safe (clock_now D)" "vw_safe (sdl_call c)"
  by (simp_all add: vw_safe_def valid_def ret_def gets_def clock_now_def sdl_call_def modify_def vw_inv_def)

lemma vw_safe_lift [vw_safety]: "(\<And>e. r = Inl e \<Longrightarrow> viewer_error e) \<Longrightarrow> vw_safe (lift_sum r)"
  by (auto simp: vw_safe_def intro: valid_lift_sum)

lemma vw_safe_if [vw_safety]: "(b \<Longrightarrow> vw_safe m) \<Longrightarrow> (\<not> b \<Longrightarrow> vw_safe k) \<Longrightarrow> vw_safe (if b then m else k)"
  by simp

lemma vw_safe_socket:
  "(\<And>sb e sb'. m sb = (Inl e, sb') \<Longrightarrow> viewer_error e) \<Longrightarrow> vw_safe (on_vw_socket m)"
  unfolding vw_safe_def by (rule validI) (auto simp: zoom_def vw_inv_def split: prod.splits)

lemma vw_safe_send [vw_safety]: "vw_safe (on_vw_socket (send_data ops bytes t x))"
  by (rule vw_safe_socket) (auto simp: send_data_def send_frames viewer_error_def dest: write_frames_error)

lemma vw_safe_receive [vw_safety]: "vw_safe (on_vw_socket (receiveToBuffer ops))"
  by (rule vw_safe_socket) (auto simp: viewer_error_def viewer_fault_def dest: receiveToBuffer_error)

lemma scale_coordinate_error: "scale_coordinate v n w = Inl e \<Longrightarrow> viewer_error e"
  by (auto simp: scale_coordinate_def viewer_error_def viewer_fault_def split: if_splits)

lemma convertToMask_error: "convertToMask b = Inl e \<Longrightarrow> viewer_error e"
  by (auto simp: convertToMask_def viewer_error_def viewer_fault_def split: if_splits)

lemma vw_safe_last [vw_safety]: "vw_safe (init_last_pos_update D)"
  by (simp add: vw_safe_def valid_def init_last_pos_update_def bindE_def clock_now_def seqE_def modify_def ret_def
      vw_inv_def split: option.split)

lemma vw_safe_stamp [vw_safety]: "vw_safe (modify (\<lambda>v. v\<lparr>last_pos_update := x\<rparr>))"
  "vw_safe (modify (\<lambda>v. v\<lparr>event_queue := es\<rparr>))" "vw_safe (modify (\<lambda>v. v\<lparr>window_width := a, window_height := b\<rparr>))"
  by (simp_all add: vw_safe_def valid_def modify_def vw_inv_def)

lemma vw_safe_event [vw_safety]: "vw_safe (handle_event D interval e)"
proof (cases e)
  case SDL_QUIT
  then show ?thesis
    by (simp add: vw_safe_def valid_def throw_def viewer_error_def viewer_fault_def)
qed (auto simp: handle_motion_def handle_button_def handle_key_def send_mouse_def
      intro!: vw_safety dest: scale_coordinate_error convertToMask_error)

lemma vw_safe_poll [vw_safety]: "vw_safe (poll_loop D start mx interval es)"
  by (induction es) (auto intro!: vw_safety)

lemma vw_safe_events [vw_safety]: "vw_safe (client_handleIOEvents D mx interval)"
proof -
  have "vw_safe (\<lambda>v. poll_loop D start mx interval (event_queue v) v)" for start
    using vw_safe_poll [of D start mx interval] by (simp add: vw_safe_def valid_def)
  then show ?thesis
    unfolding client_handleIOEvents_def by (intro vw_safety)
qed

text \<open>What \<open>getNewFrame\<close> returns is empty or of the size of the texture.\<close>

definition fits_texture :: "vec3b mat \<Rightarrow> ('s, 'd) viewer \<Rightarrow> bool" where
  "fits_texture img v \<longleftrightarrow> mat_empty img \<or> vw_texture v = (int (mat_cols img), int (mat_rows img))"

lemma getNewFrame_outcome:
  assumes "resize_copies D" and "vw_inv v"
  shows "getNewFrame D msg v =
    (let (img, d) = decode (vd_codec D) (content msg) (vw_decoder v);
         h = int (mat_rows img); w = int (mat_cols img); u = v\<lparr>vw_decoder := d\<rparr>
     in if mat_empty img \<or> (h = vw_frame_height v \<and> w = vw_frame_width v) then (Inr img, u)
        else (if SDL_CreateTexture D w h
              then (Inr img, u\<lparr>vw_frame_height := h, vw_frame_width := w, vw_texture := (w, h)\<rparr>)
              else (Inl (VNCClientException (''Could not create texture: '' @ SDL_GetError D)),
                    u\<lparr>vw_frame_height := h, vw_frame_width := w\<rparr>)))"
  using assms by (auto simp: getNewFrame_def resize_copies_def createTexture_def Let_def eff id_def split: prod.splits)

lemma getNewFrame_valid:
  assumes "resize_copies D"
  shows "valid vw_inv (getNewFrame D msg) (\<lambda>img v. vw_inv v \<and> fits_texture img v) (\<lambda>e _. viewer_error e)"
  unfolding valid_def
proof (intro allI impI)
  fix v :: "('a, 'b) viewer"
  assume inv: "vw_inv v"
  then show "case getNewFrame D msg v of (Inl e, t) \<Rightarrow> viewer_error e | (Inr img, t) \<Rightarrow> vw_inv t \<and> fits_texture img t"
    unfolding getNewFrame_outcome [OF assms inv]
    by (auto simp: Let_def vw_inv_def fits_texture_def viewer_error_def viewer_fault_def split: prod.split)
qed

lemma show_frame_outcome:
  assumes "fits_texture img v" and "\<not> mat_empty img"
  shows "show_frame img v = (Inr (), v\<lparr>sdl_calls := sdl_calls v @
    [SDL_RenderSetLogicalSize (window_width v) (window_height v), SDL_UpdateTexture img, SDL_RenderClear,
     SDL_RenderCopy, SDL_RenderPresent]\<rparr>)"
  using assms by (simp add: show_frame_def update_texture_def sdl_call_def fits_texture_def eff id_def)

lemma vw_safe_message [vw_safety]:
  assumes "resize_copies D"
  shows "vw_safe (handle_message D msg)"
proof -
  have shown: "valid (\<lambda>v. vw_inv v \<and> fits_texture img v) (if \<not> mat_empty img then show_frame img else ret ())
      (\<lambda>_. vw_inv) (\<lambda>e _. viewer_error e)" for img :: "vec3b mat"
    by (auto simp: valid_def show_frame_outcome vw_inv_def ret_def)
  show ?thesis
    unfolding handle_message_def vw_safe_def
    by (intro valid_if valid_bindE [OF getNewFrame_valid [OF assms] shown] valid_bindE [OF valid_lift_sum] valid_ret)
      auto
qed

lemma vw_safe_body: "resize_copies D \<Longrightarrow> vw_safe (runLoop_body D)"
  unfolding runLoop_body_def by (intro vw_safety)

lemma runLoop_safe:
  assumes "resize_copies D" and "runLoop D arrivals i v = Some (r, v')" and "vw_inv v"
  shows "\<exists>e. r = Inl e \<and> viewer_error e"
proof -
  have "resize_copies D \<longrightarrow> vw_inv v \<longrightarrow> (\<exists>e. fst y = Inl e \<and> viewer_error e)"
    if "runLoop D arrivals i v = Some y" for y
    using that
  proof (induction rule: runLoop.raw_induct [rotated, consumes 1, case_names round])
    case (round loop D arrivals i v y)
    show ?case
    proof (intro impI)
      assume resize: "resize_copies D" and "vw_inv v"
      let ?u = "v\<lparr>event_queue := event_queue v @ arrivals i\<rparr>"
      have inv: "vw_inv ?u" and safe: "vw_safe (runLoop_body D)"
        using \<open>vw_inv v\<close> resize by (simp_all add: vw_inv_def vw_safe_body)
      show "\<exists>e. fst y = Inl e \<and> viewer_error e"
      proof (cases "fst (runLoop_body D ?u)")
        case (Inl e)
        then have failed: "runLoop_body D ?u = (Inl e, snd (runLoop_body D ?u))"
          by (metis prod.collapse)
        with round.hyps have "y = (Inl e, snd (runLoop_body D ?u))"
          by (metis (mono_tags, lifting) case_prod_conv old.sum.simps(5) option.inject)
        moreover have "viewer_error e"
          by (rule validD(2) [OF safe [unfolded vw_safe_def] inv failed])
        ultimately show ?thesis
          by simp
      next
        case (Inr a)
        then have body: "runLoop_body D ?u = (Inr a, snd (runLoop_body D ?u))"
          by (metis prod.collapse)
        then have "loop D arrivals (Suc i) (snd (runLoop_body D ?u)) = Some y"
          using round.hyps by (simp split: prod.splits)
        moreover have "vw_inv (snd (runLoop_body D ?u))"
          by (rule validD(1) [OF safe [unfolded vw_safe_def] inv body])
        ultimately show ?thesis
          using round.IH resize by blast
      qed
    qed
  qed
  with assms show ?thesis
    by fastforce
qed

text \<open>
  C21. A viewer never reads past a picture, and has few ways to end. Whatever arrives and whatever
  the user does, when \<open>run\<close> of a constructed viewer comes to an end it has returned because the
  connection broke, or it has let through a refused header, a failure of SDL, \<open>exit(1)\<close>, or the
  arithmetic of a coordinate or a button that has no meaning; \<open>SDL_UpdateTexture\<close> was never
  given a picture smaller than the texture.
\<close>

theorem viewer_run_safe:
  assumes "resize_copies D" and "new_ScreenViewerClient D A dec sock = Inr v"
    and "viewer_run D arrivals v = Some (r, v')"
  shows "(r = Inr () \<or> (\<exists>e. r = Inl e \<and> viewer_fault e)) \<and> r \<noteq> Inl texture_overrun"
proof -
  have inv: "vw_inv v"
    using assms(2) by (auto simp: new_ScreenViewerClient_def createTexture_def vw_inv_def split: sum.splits if_splits)
  obtain q where "runLoop D arrivals 0 v = Some (q, v')"
    and r: "r = (case q of Inl (SystemError ec) \<Rightarrow> Inr () | _ \<Rightarrow> q)"
    using assms(3) by (auto simp: viewer_run_def)
  from runLoop_safe [OF assms(1) this(1) inv] obtain e where e: "q = Inl e" "viewer_error e"
    by blast
  have "r = Inr () \<or> (\<exists>e. r = Inl e \<and> viewer_fault e)"
    using r e by (auto simp: viewer_error_def viewer_fault_def)
  then show ?thesis
    by (auto simp: viewer_fault_def texture_overrun_def)
qed

text \<open>A decoder whose packets are pictures of one row, and a viewer on an in-memory stream.\<close>

definition row_decoder :: "(cstring, cstring) av_decoder" where
  "row_decoder = \<lparr>send_packet = (\<lambda>p d. (0, p)),
     receive_frame = (\<lambda>d. (if d = [] then -11 else 0, \<lparr>frame_width = int (length d), frame_height = 1, picture = d\<rparr>, d)),
     to_bgr24 = (\<lambda>f. [map (\<lambda>b. (b, b, b)) (picture f)])\<rparr>"

definition row_deps :: "(pipe, cstring, cstring) viewer_deps" where
  "row_deps = \<lparr>vd_asio = pipe_ops, vd_codec = row_decoder, vd_clock = int, vd_sdl_key = row_number,
     vd_x11_key = row_number, cv_resize = (\<lambda>img w h. img), SDL_CreateWindow = (\<lambda>w h. True),
     SDL_CreateRenderer = True, SDL_CreateTexture = (\<lambda>w h. True), SDL_GetError = []\<rparr>"

definition row_viewer :: "byte list \<Rightarrow> (pipe, cstring) viewer" where
  "row_viewer bs = \<lparr>vw_socket = new_SocketBase \<lparr>incoming = bs, outgoing = [], opened = True\<rparr>, window_width = 800,
     window_height = 600, vw_frame_width = 800, vw_frame_height = 600, vw_texture = (800, 600), vw_decoder = [],
     last_pos_update = None, clock_reads = 0, event_queue = [], sdl_calls = []\<rparr>"

lemma row_viewer_new:
  "new_ScreenViewerClient row_deps good_setup [] (new_SocketBase \<lparr>incoming = bs, outgoing = [], opened = True\<rparr>)
     = Inr (row_viewer bs)"
  by (simp add: new_ScreenViewerClient_def createWindow_def createRenderer_def createTexture_def row_deps_def
    createDecodeContext_def good_setup_def row_viewer_def)

lemma row_resize: "resize_copies row_deps"
  by (simp add: resize_copies_def row_deps_def)

section \<open>Every frame is shown, and the loop ends with the connection\<close>

text \<open>The pictures in a sequence of packets, and the pictures given to SDL.\<close>

fun decode_all :: "('d, 'f) av_decoder \<Rightarrow> 'd \<Rightarrow> cstring list \<Rightarrow> vec3b mat list" where
  "decode_all V d [] = []"
| "decode_all V d (c # cs) = fst (decode V c d) # decode_all V (snd (decode V c d)) cs"

fun uploaded :: "sdl_call list \<Rightarrow> vec3b mat list" where
  "uploaded [] = []"
| "uploaded (SDL_UpdateTexture img # cs) = img # uploaded cs"
| "uploaded (c # cs) = uploaded cs"

lemma uploaded_append: "uploaded (cs @ ds) = uploaded cs @ uploaded ds"
  by (induction cs rule: uploaded.induct) simp_all

definition updates :: "(MessageType \<times> cstring) list \<Rightarrow> cstring list" where
  "updates ms = map snd (filter (\<lambda>m. fst m = SCREEN_UPDATE) ms)"

definition pictures :: "('s, 'd, 'f) viewer_deps \<Rightarrow> 'd \<Rightarrow> (MessageType \<times> cstring) list \<Rightarrow> vec3b mat list" where
  "pictures D d ms = filter (\<lambda>img. \<not> mat_empty img) (decode_all (vd_codec D) d (updates ms))"

lemma handle_message_result:
  assumes "resize_copies D" and "vw_inv v" and "\<And>w h. SDL_CreateTexture D w h"
  shows "\<exists>v'. handle_message D \<lparr>msg_type = t, content = c\<rparr> v = (Inr (), v') \<and> vw_inv v' \<and> vw_socket v' = vw_socket v
    \<and> event_queue v' = event_queue v \<and> uploaded (sdl_calls v') = uploaded (sdl_calls v) @ pictures D (vw_decoder v) [(t, c)]
    \<and> vw_decoder v' = (if t = SCREEN_UPDATE then snd (decode (vd_codec D) c (vw_decoder v)) else vw_decoder v)"
proof (cases "t = SCREEN_UPDATE")
  case False
  then show ?thesis
    using assms(2) by (auto simp: handle_message_def pictures_def updates_def eff)
next
  case True
  let ?m = "\<lparr>msg_type = t, content = c\<rparr>" and ?img = "fst (decode (vd_codec D) c (vw_decoder v))"
  obtain u where u: "getNewFrame D ?m v = (Inr ?img, u)" "vw_socket u = vw_socket v" "event_queue u = event_queue v"
    "sdl_calls u = sdl_calls v" "vw_decoder u = snd (decode (vd_codec D) c (vw_decoder v))"
    using getNewFrame_outcome [OF assms(1,2), of ?m] assms(3)
    by (cases "decode (vd_codec D) c (vw_decoder v)") (auto simp: Let_def split: if_splits)
  have inv: "vw_inv u" and fits: "fits_texture ?img u"
    using validD(1) [OF getNewFrame_valid [OF assms(1)] assms(2) u(1)] by simp_all
  show ?thesis
  proof (cases "mat_empty ?img")
    case empty: True
    then have "handle_message D ?m v = (Inr (), u)"
      using True u(1) by (simp add: handle_message_def bindE_def ret_def)
    with True empty inv u show ?thesis
      by (simp add: pictures_def updates_def)
  next
    case shown: False
    then have "handle_message D ?m v = show_frame ?img u"
      using True u(1) by (simp add: handle_message_def bindE_def)
    with True shown inv u show_frame_outcome [OF fits shown] show ?thesis
      by (simp add: pictures_def updates_def uploaded_append vw_inv_def)
  qed
qed

lemma idle_events:
  "event_queue v = [] \<Longrightarrow> client_handleIOEvents D mx interval v = (Inr (), v\<lparr>clock_reads := clock_reads v + 1\<rparr>)"
  by (simp add: client_handleIOEvents_def bindE_def clock_now_def ret_def)

text \<open>A viewer without pending input on a stream in working order, with \<open>bs\<close> still to be read.\<close>

definition watching :: "('s \<Rightarrow> byte list) \<Rightarrow> ('s \<Rightarrow> bool) \<Rightarrow> byte list \<Rightarrow> ('s, 'd) viewer \<Rightarrow> bool" where
  "watching avail live bs v \<longleftrightarrow> vw_inv v \<and> event_queue v = [] \<and> live (socket (vw_socket v))
     \<and> avail (socket (vw_socket v)) = bs"

lemma runLoop_round:
  assumes "stream_contract (vd_asio D) sent avail live" and "resize_copies D" and "\<And>w h. SDL_CreateTexture D w h"
    and "watching avail live (frame t c @ rest) v" and "length c \<le> BUFFER_SIZE"
  shows "\<exists>v'. runLoop D (\<lambda>_. []) i v = runLoop D (\<lambda>_. []) (Suc i) v' \<and> watching avail live rest v'
    \<and> uploaded (sdl_calls v') = uploaded (sdl_calls v) @ pictures D (vw_decoder v) [(t, c)]
    \<and> vw_decoder v' = (if t = SCREEN_UPDATE then snd (decode (vd_codec D) c (vw_decoder v)) else vw_decoder v)"
proof -
  have v: "live (socket (vw_socket v))" "avail (socket (vw_socket v)) = frame t c @ rest" "vw_inv v" "event_queue v = []"
    using assms(4) by (simp_all add: watching_def)
  obtain s where s: "receiveToBuffer (vd_asio D) (vw_socket v) = (Inr \<lparr>msg_type = t, content = c\<rparr>,
      (vw_socket v)\<lparr>socket := s, data_buffer := overwrite (data_buffer (vw_socket v)) c\<rparr>)" "live s" "avail s = rest"
    by (rule receiveToBuffer_live [OF assms(1) v(1,2) assms(5)])
  let ?u = "v\<lparr>vw_socket := (vw_socket v)\<lparr>socket := s, data_buffer := overwrite (data_buffer (vw_socket v)) c\<rparr>\<rparr>"
  have "vw_inv ?u"
    using v(3) by (simp add: vw_inv_def)
  from handle_message_result [OF assms(2) this assms(3), of t c] obtain w where
    w: "handle_message D \<lparr>msg_type = t, content = c\<rparr> ?u = (Inr (), w)" "vw_inv w" "vw_socket w = vw_socket ?u"
      "event_queue w = []" "uploaded (sdl_calls w) = uploaded (sdl_calls v) @ pictures D (vw_decoder v) [(t, c)]"
      "vw_decoder w = (if t = SCREEN_UPDATE then snd (decode (vd_codec D) c (vw_decoder v)) else vw_decoder v)"
    using v(4) by auto
  let ?x = "w\<lparr>clock_reads := clock_reads w + 1\<rparr>"
  have "runLoop_body D v = (Inr (), ?x)"
    using s(1) w(1) idle_events [OF w(4)] by (simp add: runLoop_body_def bindE_def seqE_def zoom_def)
  then have "runLoop D (\<lambda>_. []) i v = runLoop D (\<lambda>_. []) (Suc i) ?x"
    by (subst runLoop.simps) simp
  moreover have "watching avail live rest ?x"
    using w(2-4) s(2,3) by (simp add: watching_def vw_inv_def)
  ultimately show ?thesis
    using w(5,6) by (intro exI [of _ ?x]) simp
qed

lemma pictures_Cons: "pictures D d ((t, c) # ms) = pictures D d [(t, c)]
    @ pictures D (if t = SCREEN_UPDATE then snd (decode (vd_codec D) c d) else d) ms"
  by (simp add: pictures_def updates_def)

lemma runLoop_ends:
  assumes "stream_contract (vd_asio D) sent avail live" and "resize_copies D" and "\<forall>w h. SDL_CreateTexture D w h"
    and closed: "\<forall>s. live s \<and> avail s = [] \<longrightarrow> (\<exists>ec t. op_read (vd_asio D) sizeof_MessageHeader s = (Inl ec, t))"
    and "watching avail live (message_stream ms) v" and "\<forall>(t, c) \<in> set ms. length c \<le> BUFFER_SIZE"
  shows "\<exists>v' ec. runLoop D (\<lambda>_. []) i v = Some (Inl (SystemError ec), v')
    \<and> uploaded (sdl_calls v') = uploaded (sdl_calls v) @ pictures D (vw_decoder v) ms"
  using assms(5,6)
proof (induction ms arbitrary: v i)
  case Nil
  then have v: "live (socket (vw_socket v))" "avail (socket (vw_socket v)) = []" "event_queue v = []"
    by (simp_all add: watching_def message_stream_def)
  then obtain ec s where "op_read (vd_asio D) sizeof_MessageHeader (socket (vw_socket v)) = (Inl ec, s)"
    using closed by blast
  then have "runLoop_body D v = (Inl (SystemError ec), v\<lparr>vw_socket := (vw_socket v)\<lparr>socket := s\<rparr>\<rparr>)"
    by (simp add: runLoop_body_def receiveToBuffer_def bindE_def zoom_def asio_read_def)
  then have "runLoop D (\<lambda>_. []) i v = Some (Inl (SystemError ec), v\<lparr>vw_socket := (vw_socket v)\<lparr>socket := s\<rparr>\<rparr>)"
    by (subst runLoop.simps) simp
  then show ?case
    by (simp add: pictures_def updates_def)
next
  case (Cons m ms)
  obtain t c where m: "m = (t, c)"
    by fastforce
  have front: "watching avail live (frame t c @ message_stream ms) v" and c: "length c \<le> BUFFER_SIZE"
    and rest: "\<forall>(t, c) \<in> set ms. length c \<le> BUFFER_SIZE"
    using Cons.prems m by (simp_all add: message_stream_def)
  obtain u where u: "runLoop D (\<lambda>_. []) i v = runLoop D (\<lambda>_. []) (Suc i) u" "watching avail live (message_stream ms) u"
    "uploaded (sdl_calls u) = uploaded (sdl_calls v) @ pictures D (vw_decoder v) [(t, c)]"
    "vw_decoder u = (if t = SCREEN_UPDATE then snd (decode (vd_codec D) c (vw_decoder v)) else vw_decoder v)"
    using runLoop_round [OF assms(1,2) _ front c] assms(3) by blast
  from Cons.IH [OF u(2) rest, of "Suc i"] obtain v' ec where
    ih: "runLoop D (\<lambda>_. []) (Suc i) u = Some (Inl (SystemError ec), v')"
      "uploaded (sdl_calls v') = uploaded (sdl_calls u) @ pictures D (vw_decoder u) ms"
    by blast
  have "uploaded (sdl_calls v') = uploaded (sdl_calls v) @ pictures D (vw_decoder v) (m # ms)"
    by (simp only: m pictures_Cons [of D "vw_decoder v" t c ms] ih(2) u(3,4) append_assoc)
  with u(1) ih(1) show ?case
    by (intro exI [of _ v'] exI [of _ ec]) simp
qed

text \<open>
  The viewer's loop ends with the connection, and nothing is lost before. On a working stream on
  which the peer has sent any messages that each fit one frame, and closed: \<open>run\<close> returns, and
  SDL was given the picture of every \<open>SCREEN_UPDATE\<close> whose packet decoded to one, in the order of
  arrival, each unchanged, and no other; messages of other types have no effect on it.
\<close>

theorem viewer_shows_every_frame:
  assumes "stream_contract (vd_asio D) sent avail live" and "resize_copies D" and "\<forall>w h. SDL_CreateTexture D w h"
    and closed: "\<forall>s. live s \<and> avail s = [] \<longrightarrow> (\<exists>ec t. op_read (vd_asio D) sizeof_MessageHeader s = (Inl ec, t))"
    and "watching avail live (message_stream ms) v" and "\<forall>(t, c) \<in> set ms. length c \<le> BUFFER_SIZE"
  shows "\<exists>v'. viewer_run D (\<lambda>_. []) v = Some (Inr (), v')
    \<and> uploaded (sdl_calls v') = uploaded (sdl_calls v) @ pictures D (vw_decoder v) ms"
  using runLoop_ends [OF assms, of 0] by (auto simp: viewer_run_def)

lemma viewer_shows_every_frame_witness:
  "\<exists>v'. viewer_run row_deps (\<lambda>_. []) (row_viewer (message_stream [(SCREEN_UPDATE, [7, 8]), (ACK, [])])) = Some (Inr (), v')
     \<and> uploaded (sdl_calls v') = [\<lparr>mat_rows = 1, mat_cols = 2, mat_data = [[(7, 7, 7), (8, 8, 8)]]\<rparr>]"
proof -
  let ?ms = "[(SCREEN_UPDATE, [7, 8]), (ACK, [])]" and ?v = "row_viewer (message_stream [(SCREEN_UPDATE, [7, 8]), (ACK, [])])"
  have "stream_contract (vd_asio row_deps) outgoing incoming opened"
    using pipe_contract by (simp add: row_deps_def)
  moreover have "\<forall>w h. SDL_CreateTexture row_deps w h"
    by (simp add: row_deps_def)
  moreover have "\<forall>s. opened s \<and> incoming s = [] \<longrightarrow>
      (\<exists>ec t. op_read (vd_asio row_deps) sizeof_MessageHeader s = (Inl ec, t))"
    by (simp add: row_deps_def sizeof_MessageHeader_def)
  moreover have "watching incoming opened (message_stream ?ms) ?v"
    by (simp add: watching_def row_viewer_def new_SocketBase_def vw_inv_def)
  moreover have "\<forall>(t, c) \<in> set ?ms. length c \<le> BUFFER_SIZE"
    by (simp add: BUFFER_SIZE_def)
  ultimately obtain v' where "viewer_run row_deps (\<lambda>_. []) ?v = Some (Inr (), v')"
    "uploaded (sdl_calls v') = uploaded (sdl_calls ?v) @ pictures row_deps (vw_decoder ?v) ?ms"
    using viewer_shows_every_frame [OF _ row_resize] by blast
  then show ?thesis
    by (simp add: row_viewer_def pictures_def updates_def row_deps_def decode_def row_decoder_def avframeToCvmat_def mat_empty_def)
qed

lemma viewer_run_safe_witness:
  "\<exists>r v'. viewer_run row_deps (\<lambda>_. []) (row_viewer []) = Some (r, v') \<and> r \<noteq> Inl texture_overrun"
proof -
  have "runLoop_body row_deps (row_viewer []) = (Inl (SystemError 2), row_viewer [])"
    by (simp add: runLoop_body_def receiveToBuffer_def bindE_def zoom_def asio_read_def row_deps_def row_viewer_def
      new_SocketBase_def sizeof_MessageHeader_def)
  then have "runLoop row_deps (\<lambda>_. []) 0 (row_viewer []) = Some (Inl (SystemError 2), row_viewer [])"
    by (subst runLoop.simps) (simp add: row_viewer_def)
  then have run: "viewer_run row_deps (\<lambda>_. []) (row_viewer []) = Some (Inr (), row_viewer [])"
    by (simp add: viewer_run_def)
  from viewer_run_safe [OF row_resize row_viewer_new run] run show ?thesis
    by blast
qed

end
