(* ===== verification/Viewer_Input.thy ===== *)
theory Viewer_Input
  imports Viewer_Safety
begin

text \<open>
  The input side of the viewer: coordinates stay on the picture, events are handled in order,
  and what the time limit of a round does to them.
\<close>

section \<open>Coordinates\<close>

lemma scale_coordinate_inside:
  assumes "0 \<le> v" and "v < window" and "0 < extent" and "window * extent \<le> 2 ^ 31"
  shows "scale_coordinate v extent window = Inr (word_of_int (v * extent div window))"
    and "0 \<le> v * extent div window" and "v * extent div window < extent"
    and "sint (word_of_int (v * extent div window) :: int32) = v * extent div window"
proof -
  have w: "0 < window"
    using assms(1,2) by simp
  have "v * extent < window * extent"
    using assms(2,3) by simp
  then have product: "0 \<le> v * extent" "v * extent < 2 ^ 31"
    using assms(1,3) order_less_le_trans [OF _ assms(4)] by simp_all
  have "v * extent div window * window = v * extent - v * extent mod window"
    by (rule minus_mod_eq_div_mult [symmetric])
  also have "\<dots> < extent * window"
    using \<open>v * extent < window * extent\<close> pos_mod_sign [OF w, of "v * extent"] by (simp add: mult.commute)
  finally have quotient: "v * extent div window < extent"
    using w by simp
  have sdiv: "v * extent sdiv window = v * extent div window"
  proof -
    have "k sdiv window = k div window" if "0 \<le> k" for k
      using that w by (cases "k = 0") (simp_all add: signed_divide_int_def)
    with product(1) show ?thesis
      by blast
  qed
  have nonneg: "0 \<le> v * extent div window"
    using product(1) w by (simp add: pos_imp_zdiv_nonneg_iff)
  then show "0 \<le> v * extent div window" and "v * extent div window < extent"
    using quotient by simp_all
  have "1 * extent \<le> window * extent"
    using assms(3) w by (intro mult_right_mono) simp_all
  with quotient assms(4) have "v * extent div window < 2 ^ 31"
    by simp
  then have range: "int_range (v * extent div window)"
    using nonneg by (simp add: int_range_def)
  with product w show "scale_coordinate v extent window = Inr (word_of_int (v * extent div window))"
    by (simp add: scale_coordinate_def sdiv int_range_def)
  from range show "sint (word_of_int (v * extent div window) :: int32) = v * extent div window"
    by (simp add: int_range_def int_word_sint)
qed

section \<open>Handling an event does not depend on the events behind it\<close>

definition queue_free :: "(exn, ('s, 'd) viewer, 'a) eff \<Rightarrow> bool" where
  "queue_free m \<longleftrightarrow> (\<forall>v q. m (v\<lparr>event_queue := q\<rparr>) = (fst (m v), (snd (m v))\<lparr>event_queue := q\<rparr>))"

named_theorems queue_frees "operations that do not look at the queue of events"

lemma queue_free_bindE [queue_frees]: "queue_free m \<Longrightarrow> (\<And>a. queue_free (f a)) \<Longrightarrow> queue_free (bindE m f)"
  by (auto simp: queue_free_def bindE_def split: prod.splits sum.splits)

lemma queue_free_seqE [queue_frees]: "queue_free m \<Longrightarrow> queue_free k \<Longrightarrow> queue_free (seqE m k)"
  by (simp add: seqE_def queue_free_bindE)

lemma queue_free_gets [queue_frees]:
  "(\<And>v. queue_free (f v)) \<Longrightarrow> (\<And>v q. f (v\<lparr>event_queue := q\<rparr>) = f v) \<Longrightarrow> queue_free (bindE (gets id) f)"
  by (simp add: queue_free_def bindE_def gets_def)

lemma queue_free_simple [queue_frees]:
  "queue_free (ret a)" "queue_free (throw e)" "queue_free (lift_sum r)" "queue_free (clock_now D)"
  "queue_free (modify (\<lambda>v. v\<lparr>last_pos_update := x\<rparr>))" "queue_free (modify (\<lambda>v. v\<lparr>window_width := i, window_height := j\<rparr>))"
  by (simp_all add: queue_free_def ret_def throw_def lift_sum_def clock_now_def modify_def)

lemma queue_free_if [queue_frees]: "queue_free m \<Longrightarrow> queue_free k \<Longrightarrow> queue_free (if b then m else k)"
  by simp

lemma queue_free_socket [queue_frees]: "queue_free (on_vw_socket m)"
  by (simp add: queue_free_def zoom_def split: prod.splits)

lemma queue_free_last [queue_frees]: "queue_free (init_last_pos_update D)"
  by (simp add: queue_free_def init_last_pos_update_def bindE_def clock_now_def seqE_def modify_def ret_def split: option.split)

lemma queue_free_event [queue_frees]: "queue_free (handle_event D interval e)"
  by (cases e) (auto simp: handle_motion_def handle_button_def handle_key_def send_mouse_def intro!: queue_frees)

text \<open>The reference: events handled one after the other, the clock read before each.\<close>

fun handle_events :: "('s, 'd, 'f) viewer_deps \<Rightarrow> int \<Rightarrow> sdl_event list \<Rightarrow> (exn, ('s, 'd) viewer, unit) eff" where
  "handle_events D interval [] = ret ()"
| "handle_events D interval (e # es) =
     seqE (bindE (clock_now D) (\<lambda>t. handle_event D interval e)) (handle_events D interval es)"

text \<open>How a round ends that handled \<open>handled\<close> of the events \<open>es\<close> and so reached \<open>r\<close> and \<open>u\<close>.\<close>

definition round_result ::
  "('s, 'd, 'f) viewer_deps \<Rightarrow> int \<Rightarrow> sdl_event list \<Rightarrow> sdl_event list \<Rightarrow> exn + unit \<Rightarrow> ('s, 'd) viewer
     \<Rightarrow> (exn + unit) \<times> ('s, 'd) viewer \<Rightarrow> bool" where
  "round_result D time_up es handled r u result \<longleftrightarrow>
     (es = handled \<and> result = (r, u\<lparr>event_queue := []\<rparr>))
   \<or> (\<exists>rest e. es = handled @ rest \<and> r = Inl e \<and> result = (r, u\<lparr>event_queue := rest\<rparr>))
   \<or> (\<exists>lost rest. es = handled @ lost # rest \<and> r = Inr () \<and> time_up \<le> vd_clock D (clock_reads u)
        \<and> result = (Inr (), u\<lparr>clock_reads := clock_reads u + 1, event_queue := rest\<rparr>))"

lemma poll_loop_round:
  assumes "event_queue v = es"
  shows "\<exists>handled. round_result D (start + mx) es handled (fst (handle_events D interval handled v))
    (snd (handle_events D interval handled v)) (poll_loop D start mx interval es v)"
  using assms
proof (induction es arbitrary: v)
  case Nil
  then show ?case
    by (intro exI [of _ "[]"]) (simp add: round_result_def ret_def)
next
  case (Cons e es)
  let ?w = "v\<lparr>event_queue := es, clock_reads := clock_reads v + 1\<rparr>" and ?u = "v\<lparr>clock_reads := clock_reads v + 1\<rparr>"
  show ?case
  proof (cases "vd_clock D (clock_reads v) - start < mx")
    case False
    then have "poll_loop D start mx interval (e # es) v = (Inr (), v\<lparr>clock_reads := clock_reads v + 1, event_queue := es\<rparr>)"
      by (simp add: seqE_def bindE_def modify_def clock_now_def ret_def)
    with False show ?thesis
      by (intro exI [of _ "[]"]) (simp add: round_result_def ret_def)
  next
    case True
    obtain r x where step: "handle_event D interval e ?u = (r, x)"
      by fastforce
    have "handle_event D interval e ?w = (r, x\<lparr>event_queue := es\<rparr>)"
    proof -
      have "handle_event D interval e (?u\<lparr>event_queue := es\<rparr>)
          = (fst (handle_event D interval e ?u), (snd (handle_event D interval e ?u))\<lparr>event_queue := es\<rparr>)"
        using queue_free_event [of D interval e] unfolding queue_free_def by blast
      moreover have "?u\<lparr>event_queue := es\<rparr> = ?w"
        by (cases v) simp
      ultimately show ?thesis
        unfolding step by (simp only: fst_conv snd_conv)
    qed
    with True have run: "poll_loop D start mx interval (e # es) v
        = (case r of Inl a \<Rightarrow> (Inl a, x\<lparr>event_queue := es\<rparr>) | Inr b \<Rightarrow> poll_loop D start mx interval es (x\<lparr>event_queue := es\<rparr>))"
      by (simp add: seqE_def bindE_def modify_def clock_now_def split: sum.split)
    have first: "handle_events D interval (e # hs) v
        = (case r of Inl a \<Rightarrow> (Inl a, x) | Inr b \<Rightarrow> handle_events D interval hs x)" for hs
      using step by (simp add: seqE_def bindE_def clock_now_def split: sum.split)
    show ?thesis
    proof (cases r)
      case (Inl a)
      with run first [of "[]"] show ?thesis
        by (intro exI [of _ "[e]"]) (auto simp: round_result_def)
    next
      case (Inr b)
      obtain hs where "round_result D (start + mx) es hs (fst (handle_events D interval hs (x\<lparr>event_queue := es\<rparr>)))
          (snd (handle_events D interval hs (x\<lparr>event_queue := es\<rparr>))) (poll_loop D start mx interval es (x\<lparr>event_queue := es\<rparr>))"
        using Cons.IH [of "x\<lparr>event_queue := es\<rparr>"] by auto
      moreover have "queue_free (handle_events D interval hs)" for hs
        by (induction hs) (auto intro!: queue_frees)
      ultimately have "round_result D (start + mx) es hs (fst (handle_events D interval hs x))
          (snd (handle_events D interval hs x)) (poll_loop D start mx interval es (x\<lparr>event_queue := es\<rparr>))"
        by (simp add: queue_free_def round_result_def)
      with Inr run first [of hs] show ?thesis
        by (intro exI [of _ "e # hs"]) (simp add: round_result_def)
    qed
  qed
qed

text \<open>
  C28. A round of the event loop refines the handling of events in their order. It is the handling
  of some first events of the queue, one after the other: all of them, or up to the first that
  throws, or up to the time limit. In the last case one event has left the queue that was not
  handled: the loop polls it before it looks at the clock, so it is lost, whatever it is.
\<close>

theorem round_handles_prefix:
  "\<exists>handled. let v0 = v\<lparr>clock_reads := clock_reads v + 1\<rparr>; (r, u) = handle_events D interval handled v0
     in round_result D (vd_clock D (clock_reads v) + max_poll_time) (event_queue v) handled r u
          (client_handleIOEvents D max_poll_time interval v)"
proof -
  have "client_handleIOEvents D max_poll_time interval v
      = poll_loop D (vd_clock D (clock_reads v)) max_poll_time interval (event_queue v) (v\<lparr>clock_reads := clock_reads v + 1\<rparr>)"
    by (simp add: client_handleIOEvents_def bindE_def clock_now_def)
  with poll_loop_round [of "v\<lparr>clock_reads := clock_reads v + 1\<rparr>" "event_queue v" D "vd_clock D (clock_reads v)"]
  show ?thesis
    by (simp add: case_prod_unfold Let_def)
qed

end
