(* ===== verification/X11_Controller.thy ===== *)
theory X11_Controller
  imports IO_Controller Mouse
begin

text \<open>
  The X11 implementation of the interface: \<open>include/streamer/X11IOController.hpp\<close> and
  \<open>src/streamer/X11IOController.cpp\<close>. The requests sent to the X server are kept as a list;
  what the server answers (key codes, the screen, the cursor) is an argument. Fields of
  \<open>XineramaScreenInfo\<close> and \<open>XFixesCursorImage\<close> are shorts and never overflow an \<open>int\<close>.
\<close>

section \<open>State\<close>

datatype x_request =
    XTestFakeKeyEvent byte bool
  | XTestFakeMotionEvent int32 int32
  | XTestFakeButtonEvent int32 bool
  | XFlush

record XineramaScreenInfo =
  x_org :: int
  y_org :: int
  screen_width :: int
  screen_height :: int

record XFixesCursorImage =
  cursor_x :: int
  cursor_y :: int
  cursor_width :: nat
  cursor_height :: nat
  xhot :: nat
  yhot :: nat
  cursor_pixels :: "64 word list"

text \<open>The X server during a call.\<close>

record x_server =
  XKeysymToKeycode :: "int32 \<Rightarrow> byte"
  XGetImage :: "int \<Rightarrow> int \<Rightarrow> int \<Rightarrow> int \<Rightarrow> vec4b list list option"
  XFixesGetCursorImage :: "XFixesCursorImage option"

record x11 =
  screens :: XineramaScreenInfo
  requests :: "x_request list"

definition x_request :: "x_request \<Rightarrow> (exn, x11, unit) eff" where
  "x_request r = modify (\<lambda>c. c\<lparr>requests := requests c @ [r]\<rparr>)"

section \<open>Construction\<close>

text \<open>The display: whether it opens, whether Xinerama is active, and the screens it reports.\<close>

record x_display =
  XOpenDisplay :: bool
  XineramaIsActive :: bool
  XineramaQueryScreens :: "XineramaScreenInfo list option \<times> int"     \<comment> \<open>screens and their number\<close>

definition getScreensInfo :: "(int \<Rightarrow> string) \<Rightarrow> x_display \<Rightarrow> exn + XineramaScreenInfo list" where
  "getScreensInfo fmt_int d =
     (if \<not> XineramaIsActive d then Inl (X11IOControllerException ''Xinerama is not active'')
      else (case XineramaQueryScreens d of
              (None, _) \<Rightarrow> Inl (X11IOControllerException ''Failed to query Xinerama screens'')
            | (Some screens_local, screen_count) \<Rightarrow>
                if screen_count < 1
                then Inl (X11IOControllerException (''Screen count ('' @ fmt_int screen_count @ '')<1''))
                else Inr screens_local))"

definition new_X11IOController :: "(int \<Rightarrow> string) \<Rightarrow> x_display \<Rightarrow> exn + x11" where
  "new_X11IOController fmt_int d =
     (if \<not> XOpenDisplay d then Inl (X11IOControllerException ''Cannot open display'')
      else (case getScreensInfo fmt_int d of
              Inl e \<Rightarrow> Inl e
            | Inr screens_local \<Rightarrow> Inr \<lparr>screens = hd screens_local, requests = []\<rparr>))"

section \<open>Input\<close>

definition handleKeyboardEvent :: "x_server \<Rightarrow> KeyboardEventData \<Rightarrow> (exn, x11, unit) eff" where
  "handleKeyboardEvent X event_data =
     (let keycode = XKeysymToKeycode X (key event_data) in
      if keycode = 0 then ret ()
      else seqE (x_request (XTestFakeKeyEvent keycode (down event_data)))
                (x_request XFlush))"

text \<open>\<open>a += b\<close> on an \<open>int\<close>, which has no meaning when it overflows.\<close>

definition add_int :: "int32 \<Rightarrow> int \<Rightarrow> exn + int32" where
  "add_int a b =
     (let r = sint a + b in
      if - (2 ^ 31) \<le> r \<and> r < 2 ^ 31 then Inr (word_of_int r)
      else Inl (UndefinedBehaviour ''signed overflow''))"

definition handleMouseEvent :: "x_server \<Rightarrow> MouseEventData \<Rightarrow> (exn, x11, unit) eff" where
  "handleMouseEvent X event_data =
     (if button_mask event_data = MOVE
      then bindE (gets screens) (\<lambda>scr.
           bindE (lift_sum (add_int (mouse_x event_data) (x_org scr))) (\<lambda>x.
           bindE (lift_sum (add_int (mouse_y event_data) (y_org scr))) (\<lambda>y.
           seqE (x_request (XTestFakeMotionEvent x y))
                (x_request XFlush))))
      else let button = extractButtonID (button_mask event_data) in
           seqE (if isScrollMoved (button_mask event_data)
                 then seqE (x_request (XTestFakeButtonEvent button True))
                           (x_request (XTestFakeButtonEvent button False))
                 else if button \<noteq> 0
                 then let is_clicked = isClicked (button_mask event_data)
                      in x_request (XTestFakeButtonEvent button is_clicked)
                 else ret ())
                (x_request XFlush))"

section \<open>Screenshots\<close>

unbundle bit_operations_syntax

text \<open>Conversion of an \<open>int\<close> between 0 and 255 to \<open>unsigned char\<close>.\<close>

definition blend :: "byte \<Rightarrow> byte \<Rightarrow> byte \<Rightarrow> byte" where
  "blend colour alpha bg = of_nat ((unat colour * unat alpha + unat bg * (255 - unat alpha)) div 255)"

definition blend_alpha :: "byte \<Rightarrow> byte \<Rightarrow> byte" where
  "blend_alpha alpha bg = of_nat (unat alpha + unat bg * (255 - unat alpha) div 255)"

definition pixel_alpha :: "64 word \<Rightarrow> byte" where
  "pixel_alpha p = ucast (drop_bit 24 p AND 0xFF)"

definition blend_pixel :: "64 word \<Rightarrow> vec4b \<Rightarrow> vec4b" where
  "blend_pixel p bg_pixel =
     (let alpha = pixel_alpha p;
          red = ucast (drop_bit 16 p AND 0xFF);
          green = ucast (drop_bit 8 p AND 0xFF);
          blue = ucast (p AND 0xFF);
          (b, g, r, a) = bg_pixel
      in if alpha > 0
         then (blend blue alpha b, blend green alpha g, blend red alpha r, blend_alpha alpha a)
         else bg_pixel)"

text \<open>
  The body of the loops over the cursor, at \<open>(y, x)\<close>. The index is computed in \<open>int\<close>, which a
  cursor of more than \<open>2 ^ 31\<close> pixels would overflow.
\<close>

definition cursor_step :: "XFixesCursorImage \<Rightarrow> nat \<times> nat \<Rightarrow> vec4b mat \<Rightarrow> exn + vec4b mat" where
  "cursor_step cur yx screenshot =
     (let (y, x) = yx;
          dstX = cursor_x cur + int x - int (xhot cur);
          dstY = cursor_y cur + int y - int (yhot cur)
      in if 0 \<le> dstX \<and> dstX < int (mat_cols screenshot) \<and> 0 \<le> dstY \<and> dstY < int (mat_rows screenshot)
         then if y * cursor_width cur + x \<ge> 2 ^ 31 then Inl (UndefinedBehaviour ''signed overflow'')
              else let pixel = cursor_pixels cur ! (y * cursor_width cur + x)
                   in Inr (mat_set screenshot (nat dstY) (nat dstX)
                             (blend_pixel pixel (mat_at screenshot (nat dstY) (nat dstX))))
         else Inr screenshot)"

fun cursor_loop :: "XFixesCursorImage \<Rightarrow> (nat \<times> nat) list \<Rightarrow> vec4b mat \<Rightarrow> exn + vec4b mat" where
  "cursor_loop cur [] screenshot = Inr screenshot"
| "cursor_loop cur (yx # rest) screenshot =
     (case cursor_step cur yx screenshot of
        Inl e \<Rightarrow> Inl e
      | Inr screenshot' \<Rightarrow> cursor_loop cur rest screenshot')"

definition cursor_positions :: "XFixesCursorImage \<Rightarrow> (nat \<times> nat) list" where
  "cursor_positions cur = concat (map (\<lambda>y. map (\<lambda>x. (y, x)) [0..<cursor_width cur]) [0..<cursor_height cur])"

definition captureCursor :: "x_server \<Rightarrow> vec4b mat \<Rightarrow> exn + vec4b mat" where
  "captureCursor X screenshot =
     (case XFixesGetCursorImage X of
        None \<Rightarrow> Inr screenshot
      | Some cursor_image \<Rightarrow> cursor_loop cursor_image (cursor_positions cursor_image) screenshot)"

definition captureScreenshot :: "x_server \<Rightarrow> (exn, x11, vec4b mat) eff" where
  "captureScreenshot X =
     bindE (gets screens) (\<lambda>scr.
       case XGetImage X (x_org scr) (y_org scr) (screen_width scr) (screen_height scr) of
         None \<Rightarrow> throw (X11IOControllerException ''Failed to capture screen'')
       | Some ximage \<Rightarrow>
           lift_sum (captureCursor X \<lparr>mat_rows = nat (screen_height scr), mat_cols = nat (screen_width scr),
                                       mat_data = ximage\<rparr>))"

definition x11_ops :: "(x_server, x11) io_ops" where
  "x11_ops = \<lparr>io_keyboard = handleKeyboardEvent, io_mouse = handleMouseEvent, io_screenshot = captureScreenshot\<rparr>"

section \<open>The interface is kept\<close>

lemma cursor_step_size:
  "cursor_step cur yx m = Inr m' \<Longrightarrow> mat_rows m' = mat_rows m \<and> mat_cols m' = mat_cols m"
  by (auto simp: cursor_step_def Let_def split: prod.splits if_splits)

lemma cursor_loop_size:
  "cursor_loop cur ps m = Inr m' \<Longrightarrow> mat_rows m' = mat_rows m \<and> mat_cols m' = mat_cols m"
  by (induction ps arbitrary: m) (auto dest: cursor_step_size split: sum.splits)

lemma captureCursor_size:
  "captureCursor X m = Inr m' \<Longrightarrow> mat_rows m' = mat_rows m \<and> mat_cols m' = mat_cols m"
  by (auto simp: captureCursor_def dest: cursor_loop_size split: option.splits)

definition x11_size :: "x11 \<Rightarrow> nat \<times> nat" where
  "x11_size c = (nat (screen_height (screens c)), nat (screen_width (screens c)))"

lemma keeps_screens: "keeps (\<lambda>c. screens c = g) (x_request r)"
  by (simp add: keeps_def x_request_def modify_def)

lemma keeps_screens_keyboard: "keeps (\<lambda>c. screens c = g) (handleKeyboardEvent X e)"
  unfolding handleKeyboardEvent_def Let_def by (intro keeps_intros keeps_screens)

lemma keeps_screens_mouse: "keeps (\<lambda>c. screens c = g) (handleMouseEvent X e)"
  unfolding handleMouseEvent_def Let_def by (intro keeps_intros keeps_screens)

lemma keeps_screens_screenshot: "keeps (\<lambda>c. screens c = g) (captureScreenshot X)"
  unfolding captureScreenshot_def by (intro keeps_intros) (simp split: option.split add: keeps_simple)

interpretation x11: io_controller x11_ops x11_size
proof unfold_locales
  show "x11_size (snd (io_keyboard x11_ops w e c)) = x11_size c" for w e c
    using keepsD [OF keeps_screens_keyboard [of "screens c"]] by (simp add: x11_size_def x11_ops_def)
  show "x11_size (snd (io_mouse x11_ops w m c)) = x11_size c" for w m c
    using keepsD [OF keeps_screens_mouse [of "screens c"]] by (simp add: x11_size_def x11_ops_def)
  show "x11_size (snd (io_screenshot x11_ops w c)) = x11_size c" for w c
    using keepsD [OF keeps_screens_screenshot [of "screens c"]] by (simp add: x11_size_def x11_ops_def)
  show "(mat_rows img, mat_cols img) = x11_size c" if "fst (io_screenshot x11_ops w c) = Inr img" for w c img
    using that by (auto simp: x11_ops_def captureScreenshot_def bindE_def gets_def lift_sum_def throw_def
      x11_size_def dest!: captureCursor_size split: option.splits)
qed

section \<open>The cursor\<close>

text \<open>Conversions to \<open>unsigned char\<close> in the blending never lose anything.\<close>

lemma blend_bound: "(c * a + b * (255 - a)) div 255 \<le> 255" if "c \<le> 255" "b \<le> 255" "a \<le> 255" for a b c :: nat
proof -
  have "c * a + b * (255 - a) \<le> 255 * a + 255 * (255 - a)"
    using that by (intro add_mono mult_right_mono) simp_all
  also have "\<dots> = 255 * 255"
    using that(3) by (simp flip: distrib_left)
  finally show ?thesis
    by (simp add: div_le_mono [of _ "255 * 255" 255, simplified])
qed

lemma byte_le: "unat (b :: byte) \<le> 255"
proof -
  have "unat b < 256"
    using unsigned_less [of b] by simp
  then show ?thesis
    by simp
qed

lemma unat_blend:
  "unat (blend c a b) = (unat c * unat a + unat b * (255 - unat a)) div 255"
  using blend_bound [OF byte_le byte_le byte_le, of c a b] by (simp add: blend_def unat_of_nat)

lemma unat_blend_alpha:
  "unat (blend_alpha a b) = unat a + unat b * (255 - unat a) div 255"
proof -
  have "unat b * (255 - unat a) \<le> 255 * (255 - unat a)"
    by (intro mult_right_mono byte_le) simp
  then have "unat b * (255 - unat a) div 255 \<le> 255 * (255 - unat a) div 255"
    by (rule div_le_mono)
  then have "unat a + unat b * (255 - unat a) div 255 < 256"
    using byte_le [of a] by simp
  then show ?thesis
    by (simp add: blend_alpha_def unat_of_nat del: of_nat_add)
qed

text \<open>An opaque cursor pixel replaces what is under it, a transparent one leaves it.\<close>

lemma blend_pixel_opaque:
  "pixel_alpha p = 255 \<Longrightarrow> blend_pixel p bg =
     (ucast (p AND 0xFF), ucast (drop_bit 8 p AND 0xFF), ucast (drop_bit 16 p AND 0xFF), 255)"
  by (simp add: blend_pixel_def Let_def blend_def blend_alpha_def word_gt_0 split: prod.split)

lemma blend_pixel_transparent: "pixel_alpha p = 0 \<Longrightarrow> blend_pixel p bg = bg"
  by (simp add: blend_pixel_def Let_def split: prod.split)

text \<open>The pixel of the image that the pixel \<open>(y, x)\<close> of the cursor is drawn on.\<close>

definition covers :: "XFixesCursorImage \<Rightarrow> nat \<times> nat \<Rightarrow> nat \<Rightarrow> nat \<Rightarrow> bool" where
  "covers cur yx r c \<longleftrightarrow> int r = cursor_y cur + int (fst yx) - int (yhot cur)
     \<and> int c = cursor_x cur + int (snd yx) - int (xhot cur)"

definition pixel_at :: "XFixesCursorImage \<Rightarrow> nat \<times> nat \<Rightarrow> 64 word" where
  "pixel_at cur yx = cursor_pixels cur ! (fst yx * cursor_width cur + snd yx)"

lemma covers_unique: "covers cur yx r c \<Longrightarrow> covers cur yx' r c \<Longrightarrow> yx = yx'"
  by (auto simp: covers_def prod_eq_iff)

lemma cursor_step_pixels:
  assumes "mat_ok m" and "fst yx * cursor_width cur + snd yx < 2 ^ 31"
  obtains m' where "cursor_step cur yx m = Inr m'" "mat_ok m'" "mat_rows m' = mat_rows m" "mat_cols m' = mat_cols m"
    "\<forall>r < mat_rows m. \<forall>c < mat_cols m.
       mat_at m' r c = (if covers cur yx r c then blend_pixel (pixel_at cur yx) (mat_at m r c) else mat_at m r c)"
proof -
  obtain y x where yx: "yx = (y, x)"
    by fastforce
  let ?X = "cursor_x cur + int x - int (xhot cur)" and ?Y = "cursor_y cur + int y - int (yhot cur)"
  show thesis
  proof (cases "0 \<le> ?X \<and> ?X < int (mat_cols m) \<and> 0 \<le> ?Y \<and> ?Y < int (mat_rows m)")
    case True
    let ?m = "mat_set m (nat ?Y) (nat ?X) (blend_pixel (pixel_at cur yx) (mat_at m (nat ?Y) (nat ?X)))"
    have range: "nat ?Y < mat_rows m" "nat ?X < mat_cols m"
      using True by auto
    have "cursor_step cur yx m = Inr ?m"
      using True assms(2) by (simp add: cursor_step_def yx pixel_at_def Let_def)
    moreover have "mat_at ?m r c = (if covers cur yx r c then blend_pixel (pixel_at cur yx) (mat_at m r c) else mat_at m r c)"
      for r c
      using True by (auto simp: mat_at_set [OF assms(1) range] covers_def yx)
    ultimately show ?thesis
      using mat_set_ok [OF assms(1) range(1)] by (intro that [of ?m]) simp_all
  next
    case False
    then have "cursor_step cur yx m = Inr m"
      by (auto simp: cursor_step_def yx Let_def)
    moreover have "\<not> covers cur yx r c" if "r < mat_rows m" "c < mat_cols m" for r c
      using False that by (auto simp: covers_def yx)
    ultimately show ?thesis
      using assms(1) by (intro that [of m]) simp_all
  qed
qed

text \<open>The image with the cursor pixels of \<open>ps\<close> drawn on it.\<close>

definition drawn :: "XFixesCursorImage \<Rightarrow> (nat \<times> nat) list \<Rightarrow> vec4b mat \<Rightarrow> vec4b mat \<Rightarrow> bool" where
  "drawn cur ps m m' \<longleftrightarrow> mat_ok m' \<and> mat_rows m' = mat_rows m \<and> mat_cols m' = mat_cols m
    \<and> (\<forall>r < mat_rows m. \<forall>c < mat_cols m. mat_at m' r c =
         (case find (\<lambda>yx. covers cur yx r c) ps of None \<Rightarrow> mat_at m r c
          | Some yx \<Rightarrow> blend_pixel (pixel_at cur yx) (mat_at m r c)))"

lemma drawn_at:
  "drawn cur ps m m' \<Longrightarrow> r < mat_rows m \<Longrightarrow> c < mat_cols m \<Longrightarrow> mat_at m' r c =
     (case find (\<lambda>yx. covers cur yx r c) ps of None \<Rightarrow> mat_at m r c
      | Some yx \<Rightarrow> blend_pixel (pixel_at cur yx) (mat_at m r c))"
  by (simp add: drawn_def)

lemma drawn_step:
  assumes "drawn cur [yx] m m1" and "drawn cur ps m1 m2" and "yx \<notin> set ps"
  shows "drawn cur (yx # ps) m m2"
proof -
  have gone: "find (\<lambda>yx. covers cur yx r c) ps = None" if "covers cur yx r c" for r c
    unfolding find_None_iff using covers_unique [OF that] assms(3) by blast
  have size: "mat_rows m1 = mat_rows m" "mat_cols m1 = mat_cols m"
    using assms(1) by (simp_all add: drawn_def)
  have "mat_at m2 r c = (case find (\<lambda>yx. covers cur yx r c) (yx # ps) of None \<Rightarrow> mat_at m r c
       | Some yx \<Rightarrow> blend_pixel (pixel_at cur yx) (mat_at m r c))" if "r < mat_rows m" "c < mat_cols m" for r c
    using drawn_at [OF assms(1) that] drawn_at [OF assms(2), of r c] that gone [of r c] size
    by (cases "covers cur yx r c") (simp_all cong: option.case_cong)
  with assms(2) size show ?thesis
    by (simp add: drawn_def)
qed

lemma cursor_loop_pixels:
  assumes "mat_ok m" and "distinct ps" and "\<forall>yx \<in> set ps. fst yx * cursor_width cur + snd yx < 2 ^ 31"
  shows "\<exists>m'. cursor_loop cur ps m = Inr m' \<and> drawn cur ps m m'"
  using assms
proof (induction ps arbitrary: m)
  case Nil
  then show ?case
    by (simp add: drawn_def)
next
  case (Cons yx ps)
  obtain m1 where m1: "cursor_step cur yx m = Inr m1" "mat_ok m1" "mat_rows m1 = mat_rows m" "mat_cols m1 = mat_cols m"
    "\<forall>r < mat_rows m. \<forall>c < mat_cols m.
       mat_at m1 r c = (if covers cur yx r c then blend_pixel (pixel_at cur yx) (mat_at m r c) else mat_at m r c)"
    by (rule cursor_step_pixels [OF Cons.prems(1), of yx cur]) (use Cons.prems(3) in auto)
  then have "drawn cur [yx] m m1"
    by (simp add: drawn_def)
  moreover have "\<exists>m2. cursor_loop cur ps m1 = Inr m2 \<and> drawn cur ps m1 m2"
    using Cons.IH [OF m1(2)] Cons.prems(2,3) by simp
  ultimately show ?case
    using m1(1) Cons.prems(2) drawn_step by fastforce
qed

text \<open>The pixel of the cursor over \<open>(r, c)\<close>, if there is one.\<close>

definition cursor_over :: "XFixesCursorImage \<Rightarrow> nat \<Rightarrow> nat \<Rightarrow> 64 word option" where
  "cursor_over cur r c =
     (let y = int r - cursor_y cur + int (yhot cur); x = int c - cursor_x cur + int (xhot cur)
      in if 0 \<le> y \<and> y < int (cursor_height cur) \<and> 0 \<le> x \<and> x < int (cursor_width cur)
         then Some (cursor_pixels cur ! (nat y * cursor_width cur + nat x)) else None)"

lemma set_cursor_positions:
  "set (cursor_positions cur) = {(y, x). y < cursor_height cur \<and> x < cursor_width cur}"
  by (auto simp: cursor_positions_def)

lemma distinct_cursor_positions: "distinct (cursor_positions cur)"
proof -
  have "distinct (concat (map (\<lambda>y. map (\<lambda>x. (y, x)) [0..<w]) [0..<h]))" for h w :: nat
    by (induction h) (auto simp: distinct_map inj_on_def)
  then show ?thesis
    by (simp add: cursor_positions_def)
qed

lemma find_cursor:
  "(case find (\<lambda>yx. covers cur yx r c) (cursor_positions cur) of None \<Rightarrow> None
    | Some yx \<Rightarrow> Some (pixel_at cur yx)) = cursor_over cur r c"
proof (cases "find (\<lambda>yx. covers cur yx r c) (cursor_positions cur)")
  case None
  then have none: "\<not> covers cur (y, x) r c" if "y < cursor_height cur" "x < cursor_width cur" for y x
    using that by (auto simp: find_None_iff set_cursor_positions)
  let ?y = "int r - cursor_y cur + int (yhot cur)" and ?x = "int c - cursor_x cur + int (xhot cur)"
  have "\<not> (0 \<le> ?y \<and> ?y < int (cursor_height cur) \<and> 0 \<le> ?x \<and> ?x < int (cursor_width cur))"
  proof
    assume range: "0 \<le> ?y \<and> ?y < int (cursor_height cur) \<and> 0 \<le> ?x \<and> ?x < int (cursor_width cur)"
    then have "covers cur (nat ?y, nat ?x) r c" "nat ?y < cursor_height cur" "nat ?x < cursor_width cur"
      by (auto simp: covers_def)
    with none show False
      by blast
  qed
  with None show ?thesis
    by (simp only: cursor_over_def Let_def if_False option.case)
next
  case (Some yx)
  then have "covers cur yx r c" "yx \<in> set (cursor_positions cur)"
    by (auto simp: find_Some_iff)
  then show ?thesis
    using Some by (auto simp: cursor_over_def Let_def covers_def set_cursor_positions pixel_at_def algebra_simps)
qed

text \<open>
  C30. The cursor is drawn over the screenshot, pixel by pixel. For every cursor of up to
  \<open>2 ^ 31\<close> pixels, wherever it is and however much of it is off the screen: nothing is written
  outside the image, its size does not change, a pixel under the cursor is blended with the
  cursor pixel over it, once, and every other pixel is as it was captured.
\<close>

theorem cursor_overlay:
  assumes "mat_ok img" and "XFixesGetCursorImage X = Some cur"
    and "cursor_height cur * cursor_width cur \<le> 2 ^ 31"
  shows "\<exists>img'. captureCursor X img = Inr img' \<and> mat_ok img'
    \<and> mat_rows img' = mat_rows img \<and> mat_cols img' = mat_cols img
    \<and> (\<forall>r < mat_rows img. \<forall>c < mat_cols img. mat_at img' r c =
         (case cursor_over cur r c of None \<Rightarrow> mat_at img r c | Some p \<Rightarrow> blend_pixel p (mat_at img r c)))"
proof -
  have "y * cursor_width cur + x < 2 ^ 31" if "y < cursor_height cur" "x < cursor_width cur" for y x
  proof -
    have "y * cursor_width cur + x < Suc y * cursor_width cur"
      using that(2) by simp
    also have "\<dots> \<le> cursor_height cur * cursor_width cur"
      using that(1) by (intro mult_right_mono) simp_all
    finally show ?thesis
      using assms(3) by simp
  qed
  then have small: "\<forall>yx \<in> set (cursor_positions cur). fst yx * cursor_width cur + snd yx < 2 ^ 31"
    by (auto simp: set_cursor_positions)
  have over: "(case cursor_over cur r c of None \<Rightarrow> a | Some p \<Rightarrow> f p) =
      (case find (\<lambda>yx. covers cur yx r c) (cursor_positions cur) of None \<Rightarrow> a | Some yx \<Rightarrow> f (pixel_at cur yx))"
    for r c and a :: vec4b and f
    using find_cursor [of cur r c] by (auto split: option.splits)
  show ?thesis
    using cursor_loop_pixels [OF assms(1) distinct_cursor_positions small] assms(2)
    by (auto simp: captureCursor_def over drawn_def)
qed

text \<open>A red, opaque pointer of one pixel on a black screen of one pixel.\<close>

definition dot_cursor :: XFixesCursorImage where
  "dot_cursor = \<lparr>cursor_x = 0, cursor_y = 0, cursor_width = 1, cursor_height = 1, xhot = 0, yhot = 0,
     cursor_pixels = [0xFFFF0000]\<rparr>"

definition dot_server :: x_server where
  "dot_server = \<lparr>XKeysymToKeycode = (\<lambda>k. 38), XGetImage = (\<lambda>x y w h. Some [[(0, 0, 0, 0)]]),
     XFixesGetCursorImage = Some dot_cursor\<rparr>"

lemma cursor_overlay_witness:
  "\<exists>img'. captureCursor dot_server \<lparr>mat_rows = 1, mat_cols = 1, mat_data = [[(0, 0, 0, 0)]]\<rparr> = Inr img'
     \<and> mat_at img' 0 0 = (0, 0, 255, 255)"
proof -
  let ?img = "\<lparr>mat_rows = 1, mat_cols = 1, mat_data = [[(0, 0, 0, 0)]]\<rparr> :: vec4b mat"
  have "mat_ok ?img" "XFixesGetCursorImage dot_server = Some dot_cursor"
    "cursor_height dot_cursor * cursor_width dot_cursor \<le> 2 ^ 31"
    by (simp_all add: mat_ok_def dot_server_def dot_cursor_def)
  from cursor_overlay [OF this] obtain img' where "captureCursor dot_server ?img = Inr img'"
    "mat_at img' 0 0 = (case cursor_over dot_cursor 0 0 of None \<Rightarrow> mat_at ?img 0 0
       | Some p \<Rightarrow> blend_pixel p (mat_at ?img 0 0))"
    by auto
  moreover have "cursor_over dot_cursor 0 0 = Some 0xFFFF0000"
    by (simp add: cursor_over_def dot_cursor_def Let_def)
  moreover have "pixel_alpha 0xFFFF0000 = 255"
    by (simp add: pixel_alpha_def drop_bit_eq_div)
  ultimately show ?thesis
    by (auto simp: blend_pixel_opaque drop_bit_eq_div)
qed

lemma pixel_masks: "(0xFF :: 64 word) = mask 8" "(0xFFFFFF :: 64 word) = mask 24"
    "(0xFF000000 :: 64 word) = push_bit 24 (mask 8)" "(255 :: 8 word) = mask 8"
  by (simp_all add: mask_eq_exp_minus_1 push_bit_eq_mult)

lemma pixel_parts:
  "pixel_alpha (0xFF000000 OR (0xFFFFFF AND p)) = 255" "pixel_alpha (0xFFFFFF AND p) = 0"
  "(0xFF000000 OR (0xFFFFFF AND p)) AND 0xFF = p AND 0xFF"
  "drop_bit 8 (0xFF000000 OR (0xFFFFFF AND p)) AND 0xFF = drop_bit 8 p AND 0xFF"
  "drop_bit 16 (0xFF000000 OR (0xFFFFFF AND p)) AND 0xFF = drop_bit 16 p AND 0xFF"
  unfolding pixel_masks pixel_alpha_def by (rule bit_word_eqI; auto simp: bit_simps)+

text \<open>
  Blending is arithmetic without loss. The weighted mean of two channels never leaves the
  range of a byte, so the conversion to \<open>unsigned char\<close> truncates nothing, and it lies between
  the two; a fully opaque cursor pixel replaces the pixel under it by its own colour, and a
  fully transparent one changes nothing.
\<close>

theorem blending_exact:
  "unat (blend c a b) = (unat c * unat a + unat b * (255 - unat a)) div 255
   \<and> min c b \<le> blend c a b \<and> blend c a b \<le> max c b
   \<and> unat (blend_alpha a b) = unat a + unat b * (255 - unat a) div 255
   \<and> blend_pixel (0xFF000000 OR (0xFFFFFF AND p)) bg
       = (ucast (p AND 0xFF), ucast (drop_bit 8 p AND 0xFF), ucast (drop_bit 16 p AND 0xFF), 255)
   \<and> blend_pixel (0xFFFFFF AND p) bg = bg"
proof -
  have le: "unat x * unat a + unat y * (255 - unat a) \<le> unat u * unat a + unat v * (255 - unat a)"
    if "x \<le> u" "y \<le> v" for x y u v :: byte
    using that by (intro add_mono mult_right_mono) (simp_all add: word_le_nat_alt)
  have same: "(unat x * unat a + unat x * (255 - unat a)) div 255 = unat x" for x :: byte
    using byte_le [of a] by (simp flip: distrib_left)
  have "unat (min c b) \<le> unat (blend c a b)" "unat (blend c a b) \<le> unat (max c b)"
    unfolding unat_blend by (subst same [symmetric], rule div_le_mono, rule le, simp, simp)+
  then show ?thesis
    by (simp add: unat_blend unat_blend_alpha word_le_nat_alt blend_pixel_opaque blend_pixel_transparent
      pixel_parts del: drop_bit_or drop_bit_and)
qed

section \<open>Screenshots are well formed\<close>

text \<open>What is documented of \<open>XGetImage\<close>: an image has the size that was asked for.\<close>

definition images_as_asked :: "x_server \<Rightarrow> bool" where
  "images_as_asked X \<longleftrightarrow> (\<forall>x y w h img. XGetImage X x y w h = Some img \<longrightarrow>
     length img = nat h \<and> (\<forall>row \<in> set img. length row = nat w))"

lemma cursor_step_ok: "mat_ok m \<Longrightarrow> cursor_step cur yx m = Inr m' \<Longrightarrow> mat_ok m'"
  by (auto simp: cursor_step_def Let_def intro!: mat_set_ok split: prod.splits if_splits)

lemma cursor_loop_ok: "mat_ok m \<Longrightarrow> cursor_loop cur ps m = Inr m' \<Longrightarrow> mat_ok m'"
  by (induction ps arbitrary: m) (auto dest: cursor_step_ok split: sum.splits)


definition blank_server :: x_server where
  "blank_server = \<lparr>XKeysymToKeycode = (\<lambda>k. 0), XGetImage = (\<lambda>x y w h. Some (replicate (nat h) (replicate (nat w) (0, 0, 0, 0)))),
     XFixesGetCursorImage = None\<rparr>"


end
