(* ===== verification/Streamer.thy ===== *)
theory Streamer
  imports Receiving X11_Controller Video
begin

text \<open>
  The streaming side: \<open>include/streamer/ScreenViewerStreamer.hpp\<close> and
  \<open>src/streamer/ScreenViewerStreamer.cpp\<close>. Two threads work on one object: the thread of the
  socket's \<open>io_context\<close> runs the completion handlers, the main thread runs \<open>run\<close>. They meet in
  the queue of messages and under \<open>io_controller_mutex\<close>, so a step of the model is one
  completion or one \<open>handleIOEvents\<close>. An exception that leaves a handler or \<open>run\<close> ends the
  process.
\<close>

section \<open>State\<close>

datatype streamer_handler =
    PushMessage                 \<comment> \<open>of \<open>scheduleAsyncPollIOEvents\<close>\<close>
  | SendNextScreenshot          \<comment> \<open>of \<open>scheduleAsyncSendScreenshots\<close>\<close>

record ('s, 'c, 'a) streamer =
  st_socket :: "('s, streamer_handler) SocketBase"
  st_io :: 'c
  st_encoder :: "'a VideoEncoder"
  st_messages :: "Message list"

text \<open>What the streamer is linked with: the stream, the controller, the codec, the texts.\<close>

record ('s, 'w, 'c, 'a) streamer_deps =
  sd_lib :: lib
  sd_asio :: "'s asio"
  sd_io :: "('w, 'c) io_ops"
  sd_codec :: "'a av_encoder"

abbreviation on_st_socket ::
  "(exn, ('s, streamer_handler) SocketBase, 'b) eff \<Rightarrow> (exn, ('s, 'c, 'a) streamer, 'b) eff" where
  "on_st_socket \<equiv> zoom st_socket (\<lambda>s st. st\<lparr>st_socket := s\<rparr>)"

abbreviation on_io :: "(exn, 'c, 'b) eff \<Rightarrow> (exn, ('s, 'c, 'a) streamer, 'b) eff" where
  "on_io \<equiv> zoom st_io (\<lambda>c st. st\<lparr>st_io := c\<rparr>)"

abbreviation on_encoder :: "(exn, 'a VideoEncoder, 'b) eff \<Rightarrow> (exn, ('s, 'c, 'a) streamer, 'b) eff" where
  "on_encoder \<equiv> zoom st_encoder (\<lambda>e st. st\<lparr>st_encoder := e\<rparr>)"

section \<open>Operations\<close>

text \<open>\<open>cv::cvtColor\<close> from \<open>BGRA\<close> to \<open>BGR\<close> drops the alpha channel.\<close>

definition bgra2bgr :: "vec4b mat \<Rightarrow> vec3b mat" where
  "bgra2bgr m = \<lparr>mat_rows = mat_rows m, mat_cols = mat_cols m,
     mat_data = map (map (\<lambda>(b, g, r, a). (b, g, r))) (mat_data m)\<rparr>"

definition scheduleAsyncPollIOEvents :: "(exn, ('s, 'c, 'a) streamer, unit) eff" where
  "scheduleAsyncPollIOEvents = on_st_socket (asyncReadMessage PushMessage BUFFER_SIZE_t)"

definition push_message :: "Message \<Rightarrow> (exn, ('s, 'c, 'a) streamer, unit) eff" where
  "push_message message =
     seqE (modify (\<lambda>st. st\<lparr>st_messages := st_messages st @ [message]\<rparr>))
          scheduleAsyncPollIOEvents"

definition scheduleAsyncSendScreenshots ::
  "('s, 'w, 'c, 'a) streamer_deps \<Rightarrow> 'w \<Rightarrow> (exn, ('s, 'c, 'a) streamer, unit) eff" where
  "scheduleAsyncSendScreenshots D w =
     bindE (on_io (io_screenshot (sd_io D) w)) (\<lambda>screenshot.
     bindE (on_encoder (encode (sd_codec D) (bgra2bgr screenshot))) (\<lambda>packet.
       case packet of
         None \<Rightarrow> ret ()
       | Some bytes \<Rightarrow> on_st_socket (asyncSendMessage \<lparr>msg_type = SCREEN_UPDATE, content = bytes\<rparr> SendNextScreenshot)))"

definition handleInput ::
  "('s, 'w, 'c, 'a) streamer_deps \<Rightarrow> 'w \<Rightarrow> Message \<Rightarrow> (exn, ('s, 'c, 'a) streamer, unit) eff" where
  "handleInput D w message =
     (case msg_type message of
        KEYBOARD_INPUT \<Rightarrow>
          bindE (lift_sum (convertTo sizeof_KeyboardEventData keyboard_of_bytes message)) (\<lambda>event.
            on_io (io_keyboard (sd_io D) w event))
      | MOUSE_INPUT \<Rightarrow>
          bindE (lift_sum (convertTo sizeof_MouseEventData mouse_of_bytes message)) (\<lambda>event.
            on_io (io_mouse (sd_io D) w event))
      | _ \<Rightarrow> bindE (lift_sum (type_to_str_at (msg_type message))) (\<lambda>name. ret ()))"

text \<open>The loop pops a message before it handles it.\<close>

fun handle_messages ::
  "('s, 'w, 'c, 'a) streamer_deps \<Rightarrow> 'w \<Rightarrow> Message list \<Rightarrow> (exn, ('s, 'c, 'a) streamer, unit) eff" where
  "handle_messages D w [] = ret ()"
| "handle_messages D w (message # rest) =
     seqE (modify (\<lambda>st. st\<lparr>st_messages := rest\<rparr>))
    (seqE (handleInput D w message)
          (handle_messages D w rest))"

definition handleIOEvents :: "('s, 'w, 'c, 'a) streamer_deps \<Rightarrow> 'w \<Rightarrow> (exn, ('s, 'c, 'a) streamer, unit) eff" where
  "handleIOEvents D w st = handle_messages D w (st_messages st) st"

text \<open>The constructor takes a screenshot to learn the size; \<open>run\<close> starts both chains of operations.\<close>

definition createVideoEncoder ::
  "('s, 'w, 'c, 'a) streamer_deps \<Rightarrow> av_setup \<Rightarrow> 'a \<Rightarrow> 'w \<Rightarrow> (exn, 'c, 'a VideoEncoder) eff" where
  "createVideoEncoder D A codec w =
     bindE (io_screenshot (sd_io D) w) (\<lambda>screenshot.
       lift_sum (new_VideoEncoder A codec 30 (int (mat_rows screenshot)) (int (mat_cols screenshot))))"

definition new_ScreenViewerStreamer ::
  "('s, 'w, 'c, 'a) streamer_deps \<Rightarrow> av_setup \<Rightarrow> 'a \<Rightarrow> 'w \<Rightarrow> ('s, streamer_handler) SocketBase \<Rightarrow> 'c
     \<Rightarrow> exn + ('s, 'c, 'a) streamer" where
  "new_ScreenViewerStreamer D A codec w sock io =
     (case createVideoEncoder D A codec w io of
        (Inl e, _) \<Rightarrow> Inl e
      | (Inr encoder, io') \<Rightarrow>
          Inr \<lparr>st_socket = sock, st_io = io', st_encoder = encoder, st_messages = []\<rparr>)"

definition start_streaming :: "('s, 'w, 'c, 'a) streamer_deps \<Rightarrow> 'w \<Rightarrow> (exn, ('s, 'c, 'a) streamer, unit) eff" where
  "start_streaming D w = seqE scheduleAsyncPollIOEvents (scheduleAsyncSendScreenshots D w)"

text \<open>The condition of the loop of \<open>run\<close>.\<close>

definition keeps_running :: "('s, 'w, 'c, 'a) streamer_deps \<Rightarrow> ('s, 'c, 'a) streamer \<Rightarrow> bool" where
  "keeps_running D st \<longleftrightarrow> isOpen (sd_asio D) (st_socket st) \<or> st_messages st \<noteq> []"

section \<open>Events\<close>

definition st_read_done ::
  "('s, 'w, 'c, 'a) streamer_deps \<Rightarrow> error_code option \<Rightarrow> byte list \<Rightarrow> (exn, ('s, 'c, 'a) streamer, unit) eff" where
  "st_read_done D ec bytes st =
     (case reads (st_socket st) of
        [] \<Rightarrow> (Inr (), st)
      | HeaderRead h mx # _ \<Rightarrow>
          on_st_socket (seqE pop_read (asyncReadHeader_handler (sd_lib D) (sd_asio D) h mx ec bytes)) st
      | BodyRead h header # _ \<Rightarrow>
          seqE (on_st_socket (seqE pop_read
                  (modify (\<lambda>sb. sb\<lparr>data_buffer := overwrite (data_buffer sb) bytes\<rparr>))))
            (asyncReadMessageImpl_handler (sd_lib D) (\<lambda>st. data_buffer (st_socket st))
               (\<lambda>reason. on_st_socket (safeDisconnect (sd_asio D) reason))
               push_message header ec (length bytes)) st)"

definition st_write_done ::
  "('s, 'w, 'c, 'a) streamer_deps \<Rightarrow> 'w \<Rightarrow> error_code option \<Rightarrow> (exn, ('s, 'c, 'a) streamer, unit) eff" where
  "st_write_done D w ec st =
     (case writes (st_socket st) of
        [] \<Rightarrow> (Inr (), st)
      | (bytes, h) # rest \<Rightarrow>
          seqE (on_st_socket (modify (\<lambda>sb. sb\<lparr>writes := tl (writes sb)\<rparr>)))
               (asyncSendMessage_handler (\<lambda>h. scheduleAsyncSendScreenshots D w) h ec) st)"

text \<open>
  A process is a streamer that runs or one that an exception has ended. Completions happen
  when the operation is in flight, with the bytes that were asked for unless there is an error.
\<close>

record ('s, 'c, 'a) process =
  streamer_of :: "('s, 'c, 'a) streamer"
  ended_by :: "exn option"

definition proceed :: "(exn, ('s, 'c, 'a) streamer, unit) eff \<Rightarrow> ('s, 'c, 'a) process \<Rightarrow> ('s, 'c, 'a) process" where
  "proceed m p = (case m (streamer_of p) of
     (Inr u, st) \<Rightarrow> p\<lparr>streamer_of := st\<rparr>
   | (Inl e, st) \<Rightarrow> p\<lparr>streamer_of := st, ended_by := Some e\<rparr>)"

fun wanted_bytes :: "'h async_read \<Rightarrow> nat" where
  "wanted_bytes (HeaderRead h mx) = sizeof_MessageHeader"
| "wanted_bytes (BodyRead h header) = unat (message_size header)"

inductive process_step ::
  "('s, 'w, 'c, 'a) streamer_deps \<Rightarrow> ('s, 'c, 'a) process \<Rightarrow> ('s, 'c, 'a) process \<Rightarrow> bool" for D where
  step_st_read: "ended_by p = None \<Longrightarrow> reads (st_socket (streamer_of p)) = r # rs \<Longrightarrow>
    length bytes \<le> wanted_bytes r \<Longrightarrow> (ec = None \<Longrightarrow> length bytes = wanted_bytes r) \<Longrightarrow>
    process_step D p (proceed (st_read_done D ec bytes) p)"
| step_st_write: "ended_by p = None \<Longrightarrow> writes (st_socket (streamer_of p)) \<noteq> [] \<Longrightarrow>
    process_step D p (proceed (st_write_done D w ec) p)"
| step_st_poll: "ended_by p = None \<Longrightarrow> keeps_running D (streamer_of p) \<Longrightarrow>
    process_step D p (proceed (handleIOEvents D w) p)"

text \<open>A process that was constructed on an idle socket and has entered \<open>run\<close>.\<close>

definition process_init :: "('s, 'w, 'c, 'a) streamer_deps \<Rightarrow> ('s, 'c, 'a) process \<Rightarrow> bool" where
  "process_init D p \<longleftrightarrow> (\<exists>A codec w w' sock io st.
     buffer_ok sock \<and> reads sock = [] \<and> writes sock = []
     \<and> new_ScreenViewerStreamer D A codec w sock io = Inr st
     \<and> p = proceed (start_streaming D w') \<lparr>streamer_of = st, ended_by = None\<rparr>)"

end
