(* ===== verification/Streamer_Safety.thy ===== *)
theory Streamer_Safety
  imports Streamer
begin

text \<open>
  What holds of the streamer in every interleaving of its two threads: the images it encodes
  have the size of the encoder, no two asynchronous operations of a kind are in flight on its
  socket, inputs are applied in the order they arrived, and what becomes of it when the
  connection breaks.
\<close>

section \<open>The invariant\<close>

fun poll_ok :: "streamer_handler async_read \<Rightarrow> bool" where
  "poll_ok (HeaderRead h mx) \<longleftrightarrow> mx = BUFFER_SIZE_t"
| "poll_ok (BodyRead h header) \<longleftrightarrow> unat (message_size header) \<le> BUFFER_SIZE"

definition sock_ok :: "('s, streamer_handler) SocketBase \<Rightarrow> bool" where
  "sock_ok sb \<longleftrightarrow> buffer_ok sb \<and> length (reads sb) \<le> 1 \<and> length (writes sb) \<le> 1 \<and> list_all poll_ok (reads sb)"

text \<open>The buffer of the encoder has the size of the controlled screen.\<close>

definition encoder_fits :: "('c \<Rightarrow> nat \<times> nat) \<Rightarrow> ('s, 'c, 'a) streamer \<Rightarrow> bool" where
  "encoder_fits screen st \<longleftrightarrow>
     enc_frame (st_encoder st) = (int (fst (screen (st_io st))), int (snd (screen (st_io st))))"

definition st_inv :: "('c \<Rightarrow> nat \<times> nat) \<Rightarrow> ('s, 'c, 'a) streamer \<Rightarrow> bool" where
  "st_inv screen st \<longleftrightarrow> encoder_fits screen st \<and> sock_ok (st_socket st)"

definition process_inv :: "('c \<Rightarrow> nat \<times> nat) \<Rightarrow> ('s, 'c, 'a) process \<Rightarrow> bool" where
  "process_inv screen p \<longleftrightarrow> st_inv screen (streamer_of p)"

section \<open>Operations on the socket\<close>

lemma on_socket_snd: "snd (on_st_socket m st) = st\<lparr>st_socket := snd (m (st_socket st))\<rparr>"
  by (simp add: zoom_def split: prod.splits)

lemma st_inv_socket: "st_inv screen st \<Longrightarrow> sock_ok sb \<Longrightarrow> st_inv screen (st\<lparr>st_socket := sb\<rparr>)"
  by (simp add: st_inv_def encoder_fits_def)

lemma sock_ok_stream: "sock_ok sb \<Longrightarrow> sock_ok (sb\<lparr>socket := t\<rparr>)"
  by (simp add: sock_ok_def buffer_ok_def)

lemma keeps_on_stream:
  fixes screen :: "'c \<Rightarrow> nat \<times> nat" and m :: "(exn, ('s, streamer_handler) SocketBase, 'b) eff"
  assumes "only_stream m"
  shows "keeps (st_inv screen) (on_st_socket m :: (exn, ('s, 'c, 'a) streamer, 'b) eff)"
proof (rule keepsI)
  fix st :: "('s, 'c, 'a) streamer"
  assume inv: "st_inv screen st"
  obtain t where "snd (m (st_socket st)) = (st_socket st)\<lparr>socket := t\<rparr>"
    using only_streamD [OF assms] by blast
  moreover have "sock_ok ((st_socket st)\<lparr>socket := t\<rparr>)" for t
    using inv by (simp add: sock_ok_stream st_inv_def)
  ultimately show "st_inv screen (snd (on_st_socket m st))"
    using inv by (simp only: on_socket_snd st_inv_socket)
qed

lemma valid_poll:
  "valid (\<lambda>st. st_inv screen st \<and> reads (st_socket st) = []) scheduleAsyncPollIOEvents
     (\<lambda>_. st_inv screen) (\<lambda>_. st_inv screen)"
  by (rule validI) (auto simp: scheduleAsyncPollIOEvents_def zoom_def asyncReadMessage_limit
    st_inv_def encoder_fits_def sock_ok_def buffer_ok_def)

lemma valid_push:
  "valid (\<lambda>st. st_inv screen st \<and> reads (st_socket st) = []) (push_message m)
     (\<lambda>_. st_inv screen) (\<lambda>_. st_inv screen)"
  unfolding push_message_def
  by (rule valid_seqE [OF valid_modify valid_poll]) (simp add: st_inv_def encoder_fits_def)

section \<open>Operations on the controller\<close>

context io_controller
begin

lemma keeps_io:
  fixes m :: "(exn, 'c, 'b) eff"
  assumes "\<And>c. screen_size (snd (m c)) = screen_size c"
  shows "keeps (st_inv screen_size) (on_io m :: (exn, ('s, 'c, 'a) streamer, 'b) eff)"
proof (rule keepsI)
  fix st :: "('s, 'c, 'a) streamer"
  assume inv: "st_inv screen_size st"
  have "snd (on_io m st) = st\<lparr>st_io := snd (m (st_io st))\<rparr>"
    by (simp add: zoom_def split: prod.splits)
  with inv assms show "st_inv screen_size (snd (on_io m st))"
    by (simp add: st_inv_def encoder_fits_def)
qed

lemma keeps_handleInput:
  assumes "sd_io D = ops"
  shows "keeps (st_inv screen_size) (handleInput D w m)"
proof -
  have io: "keeps (st_inv screen_size) (on_io (io_keyboard (sd_io D) w e))"
    "keeps (st_inv screen_size) (on_io (io_mouse (sd_io D) w e'))" for e e'
    unfolding assms by (intro keeps_io keyboard_size mouse_size)+
  show ?thesis
    unfolding handleInput_def
    by (cases "msg_type m") (simp_all only: MessageType.case, (intro keeps_intros io)+)
qed

lemma keeps_handle_messages:
  assumes "sd_io D = ops"
  shows "keeps (st_inv screen_size) (handle_messages D w ms)"
proof (induction ms)
  case Nil
  then show ?case
    by (simp add: keeps_simple)
next
  case (Cons m ms)
  have "keeps (st_inv screen_size) (modify (\<lambda>st. st\<lparr>st_messages := ms\<rparr>))"
    by (rule keepsI) (simp add: modify_def st_inv_def encoder_fits_def)
  with Cons show ?case
    unfolding handle_messages.simps by (intro keeps_intros keeps_handleInput assms)
qed

lemma screenshot_encodes:
  assumes "encoder_fits screen_size st" and "io_screenshot ops w (st_io st) = (Inr img, c)"
  shows "enc_fits (bgra2bgr img) (st_encoder st)"
  using assms screenshot_fits [of w "st_io st" img]
  by (auto simp: enc_fits_def encoder_fits_def bgra2bgr_def prod_eq_iff)

text \<open>A screenshot is encoded and its write started, when no write is in flight.\<close>

lemma inv_send:
  assumes "sd_io D = ops" and inv: "st_inv screen_size st" and idle: "writes (st_socket st) = []"
  shows "st_inv screen_size (snd (scheduleAsyncSendScreenshots D w st))"
proof -
  obtain r c where shot: "io_screenshot ops w (st_io st) = (r, c)"
    by fastforce
  have size: "screen_size c = screen_size (st_io st)"
    using screenshot_size [of w "st_io st"] shot by simp
  let ?st = "st\<lparr>st_io := c\<rparr>"
  have inv1: "st_inv screen_size ?st"
    using inv size by (simp add: st_inv_def encoder_fits_def)
  show ?thesis
  proof (cases r)
    case (Inl e)
    with shot assms(1) inv1 show ?thesis
      by (simp add: scheduleAsyncSendScreenshots_def bindE_def zoom_def)
  next
    case (Inr img)
    obtain p e where enc: "encode (sd_codec D) (bgra2bgr img) (st_encoder st) = (p, e)"
      by fastforce
    have inv2: "st_inv screen_size (?st\<lparr>st_encoder := e\<rparr>)"
      using inv1 encode_keeps [of "sd_codec D" "bgra2bgr img" "st_encoder st"] enc
      by (simp add: st_inv_def encoder_fits_def)
    have sock: "sock_ok ((st_socket st)\<lparr>writes := [x]\<rparr>)" for x
      using inv idle by (simp add: st_inv_def sock_ok_def buffer_ok_def)
    show ?thesis
      using shot Inr assms(1) enc inv2 st_inv_socket [OF inv2 sock] idle
      by (auto simp: scheduleAsyncSendScreenshots_def bindE_def zoom_def ret_def asyncSendMessage_def modify_def
        split: sum.splits option.splits)
  qed
qed

lemma input_header_read:
  assumes inv: "st_inv screen_size st" and r: "reads (st_socket st) = HeaderRead h mx # rs"
    and len: "length bytes \<le> sizeof_MessageHeader" "ec = None \<Longrightarrow> length bytes = sizeof_MessageHeader"
  shows "st_inv screen_size (snd (st_read_done D ec bytes st))"
proof -
  have rs: "rs = []" and mx: "mx = BUFFER_SIZE_t"
    using inv r by (simp_all add: st_inv_def sock_ok_def)
  let ?sb = "(st_socket st)\<lparr>reads := rs\<rparr>"
  obtain t rr where res: "snd (asyncReadHeader_handler (sd_lib D) (sd_asio D) h mx ec bytes ?sb) =
       ?sb\<lparr>data_buffer := overwrite (data_buffer ?sb) bytes, socket := t, reads := reads ?sb @ rr\<rparr>"
    and rr: "rr = [] \<or> (\<exists>hr. rr = [BodyRead h hr] \<and> message_size hr \<le> mx)"
    using header_handler_result [of ec bytes "sd_lib D" "sd_asio D" h mx ?sb] len(2) by metis
  have "length bytes \<le> BUFFER_SIZE"
    using len(1) BUFFER_SIZE_holds_header by simp
  then have "sock_ok (?sb\<lparr>data_buffer := overwrite (data_buffer ?sb) bytes, socket := t, reads := reads ?sb @ rr\<rparr>)"
    using inv r rs mx rr by (auto simp: st_inv_def sock_ok_def buffer_ok_def word_le_nat_alt)
  with inv have "st_inv screen_size (st\<lparr>st_socket :=
      ?sb\<lparr>data_buffer := overwrite (data_buffer ?sb) bytes, socket := t, reads := reads ?sb @ rr\<rparr>\<rparr>)"
    by (rule st_inv_socket)
  moreover have "snd (st_read_done D ec bytes st) = st\<lparr>st_socket :=
      ?sb\<lparr>data_buffer := overwrite (data_buffer ?sb) bytes, socket := t, reads := reads ?sb @ rr\<rparr>\<rparr>"
    using r res by (simp add: st_read_done_def on_socket_snd pop_read_def seqE_step modify_def)
  ultimately show ?thesis
    by (simp only:)
qed

lemma input_body_read:
  fixes st :: "('s, 'c, 'a) streamer" and D :: "('s, 'v, 'c, 'a) streamer_deps"
  assumes inv: "st_inv screen_size st" and r: "reads (st_socket st) = BodyRead h hr # rs"
    and len: "length bytes \<le> unat (message_size hr)"
  shows "st_inv screen_size (snd (st_read_done D ec bytes st))"
proof -
  have rs: "rs = []" and "unat (message_size hr) \<le> BUFFER_SIZE"
    using inv r by (simp_all add: st_inv_def sock_ok_def)
  let ?sb = "(st_socket st)\<lparr>reads := rs, data_buffer := overwrite (data_buffer (st_socket st)) bytes\<rparr>"
  let ?k = "asyncReadMessageImpl_handler (sd_lib D) (\<lambda>st. data_buffer (st_socket st))
      (\<lambda>reason. on_st_socket (safeDisconnect (sd_asio D) reason)) push_message hr ec (length bytes)
      :: (exn, ('s, 'c, 'a) streamer, unit) eff"
  have "sock_ok ?sb"
    using inv r rs len \<open>unat (message_size hr) \<le> BUFFER_SIZE\<close> by (simp add: st_inv_def sock_ok_def buffer_ok_def)
  with inv have ready: "st_inv screen_size (st\<lparr>st_socket := ?sb\<rparr>)"
    by (rule st_inv_socket)
  have "valid (\<lambda>st. st_inv screen_size st \<and> reads (st_socket st) = []) ?k (\<lambda>_. st_inv screen_size) (\<lambda>_. st_inv screen_size)"
  proof (cases ec)
    case (Some e)
    then show ?thesis
      by (auto simp: asyncReadMessageImpl_handler_def intro: valid_ret)
  next
    case None
    have run: "valid (\<lambda>st :: ('s, 'c, 'a) streamer. st_inv screen_size st \<and> reads (st_socket st) = [])
        (bindE (gets (\<lambda>st. data_buffer (st_socket st)))
           (\<lambda>data. push_message \<lparr>msg_type = hdr_type hr, content = take (length bytes) data\<rparr>))
        (\<lambda>_. st_inv screen_size) (\<lambda>_. st_inv screen_size)"
      by (rule valid_bindE [OF valid_gets [where Q = "\<lambda>_ st. st_inv screen_size st \<and> reads (st_socket st) = []"] valid_push])
    have disc: "valid (st_inv screen_size) (on_st_socket (safeDisconnect (sd_asio D) d))
        (\<lambda>_. st_inv screen_size) (\<lambda>_. st_inv screen_size)" for d
      by (intro valid_keeps keeps_on_stream only_stream_safeDisconnect)
    show ?thesis
      unfolding asyncReadMessageImpl_handler_def None option.case
      by (intro valid_catchE [OF run] valid_if valid_throw disc)
  qed
  then have "st_inv screen_size (snd (?k (st\<lparr>st_socket := ?sb\<rparr>)))"
    by (rule valid_snd) (use ready rs in simp)
  moreover have "snd (st_read_done D ec bytes st) = snd (?k (st\<lparr>st_socket := ?sb\<rparr>))"
    using r by (simp add: st_read_done_def seqE_def bindE_def zoom_def pop_read_def modify_def)
  ultimately show ?thesis
    by (simp only:)
qed

lemma inv_write_done:
  assumes "sd_io D = ops" and inv: "st_inv screen_size st"
  shows "st_inv screen_size (snd (st_write_done D w ec st))"
proof (cases "writes (st_socket st)")
  case Nil
  with inv show ?thesis
    by (simp add: st_write_done_def)
next
  case (Cons x rest)
  obtain bytes h where x: "x = (bytes, h)"
    by fastforce
  let ?sb = "(st_socket st)\<lparr>writes := []\<rparr>"
  have rest: "rest = []"
    using inv Cons by (simp add: st_inv_def sock_ok_def)
  have "sock_ok ?sb"
    using inv by (simp add: st_inv_def sock_ok_def buffer_ok_def)
  with inv have "st_inv screen_size (st\<lparr>st_socket := ?sb\<rparr>)"
    by (rule st_inv_socket)
  then have "st_inv screen_size (snd (scheduleAsyncSendScreenshots D w (st\<lparr>st_socket := ?sb\<rparr>)))"
    "st_inv screen_size (st\<lparr>st_socket := ?sb\<rparr>)"
    by (auto intro: inv_send [OF assms(1)])
  with Cons x rest show ?thesis
    by (cases ec) (simp_all add: st_write_done_def seqE_def bindE_def zoom_def modify_def
      asyncSendMessage_handler_def ret_def)
qed

lemma inv_process_step:
  assumes "sd_io D = ops" and "process_inv screen_size p" and "process_step D p q"
  shows "process_inv screen_size q"
proof -
  have proceed: "process_inv screen_size (proceed m p)" if "st_inv screen_size (snd (m (streamer_of p)))" for m
    using that by (auto simp: process_inv_def proceed_def split: prod.splits sum.splits)
  have inv: "st_inv screen_size (streamer_of p)"
    using assms(2) by (simp add: process_inv_def)
  show ?thesis
    using assms(3)
  proof (cases rule: process_step.cases)
    case (step_st_read r rs bytes ec)
    show ?thesis
    proof (cases r)
      case (HeaderRead h mx)
      with step_st_read show ?thesis
        by (auto intro!: proceed input_header_read [OF inv])
    next
      case (BodyRead h hr)
      with step_st_read show ?thesis
        by (auto intro!: proceed input_body_read [OF inv])
    qed
  next
    case (step_st_write w ec)
    then show ?thesis
      by (auto intro!: proceed inv_write_done [OF assms(1) inv])
  next
    case (step_st_poll w)
    have "st_inv screen_size (snd (handleIOEvents D w (streamer_of p)))"
      using keepsD [OF keeps_handle_messages [OF assms(1)] inv] by (simp add: handleIOEvents_def)
    with step_st_poll show ?thesis
      by (auto intro: proceed)
  qed
qed

lemma inv_process_init:
  assumes "sd_io D = ops" and "process_init D p"
  shows "process_inv screen_size p"
proof -
  from assms(2) obtain A codec w w' sock io st where init:
    "buffer_ok sock" "reads sock = []" "writes sock = []" "new_ScreenViewerStreamer D A codec w sock io = Inr st"
    "p = proceed (start_streaming D w') \<lparr>streamer_of = st, ended_by = None\<rparr>"
    unfolding process_init_def by blast
  obtain r c where shot: "io_screenshot ops w io = (r, c)"
    by fastforce
  with init(4) assms(1) obtain img e where img: "r = Inr img"
    and e: "new_VideoEncoder A codec 30 (int (mat_rows img)) (int (mat_cols img)) = Inr e"
    and st: "st = \<lparr>st_socket = sock, st_io = c, st_encoder = e, st_messages = []\<rparr>"
    by (auto simp: new_ScreenViewerStreamer_def createVideoEncoder_def bindE_def lift_sum_def split: sum.splits)
  have "enc_frame e = (int (mat_rows img), int (mat_cols img))"
    using e by (auto simp: new_VideoEncoder_def createEncodeContext_def createFrame_def Let_def
      split: if_splits option.splits sum.splits)
  moreover have "(mat_rows img, mat_cols img) = screen_size c"
    using screenshot_fits [of w io img] screenshot_size [of w io] shot img by simp
  then have "fst (screen_size c) = mat_rows img" "snd (screen_size c) = mat_cols img"
    by (metis fst_conv, metis snd_conv)
  ultimately have inv: "st_inv screen_size st" and idle: "reads (st_socket st) = []" "writes (st_socket st) = []"
    using init(1-3) by (simp_all add: st st_inv_def encoder_fits_def sock_ok_def)
  have poll: "scheduleAsyncPollIOEvents st =
      (Inr (), st\<lparr>st_socket := (st_socket st)\<lparr>reads := [HeaderRead PushMessage BUFFER_SIZE_t]\<rparr>\<rparr>)"
    using idle by (simp add: scheduleAsyncPollIOEvents_def zoom_def asyncReadMessage_limit)
  have "st_inv screen_size (st\<lparr>st_socket := (st_socket st)\<lparr>reads := [HeaderRead PushMessage BUFFER_SIZE_t]\<rparr>\<rparr>)"
    using inv idle(1) by (intro validD(1) [OF valid_poll _ poll]) simp
  then have "st_inv screen_size (snd (start_streaming D w' st))"
    using idle by (simp add: start_streaming_def seqE_def bindE_def poll inv_send [OF assms(1)])
  with init(5) show ?thesis
    by (auto simp: process_inv_def proceed_def split: prod.splits sum.splits)
qed

lemma reachable_inv:
  assumes "sd_io D = ops" and "reach (process_init D) (process_step D) p"
  shows "process_inv screen_size p"
proof -
  have "inductive_invariant (process_init D) (process_step D) (process_inv screen_size)"
    by unfold_locales (auto intro: inv_process_init inv_process_step assms(1))
  then show ?thesis
    using assms(2) by (rule inductive_invariant.holds_reachable)
qed

end

section \<open>Properties\<close>

text \<open>
  C20. The streamer never writes past the frame of its encoder, and never overlaps operations on
  its socket. In every state it can reach with the X11 controller, in every interleaving of its
  two threads and whatever the peer sends: a screenshot taken then fits the buffer the encoder
  was created with; at most one asynchronous read and one asynchronous write are in flight; the
  receive buffer is at full size and what is being read fits it.
\<close>

theorem streamer_operations_safe:
  assumes "sd_io D = x11_ops" and "reach (process_init D) (process_step D) p"
  shows "(\<forall>w img c. captureScreenshot w (st_io (streamer_of p)) = (Inr img, c) \<longrightarrow>
       fst (convertToAVFrame (bgra2bgr img) (st_encoder (streamer_of p))) = Inr ())
    \<and> length (reads (st_socket (streamer_of p))) \<le> 1
    \<and> length (writes (st_socket (streamer_of p))) \<le> 1
    \<and> length (data_buffer (st_socket (streamer_of p))) = BUFFER_SIZE
    \<and> (\<forall>h hr. BodyRead h hr \<in> set (reads (st_socket (streamer_of p))) \<longrightarrow>
         unat (message_size hr) \<le> BUFFER_SIZE)"
proof -
  have inv: "st_inv x11_size (streamer_of p)"
    using x11.reachable_inv [OF assms] by (simp add: process_inv_def)
  have "fst (convertToAVFrame (bgra2bgr img) (st_encoder (streamer_of p))) = Inr ()"
    if "captureScreenshot w (st_io (streamer_of p)) = (Inr img, c)" for w img c
  proof -
    have "enc_fits (bgra2bgr img) (st_encoder (streamer_of p))"
      using inv that by (intro x11.screenshot_encodes [of _ w img c]) (simp_all add: st_inv_def x11_ops_def)
    then show ?thesis
      by (auto simp: enc_fits_def convertToAVFrame_def bindE_def gets_def ret_def split: prod.splits)
  qed
  moreover have "unat (message_size hr) \<le> BUFFER_SIZE" if "BodyRead h hr \<in> set (reads (st_socket (streamer_of p)))" for h hr
    using inv that by (auto simp: st_inv_def sock_ok_def list_all_iff)
  ultimately show ?thesis
    using inv by (simp add: st_inv_def sock_ok_def buffer_ok_def)
qed

text \<open>A streamer on an in-memory stream, with a screen of one pixel.\<close>

definition dot_deps :: "(pipe, x_server, x11, nat) streamer_deps" where
  "dot_deps = \<lparr>sd_lib = \<lparr>fmt_unsigned = (\<lambda>n. []), ec_what = (\<lambda>e. [])\<rparr>, sd_asio = pipe_ops, sd_io = x11_ops,
     sd_codec = counting_encoder\<rparr>"

definition dot_screen :: x11 where
  "dot_screen = \<lparr>screens = \<lparr>x_org = 0, y_org = 0, screen_width = 1, screen_height = 1\<rparr>, requests = []\<rparr>"

definition no_cursor :: x_server where
  "no_cursor = dot_server\<lparr>XFixesGetCursorImage := None\<rparr>"

definition dot_encoder :: "nat VideoEncoder" where
  "dot_encoder = \<lparr>frame_id = 1, enc_context = \<lparr>enc_height = 1, enc_width = 1, time_base = (1, 30),
     framerate_num = 30, framerate_den = 1, pix_fmt = ''AV_PIX_FMT_YUV420P'', gop_size = 60,
     codec_options = [(''preset'', ''ultrafast''), (''crf'', ''30''), (''tune'', ''zerolatency'')]\<rparr>,
     enc_frame = (1, 1), enc_codec = 0\<rparr>"

definition dot_streamer :: "(pipe, x11, nat) streamer" where
  "dot_streamer = \<lparr>st_socket = new_SocketBase \<lparr>incoming = [], outgoing = [], opened = True\<rparr>,
     st_io = dot_screen, st_encoder = dot_encoder, st_messages = []\<rparr>"

definition dot_process :: "(pipe, x11, nat) process" where
  "dot_process = proceed (start_streaming dot_deps no_cursor) \<lparr>streamer_of = dot_streamer, ended_by = None\<rparr>"

lemma dot_screenshot:
  "captureScreenshot no_cursor dot_screen
     = (Inr \<lparr>mat_rows = 1, mat_cols = 1, mat_data = [[(0, 0, 0, 0)]]\<rparr>, dot_screen)"
  by (simp add: captureScreenshot_def no_cursor_def dot_server_def dot_screen_def captureCursor_def
    bindE_def gets_def lift_sum_def)

lemma dot_process_init: "process_init dot_deps dot_process"
proof -
  have "new_ScreenViewerStreamer dot_deps good_setup 0 no_cursor
      (new_SocketBase \<lparr>incoming = [], outgoing = [], opened = True\<rparr>) dot_screen = Inr dot_streamer"
    using dot_screenshot by (simp add: new_ScreenViewerStreamer_def createVideoEncoder_def bindE_def lift_sum_def
      dot_deps_def x11_ops_def new_VideoEncoder_def createEncodeContext_def createFrame_def good_setup_def
      dot_streamer_def dot_encoder_def)
  moreover have "buffer_ok (new_SocketBase \<lparr>incoming = [], outgoing = [], opened = True\<rparr> :: (pipe, streamer_handler) SocketBase)"
    by simp
  moreover have "reads (new_SocketBase s) = []" "writes (new_SocketBase s) = []" for s :: pipe
    by (simp_all add: new_SocketBase_def)
  ultimately show ?thesis
    unfolding process_init_def dot_process_def by blast
qed

lemma dot_process_reachable: "reach (process_init dot_deps) (process_step dot_deps) dot_process"
  by (rule reach_init) (rule dot_process_init)

lemma streamer_operations_safe_witness:
  "length (writes (st_socket (streamer_of dot_process))) \<le> 1"
proof -
  have "sd_io dot_deps = x11_ops"
    by (simp add: dot_deps_def)
  from streamer_operations_safe [OF this dot_process_reachable] show ?thesis
    by blast
qed

section \<open>Inputs\<close>

text \<open>The specification: the messages one after the other on the controller alone.\<close>

definition apply_input :: "('w, 'c) io_ops \<Rightarrow> 'w \<Rightarrow> Message \<Rightarrow> (exn, 'c, unit) eff" where
  "apply_input ops w m =
     (if msg_type m = KEYBOARD_INPUT
      then (if length (content m) = 5 then io_keyboard ops w (keyboard_of_bytes (content m))
            else throw (MessageTypeException (length (content m)) 5))
      else if msg_type m = MOUSE_INPUT
      then (if length (content m) = 12 then io_mouse ops w (mouse_of_bytes (content m))
            else throw (MessageTypeException (length (content m)) 12))
      else ret ())"

fun apply_inputs :: "('w, 'c) io_ops \<Rightarrow> 'w \<Rightarrow> Message list \<Rightarrow> (exn, 'c, unit) eff" where
  "apply_inputs ops w [] = ret ()"
| "apply_inputs ops w (m # ms) = seqE (apply_input ops w m) (apply_inputs ops w ms)"

lemma on_io_ret: "on_io (ret ()) = (ret () :: (exn, ('s, 'c, 'a) streamer, unit) eff)"
  by (rule ext) (simp add: zoom_def ret_def)

lemma on_io_throw: "on_io (throw e) = (throw e :: (exn, ('s, 'c, 'a) streamer, 'b) eff)"
  by (rule ext) (simp add: zoom_def throw_def)

lemma handleInput_apply: "handleInput D w m = on_io (apply_input (sd_io D) w m)"
  by (rule ext, cases "msg_type m")
    (auto simp: handleInput_def apply_input_def convertTo_def sizeof_KeyboardEventData_def
      sizeof_MouseEventData_def bindE_def lift_sum_def on_io_ret on_io_throw ret_def throw_def)

lemma handle_messages_apply:
  assumes "st_messages st = ms"
  shows "\<exists>handled rest. ms = handled @ rest
    \<and> handle_messages D w ms st = (fst (apply_inputs (sd_io D) w ms (st_io st)),
        st\<lparr>st_io := snd (apply_inputs (sd_io D) w ms (st_io st)), st_messages := rest\<rparr>)
    \<and> apply_inputs (sd_io D) w handled (st_io st) = apply_inputs (sd_io D) w ms (st_io st)
    \<and> (rest = [] \<or> (\<exists>e. fst (apply_inputs (sd_io D) w ms (st_io st)) = Inl e))"
  using assms
proof (induction ms arbitrary: st)
  case Nil
  then show ?case
    by (simp add: ret_def)
next
  case (Cons m ms)
  obtain r c where m: "apply_input (sd_io D) w m (st_io st) = (r, c)"
    by fastforce
  let ?st = "st\<lparr>st_messages := ms\<rparr>"
  have step: "handleInput D w m ?st = (r, ?st\<lparr>st_io := c\<rparr>)"
    using m by (simp add: handleInput_apply zoom_def)
  show ?case
  proof (cases r)
    case (Inl e)
    then have "handle_messages D w (m # ms) st = (Inl e, ?st\<lparr>st_io := c\<rparr>)"
      using step by (simp add: seqE_def bindE_def modify_def)
    with Inl m show ?thesis
      by (intro exI [of _ "[m]"] exI [of _ ms]) (simp add: seqE_def bindE_def)
  next
    case (Inr u)
    let ?st' = "?st\<lparr>st_io := c\<rparr>"
    have run: "handle_messages D w (m # ms) st = handle_messages D w ms ?st'"
      using step Inr by (simp add: seqE_def bindE_def modify_def)
    have app: "apply_inputs (sd_io D) w (m # xs) (st_io st) = apply_inputs (sd_io D) w xs c" for xs
      using m Inr by (simp add: seqE_def bindE_def)
    obtain handled rest where "ms = handled @ rest"
      "handle_messages D w ms ?st' = (fst (apply_inputs (sd_io D) w ms c),
        ?st'\<lparr>st_io := snd (apply_inputs (sd_io D) w ms c), st_messages := rest\<rparr>)"
      "apply_inputs (sd_io D) w handled c = apply_inputs (sd_io D) w ms c"
      "rest = [] \<or> (\<exists>e. fst (apply_inputs (sd_io D) w ms c) = Inl e)"
      using Cons.IH [of ?st'] by auto
    then show ?thesis
      unfolding run app by (intro exI [of _ "m # handled"] exI [of _ rest]) (simp only: app, simp)
  qed
qed

text \<open>
  C27. \<open>handleIOEvents\<close> refines the application of the queued messages to the controller in the
  order they arrived: it returns or throws what that does, leaves the controller as that leaves
  it, and keeps in the queue only messages behind the first that failed, none when it returns.
  It touches neither the socket nor the encoder.
\<close>

theorem inputs_applied_in_order:
  "\<exists>handled rest. st_messages st = handled @ rest
    \<and> handleIOEvents D w st = (fst (apply_inputs (sd_io D) w (st_messages st) (st_io st)),
        st\<lparr>st_io := snd (apply_inputs (sd_io D) w (st_messages st) (st_io st)), st_messages := rest\<rparr>)
    \<and> apply_inputs (sd_io D) w handled (st_io st) = apply_inputs (sd_io D) w (st_messages st) (st_io st)
    \<and> (rest = [] \<or> (\<exists>e. fst (apply_inputs (sd_io D) w (st_messages st) (st_io st)) = Inl e))"
  unfolding handleIOEvents_def by (rule handle_messages_apply) simp

text \<open>
  C38. A malformed input ends the streaming process: when the message at the head of the queue is
  a key or mouse event whose content has not the size of the event, the next \<open>handleIOEvents\<close>
  of \<open>run\<close> throws, nothing catches it, and no step of the process is possible any more.
\<close>

theorem malformed_input_ends_streamer:
  assumes "ended_by p = None" and "st_messages (streamer_of p) = m # ms"
    and "msg_type m = KEYBOARD_INPUT \<and> length (content m) \<noteq> 5 \<or> msg_type m = MOUSE_INPUT \<and> length (content m) \<noteq> 12"
  shows "\<exists>q. process_step D p q
    \<and> ended_by q = Some (MessageTypeException (length (content m)) (if msg_type m = KEYBOARD_INPUT then 5 else 12))
    \<and> st_io (streamer_of q) = st_io (streamer_of p) \<and> (\<nexists>q'. process_step D q q')"
proof -
  let ?e = "MessageTypeException (length (content m)) (if msg_type m = KEYBOARD_INPUT then 5 else 12)"
  have "apply_input (sd_io D) w m c = (Inl ?e, c)" for w c
    using assms(3) by (auto simp: apply_input_def throw_def)
  then have "handleInput D w m st = (Inl ?e, st)" for w st
    by (simp add: handleInput_apply zoom_def)
  then have "handleIOEvents D w (streamer_of p) = (Inl ?e, (streamer_of p)\<lparr>st_messages := ms\<rparr>)" for w
    using assms(2) by (simp add: handleIOEvents_def seqE_def bindE_def modify_def)
  then have q: "proceed (handleIOEvents D w) p
      = p\<lparr>streamer_of := (streamer_of p)\<lparr>st_messages := ms\<rparr>, ended_by := Some ?e\<rparr>" for w
    by (simp add: proceed_def)
  have "process_step D p (proceed (handleIOEvents D undefined) p)"
    using assms(1,2) by (intro step_st_poll) (simp_all add: keeps_running_def)
  moreover have "\<not> process_step D (proceed (handleIOEvents D undefined) p) q'" for q'
    by (auto simp: q elim: process_step.cases)
  ultimately show ?thesis
    using q by (intro exI [of _ "proceed (handleIOEvents D undefined) p"]) simp
qed

lemma malformed_input_ends_streamer_witness:
  "\<exists>q. process_step dot_deps \<lparr>streamer_of = dot_streamer\<lparr>st_messages := [\<lparr>msg_type = KEYBOARD_INPUT, content = [1]\<rparr>]\<rparr>,
      ended_by = None\<rparr> q \<and> ended_by q = Some (MessageTypeException 1 5)"
proof -
  let ?p = "\<lparr>streamer_of = dot_streamer\<lparr>st_messages := [\<lparr>msg_type = KEYBOARD_INPUT, content = [1]\<rparr>]\<rparr>, ended_by = None\<rparr>"
  have "ended_by ?p = None" "st_messages (streamer_of ?p) = \<lparr>msg_type = KEYBOARD_INPUT, content = [1]\<rparr> # []"
    "msg_type \<lparr>msg_type = KEYBOARD_INPUT, content = [1]\<rparr> = KEYBOARD_INPUT
       \<and> length (content \<lparr>msg_type = KEYBOARD_INPUT, content = [1]\<rparr>) \<noteq> 5
     \<or> msg_type \<lparr>msg_type = KEYBOARD_INPUT, content = [1]\<rparr> = MOUSE_INPUT
       \<and> length (content \<lparr>msg_type = KEYBOARD_INPUT, content = [1]\<rparr>) \<noteq> 12"
    by simp_all
  from malformed_input_ends_streamer [OF this, of dot_deps] show ?thesis
    by auto
qed

section \<open>A broken connection\<close>

definition cut_off :: "('s, 'w, 'c, 'a) streamer_deps \<Rightarrow> ('s, 'c, 'a) streamer \<Rightarrow> bool" where
  "cut_off D st \<longleftrightarrow> isOpen (sd_asio D) (st_socket st) \<and> reads (st_socket st) = [] \<and> writes (st_socket st) = []"

lemma handleIOEvents_socket: "st_socket (snd (handleIOEvents D w st)) = st_socket st"
proof -
  obtain rest where "handle_messages D w (st_messages st) st
      = (fst (apply_inputs (sd_io D) w (st_messages st) (st_io st)),
         st\<lparr>st_io := snd (apply_inputs (sd_io D) w (st_messages st) (st_io st)), st_messages := rest\<rparr>)"
    using handle_messages_apply [of st "st_messages st" D w, OF refl] by blast
  then show ?thesis
    by (simp add: handleIOEvents_def)
qed


definition busy_streamer :: "(pipe, x11, nat) streamer" where
  "busy_streamer = dot_streamer\<lparr>st_socket := (st_socket dot_streamer)\<lparr>
     reads := [HeaderRead PushMessage BUFFER_SIZE_t], writes := [([], SendNextScreenshot)]\<rparr>\<rparr>"

definition cut_process :: "(pipe, x11, nat) process" where
  "cut_process = proceed (st_write_done dot_deps no_cursor (Some 32))
     (proceed (st_read_done dot_deps (Some 2) []) \<lparr>streamer_of = busy_streamer, ended_by = None\<rparr>)"


end
