(* ===== verification/Remote_Control.thy ===== *)
theory Remote_Control
  imports Viewer_Input Streamer_Safety
begin

text \<open>
  Remote control from end to end: an event of the viewer's window (\<open>ScreenViewerClient\<close>), encoded
  and framed (\<open>MouseConfig\<close>, \<open>KeysMapping\<close>, \<open>SocketBase\<close>), read and queued by the streamer
  (\<open>ScreenViewerStreamer\<close>), becomes requests to the X server (\<open>X11IOController\<close>).
\<close>

section \<open>Events and the messages they become\<close>

definition mouse_message :: "int32 \<Rightarrow> int32 \<Rightarrow> int32 \<Rightarrow> Message" where
  "mouse_message msk x y = \<lparr>msg_type = MOUSE_INPUT, content = mouse_bytes \<lparr>button_mask = msk, mouse_x = x, mouse_y = y\<rparr>\<rparr>"

definition key_message :: "bool \<Rightarrow> int32 \<Rightarrow> Message" where
  "key_message d k = \<lparr>msg_type = KEYBOARD_INPUT, content = keyboard_bytes \<lparr>down = d, key = k\<rparr>\<rparr>"

definition on_picture_x :: "('s, 'd) viewer \<Rightarrow> int \<Rightarrow> int" where
  "on_picture_x v x = x * vw_frame_width v div window_width v"

definition on_picture_y :: "('s, 'd) viewer \<Rightarrow> int \<Rightarrow> int" where
  "on_picture_y v y = y * vw_frame_height v div window_height v"

definition button_mask_of :: "bool \<Rightarrow> byte \<Rightarrow> int32" where
  "button_mask_of pressed b = (let msk = projr (convertToMask b) in if pressed then setClicked msk else msk)"

fun messages_of :: "('s, 'd, 'f) viewer_deps \<Rightarrow> ('s, 'd) viewer \<Rightarrow> sdl_event \<Rightarrow> Message list" where
  "messages_of D v (SDL_MOUSEBUTTONDOWN b x y) =
     [mouse_message (button_mask_of True b) (word_of_int (on_picture_x v x)) (word_of_int (on_picture_y v y))]"
| "messages_of D v (SDL_MOUSEBUTTONUP b x y) =
     [mouse_message (button_mask_of False b) (word_of_int (on_picture_x v x)) (word_of_int (on_picture_y v y))]"
| "messages_of D v (SDL_MOUSEWHEEL d) = [mouse_message (if d > 0 then SCROLL_UP_MASK else SCROLL_DOWN_MASK) 0 0]"
| "messages_of D v (SDL_KEYDOWN code) = [key_message True (SDLKeySymToX11 (vd_sdl_key D) (vd_x11_key D) code)]"
| "messages_of D v (SDL_KEYUP code) = [key_message False (SDLKeySymToX11 (vd_sdl_key D) (vd_x11_key D) code)]"
| "messages_of D v e = []"

text \<open>
  The events considered: buttons of a mouse inside the window, the wheel, keys, and events that
  have no effect; the sizes are those of real windows and screens.
\<close>

definition inside_window :: "('s, 'd) viewer \<Rightarrow> int \<Rightarrow> int \<Rightarrow> bool" where
  "inside_window v x y \<longleftrightarrow> 0 \<le> x \<and> x < window_width v \<and> 0 \<le> y \<and> y < window_height v"

definition sizes_ok :: "('s, 'd) viewer \<Rightarrow> bool" where
  "sizes_ok v \<longleftrightarrow> 0 < vw_frame_width v \<and> 0 < vw_frame_height v
     \<and> window_width v * vw_frame_width v \<le> 2 ^ 31 \<and> window_height v * vw_frame_height v \<le> 2 ^ 31"

fun plain_input :: "('s, 'd) viewer \<Rightarrow> sdl_event \<Rightarrow> bool" where
  "plain_input v (SDL_MOUSEBUTTONDOWN b x y) \<longleftrightarrow> b \<in> {1, 2, 3, 4, 5} \<and> inside_window v x y"
| "plain_input v (SDL_MOUSEBUTTONUP b x y) \<longleftrightarrow> b \<in> {1, 2, 3, 4, 5} \<and> inside_window v x y"
| "plain_input v (SDL_MOUSEWHEEL d) \<longleftrightarrow> True"
| "plain_input v (SDL_KEYDOWN code) \<longleftrightarrow> True"
| "plain_input v (SDL_KEYUP code) \<longleftrightarrow> True"
| "plain_input v OtherEvent \<longleftrightarrow> True"
| "plain_input v e \<longleftrightarrow> False"

text \<open>What the events do to the controlled screen: the specification.\<close>

definition button_requests :: "int32 \<Rightarrow> bool \<Rightarrow> x_request list" where
  "button_requests b pressed = [XTestFakeButtonEvent b pressed, XFlush]"

definition key_requests :: "x_server \<Rightarrow> bool \<Rightarrow> int32 \<Rightarrow> x_request list" where
  "key_requests X pressed k =
     (if XKeysymToKeycode X k = 0 then [] else [XTestFakeKeyEvent (XKeysymToKeycode X k) pressed, XFlush])"

fun requests_of :: "('s, 'd, 'f) viewer_deps \<Rightarrow> x_server \<Rightarrow> sdl_event \<Rightarrow> x_request list" where
  "requests_of D X (SDL_MOUSEBUTTONDOWN b x y) = button_requests (x11_button b) True"
| "requests_of D X (SDL_MOUSEBUTTONUP b x y) = button_requests (x11_button b) False"
| "requests_of D X (SDL_MOUSEWHEEL d) =
     (let b = if d > 0 then 4 else 5 in [XTestFakeButtonEvent b True, XTestFakeButtonEvent b False, XFlush])"
| "requests_of D X (SDL_KEYDOWN code) = key_requests X True (SDLKeySymToX11 (vd_sdl_key D) (vd_x11_key D) code)"
| "requests_of D X (SDL_KEYUP code) = key_requests X False (SDLKeySymToX11 (vd_sdl_key D) (vd_x11_key D) code)"
| "requests_of D X e = []"

section \<open>The viewer sends them\<close>

definition message_frames :: "Message list \<Rightarrow> byte list" where
  "message_frames ms = concat (map (\<lambda>m. frame (msg_type m) (content m)) ms)"

lemma message_frames_simps [simp]:
  "message_frames [] = []" "message_frames (ms @ ns) = message_frames ms @ message_frames ns"
  "message_frames [\<lparr>msg_type = t, content = c\<rparr>] = frame t c"
  by (simp_all add: message_frames_def)

text \<open>The object after \<open>bs\<close> were sent.\<close>

definition has_sent :: "('s \<Rightarrow> byte list) \<Rightarrow> ('s \<Rightarrow> bool) \<Rightarrow> byte list \<Rightarrow> ('s, 'd) viewer \<Rightarrow> ('s, 'd) viewer \<Rightarrow> bool" where
  "has_sent sent live bs v v' \<longleftrightarrow> (\<exists>s. v' = v\<lparr>vw_socket := (vw_socket v)\<lparr>socket := s\<rparr>\<rparr> \<and> live s
     \<and> sent s = sent (socket (vw_socket v)) @ bs)"

lemma has_sent_nothing: "live (socket (vw_socket v)) \<Longrightarrow> has_sent sent live [] v v"
  unfolding has_sent_def by (intro exI [of _ "socket (vw_socket v)"]) simp

lemma send_data_has_sent:
  assumes "stream_contract ops sent avail live" and "live (socket (vw_socket v))" and "length (bytes x) \<le> BUFFER_SIZE"
  shows "\<exists>v'. on_vw_socket (send_data ops bytes t x) v = (Inr (), v') \<and> has_sent sent live (frame t (bytes x)) v v'"
proof -
  obtain s where s: "send ops \<lparr>msg_type = t, content = bytes x\<rparr> (vw_socket v) = (Inr (), (vw_socket v)\<lparr>socket := s\<rparr>)"
    "live s" "sent s = sent (socket (vw_socket v)) @ concat (frames \<lparr>msg_type = t, content = bytes x\<rparr>)"
    by (rule send_live [OF assms(1,2)])
  have one: "frames \<lparr>msg_type = t, content = bytes x\<rparr> = [frame t (bytes x)]"
    using assms(3) by (simp add: frames_def chunks_short)
  let ?v = "v\<lparr>vw_socket := (vw_socket v)\<lparr>socket := s\<rparr>\<rparr>"
  have "on_vw_socket (send_data ops bytes t x) v = (Inr (), ?v)"
    using s(1) by (simp add: send_data_def zoom_def)
  moreover have "has_sent sent live (frame t (bytes x)) v ?v"
    unfolding has_sent_def using s(2,3) one by (intro exI [of _ s]) simp
  ultimately show ?thesis
    by blast
qed

lemma length_event_bytes: "length (mouse_bytes e) \<le> BUFFER_SIZE" "length (keyboard_bytes k) \<le> BUFFER_SIZE"
  by (simp_all add: mouse.length_bytes keyboard.length_bytes sizeof_MouseEventData_def sizeof_KeyboardEventData_def BUFFER_SIZE_def)

lemma send_mouse_has_sent:
  assumes "stream_contract (vd_asio D) sent avail live" and "live (socket (vw_socket v))"
  shows "\<exists>v'. send_mouse D msk x y v = (Inr (), v') \<and> has_sent sent live (message_frames [mouse_message msk x y]) v v'"
  unfolding send_mouse_def mouse_message_def message_frames_simps
  by (rule send_data_has_sent [OF assms, of mouse_bytes, OF length_event_bytes(1)])

lemma handle_key_has_sent:
  assumes "stream_contract (vd_asio D) sent avail live" and "live (socket (vw_socket v))"
  shows "\<exists>v'. handle_key D d code v = (Inr (), v')
    \<and> has_sent sent live (message_frames [key_message d (SDLKeySymToX11 (vd_sdl_key D) (vd_x11_key D) code)]) v v'"
  unfolding handle_key_def key_message_def message_frames_simps
  by (rule send_data_has_sent [OF assms, of keyboard_bytes, OF length_event_bytes(2)])

lemma scaled_inside:
  assumes "sizes_ok v" and "inside_window v x y"
  shows "scale_coordinate x (vw_frame_width v) (window_width v) = Inr (word_of_int (on_picture_x v x))"
    and "scale_coordinate y (vw_frame_height v) (window_height v) = Inr (word_of_int (on_picture_y v y))"
  using assms by (simp_all add: sizes_ok_def inside_window_def on_picture_x_def on_picture_y_def scale_coordinate_inside)

lemma convertToMask_button:
  assumes "b \<in> {1, 2, 3, 4, 5}"
  shows "convertToMask b = Inr (projr (convertToMask b)) \<and> decodes_to (projr (convertToMask b)) (x11_button b)"
proof -
  obtain msk where "convertToMask b = Inr msk" "decodes_to msk (x11_button b)"
    by (rule button_encoding [OF assms])
  then show ?thesis
    by simp
qed

lemma handle_button_has_sent:
  assumes "stream_contract (vd_asio D) sent avail live" and "live (socket (vw_socket v))"
    and "sizes_ok v" and "inside_window v x y" and "b \<in> {1, 2, 3, 4, 5}"
  shows "\<exists>v'. handle_button D pressed b x y v = (Inr (), v')
    \<and> has_sent sent live (message_frames [mouse_message (button_mask_of pressed b)
         (word_of_int (on_picture_x v x)) (word_of_int (on_picture_y v y))]) v v'"
proof -
  have "handle_button D pressed b x y v
      = send_mouse D (button_mask_of pressed b) (word_of_int (on_picture_x v x)) (word_of_int (on_picture_y v y)) v"
  proof -
    obtain msk where "convertToMask b = Inr msk"
      using convertToMask_button [OF assms(5)] by blast
    then show ?thesis
      by (simp add: handle_button_def bindE_def gets_def lift_sum_def scaled_inside [OF assms(3,4)] button_mask_of_def)
  qed
  then show ?thesis
    using send_mouse_has_sent [OF assms(1,2)] by simp
qed

lemma handle_event_has_sent:
  assumes "stream_contract (vd_asio D) sent avail live" and "live (socket (vw_socket v))"
    and "sizes_ok v" and "plain_input v e"
  shows "\<exists>v'. handle_event D interval e v = (Inr (), v') \<and> has_sent sent live (message_frames (messages_of D v e)) v v'"
proof (cases e)
  case (SDL_MOUSEWHEEL d)
  then show ?thesis
    using send_mouse_has_sent [OF assms(1,2), of "if d > 0 then SCROLL_UP_MASK else SCROLL_DOWN_MASK" 0 0] by simp
next
  case (SDL_MOUSEBUTTONDOWN b x y)
  then have "inside_window v x y" "b \<in> {1, 2, 3, 4, 5}"
    using assms(4) by simp_all
  from handle_button_has_sent [OF assms(1-3) this, of True] SDL_MOUSEBUTTONDOWN show ?thesis
    by simp
next
  case (SDL_MOUSEBUTTONUP b x y)
  then have "inside_window v x y" "b \<in> {1, 2, 3, 4, 5}"
    using assms(4) by simp_all
  from handle_button_has_sent [OF assms(1-3) this, of False] SDL_MOUSEBUTTONUP show ?thesis
    by simp
next
  case (SDL_KEYDOWN code)
  then show ?thesis
    using handle_key_has_sent [OF assms(1,2), of True code] by simp
next
  case (SDL_KEYUP code)
  then show ?thesis
    using handle_key_has_sent [OF assms(1,2), of False code] by simp
next
  case OtherEvent
  then show ?thesis
    using assms(2) by (simp add: ret_def has_sent_nothing)
qed (use assms(4) in simp_all)

text \<open>A round in which the time is not up handles all events of the queue.\<close>

lemma has_sent_trans: "has_sent sent live xs u v \<Longrightarrow> has_sent sent live ys v w \<Longrightarrow> has_sent sent live (xs @ ys) u w"
  by (auto simp: has_sent_def)

lemma has_sent_frame:
  assumes "has_sent sent live bs u v"
  shows "live (socket (vw_socket v))" "sizes_ok v = sizes_ok u" "plain_input v e = plain_input u e"
    "messages_of D v e = messages_of D u e" "vw_inv v = vw_inv u" "event_queue v = event_queue u"
    "clock_reads v = clock_reads u" "sent (socket (vw_socket v)) = sent (socket (vw_socket u)) @ bs"
  using assms by (cases e; auto simp: has_sent_def sizes_ok_def inside_window_def on_picture_x_def on_picture_y_def vw_inv_def)+

text \<open>What a round leaves: bytes sent, the clock read, the queue empty.\<close>

definition worked_off :: "('s \<Rightarrow> byte list) \<Rightarrow> ('s \<Rightarrow> bool) \<Rightarrow> byte list \<Rightarrow> ('s, 'd) viewer \<Rightarrow> ('s, 'd) viewer \<Rightarrow> bool" where
  "worked_off sent live bs v v' \<longleftrightarrow>
     (\<exists>n. has_sent sent live bs (v\<lparr>event_queue := [], clock_reads := n\<rparr>) v')"

lemma poll_loop_sends:
  assumes "stream_contract (vd_asio D) sent avail live" and "\<And>i. vd_clock D i - start < mx"
    and "live (socket (vw_socket v))" and "sizes_ok v" and "\<forall>e \<in> set es. plain_input v e" and "event_queue v = es"
  shows "\<exists>v'. poll_loop D start mx interval es v = (Inr (), v')
    \<and> worked_off sent live (message_frames (concat (map (messages_of D v) es))) v v'"
  using assms(3-)
proof (induction es arbitrary: v)
  case Nil
  then have "v\<lparr>event_queue := [], clock_reads := clock_reads v\<rparr> = v"
    by (cases v) simp
  with Nil.prems(1) have "worked_off sent live [] v v"
    unfolding worked_off_def by (intro exI [of _ "clock_reads v"]) (simp only: has_sent_nothing)
  then show ?case
    by (simp add: ret_def)
next
  case (Cons e es)
  let ?u = "v\<lparr>event_queue := es, clock_reads := clock_reads v + 1\<rparr>"
  have same: "sizes_ok ?u = sizes_ok v" "plain_input ?u x = plain_input v x" "messages_of D ?u x = messages_of D v x" for x
    by (cases x; simp add: sizes_ok_def inside_window_def on_picture_x_def on_picture_y_def)+
  have "live (socket (vw_socket ?u))" "sizes_ok ?u" "plain_input ?u e"
    using Cons.prems by (simp_all only: same) simp_all
  from handle_event_has_sent [OF assms(1) this, of interval] obtain w where
    w: "handle_event D interval e ?u = (Inr (), w)" "has_sent sent live (message_frames (messages_of D v e)) ?u w"
    unfolding same by blast
  note kept = has_sent_frame [OF w(2)]
  have "poll_loop D start mx interval (e # es) v = poll_loop D start mx interval es w"
    using w(1) assms(2) by (simp add: seqE_def bindE_def modify_def clock_now_def)
  moreover have "sizes_ok w" "\<forall>x \<in> set es. plain_input w x" "event_queue w = es"
    using Cons.prems by (simp_all only: kept(2,3,6) same) simp_all
  from Cons.IH [OF kept(1) this] obtain v' where
    v': "poll_loop D start mx interval es w = (Inr (), v')"
      "worked_off sent live (message_frames (concat (map (messages_of D v) es))) w v'"
    unfolding kept(4) same by blast
  moreover have "worked_off sent live (message_frames (concat (map (messages_of D v) (e # es)))) v v'"
  proof -
    obtain n where n: "has_sent sent live (message_frames (concat (map (messages_of D v) es))) (w\<lparr>event_queue := [], clock_reads := n\<rparr>) v'"
      using v'(2) by (auto simp: worked_off_def)
    have "has_sent sent live (message_frames (messages_of D v e)) (v\<lparr>event_queue := [], clock_reads := n\<rparr>)
        (w\<lparr>event_queue := [], clock_reads := n\<rparr>)"
      using w(2) by (cases v) (auto simp: has_sent_def)
    from has_sent_trans [OF this n] show ?thesis
      by (auto simp: worked_off_def)
  qed
  ultimately show ?case
    by auto
qed

section \<open>The streamer queues them\<close>

text \<open>The two completions that a frame causes: its header, its content.\<close>

definition arrive :: "('s, 'w, 'c, 'a) streamer_deps \<Rightarrow> Message \<Rightarrow> (exn, ('s, 'c, 'a) streamer, unit) eff" where
  "arrive E m = seqE
     (st_read_done E None (header_bytes \<lparr>message_size = of_nat (length (content m)), hdr_type = msg_type m\<rparr>))
     (st_read_done E None (content m))"

fun arrive_all :: "('s, 'w, 'c, 'a) streamer_deps \<Rightarrow> Message list \<Rightarrow> (exn, ('s, 'c, 'a) streamer, unit) eff" where
  "arrive_all E [] = ret ()"
| "arrive_all E (m # ms) = seqE (arrive E m) (arrive_all E ms)"

definition polling :: "('s, 'c, 'a) streamer \<Rightarrow> bool" where
  "polling st \<longleftrightarrow> reads (st_socket st) = [HeaderRead PushMessage BUFFER_SIZE_t]"

lemma arrive_pushes:
  assumes "polling st" and "length (content m) \<le> BUFFER_SIZE"
  shows "\<exists>db. arrive E m st = (Inr (), st\<lparr>st_messages := st_messages st @ [m],
    st_socket := (st_socket st)\<lparr>data_buffer := db\<rparr>\<rparr>)"
proof -
  let ?h = "\<lparr>message_size = of_nat (length (content m)), hdr_type = msg_type m\<rparr> :: MessageHeader"
  let ?db = "overwrite (data_buffer (st_socket st)) (header_bytes ?h)"
  let ?u = "st\<lparr>st_socket := (st_socket st)\<lparr>data_buffer := ?db, reads := [BodyRead PushMessage ?h]\<rparr>\<rparr>"
  have size: "unat (of_nat (length (content m)) :: size_t) = length (content m)"
    by (rule deserialize_frame(2) [OF assms(2)])
  then have "(of_nat (length (content m)) :: size_t) \<le> BUFFER_SIZE_t"
    using assms(2) by (simp add: word_le_nat_alt)
  then have header: "deserialize ?db sizeof_MessageHeader BUFFER_SIZE_t = Inr ?h"
    using deserialize_header_bytes [of sizeof_MessageHeader ?h] by (simp add: overwrite_def)
  have first: "st_read_done E None (header_bytes ?h) st = (Inr (), ?u)"
    using assms(1) header by (simp add: st_read_done_def polling_def zoom_def seqE_def bindE_def pop_read_def modify_def
      asyncReadHeader_handler_def catchE_def gets_def lift_sum_def)
  have "st_read_done E None (content m) ?u = (Inr (), ?u\<lparr>st_messages := st_messages st @ [m],
      st_socket := (st_socket st)\<lparr>data_buffer := overwrite ?db (content m),
        reads := [HeaderRead PushMessage BUFFER_SIZE_t]\<rparr>\<rparr>)"
    by (simp add: st_read_done_def zoom_def seqE_def bindE_def pop_read_def modify_def asyncReadMessageImpl_handler_def
      catchE_def gets_def push_message_def scheduleAsyncPollIOEvents_def asyncReadMessage_def asyncReadHeader_def)
  with first assms(1) have "arrive E m st = (Inr (), st\<lparr>st_messages := st_messages st @ [m],
      st_socket := (st_socket st)\<lparr>data_buffer := overwrite ?db (content m)\<rparr>\<rparr>)"
    by (simp add: arrive_def seqE_def bindE_def polling_def)
  then show ?thesis
    by blast
qed

lemma arrive_all_pushes:
  assumes "polling st" and "\<forall>m \<in> set ms. length (content m) \<le> BUFFER_SIZE"
  shows "\<exists>db. arrive_all E ms st = (Inr (), st\<lparr>st_messages := st_messages st @ ms,
    st_socket := (st_socket st)\<lparr>data_buffer := db\<rparr>\<rparr>)"
  using assms
proof (induction ms arbitrary: st)
  case Nil
  then show ?case
    by (intro exI [of _ "data_buffer (st_socket st)"]) (simp add: ret_def)
next
  case (Cons m ms)
  obtain db where first: "arrive E m st = (Inr (), st\<lparr>st_messages := st_messages st @ [m],
      st_socket := (st_socket st)\<lparr>data_buffer := db\<rparr>\<rparr>)"
    using arrive_pushes [of st m E] Cons.prems by auto
  let ?u = "st\<lparr>st_messages := st_messages st @ [m], st_socket := (st_socket st)\<lparr>data_buffer := db\<rparr>\<rparr>"
  have "polling ?u" "\<forall>m \<in> set ms. length (content m) \<le> BUFFER_SIZE"
    using Cons.prems by (simp_all add: polling_def)
  from Cons.IH [OF this] obtain db' where "arrive_all E ms ?u = (Inr (), ?u\<lparr>st_messages := st_messages ?u @ ms,
      st_socket := (st_socket ?u)\<lparr>data_buffer := db'\<rparr>\<rparr>)"
    by blast
  with first show ?case
    by (intro exI [of _ db']) (simp add: seqE_def bindE_def)
qed

lemma messages_of_fit: "m \<in> set (messages_of D v e) \<Longrightarrow> length (content m) \<le> BUFFER_SIZE"
  by (cases e) (auto simp: mouse_message_def key_message_def length_event_bytes)

section \<open>The controller turns them into requests\<close>

definition with_requests :: "x_request list \<Rightarrow> x11 \<Rightarrow> x11" where
  "with_requests rs c = c\<lparr>requests := requests c @ rs\<rparr>"

lemma with_requests_simps [simp]:
  "with_requests [] c = c" "with_requests ss (with_requests rs c) = with_requests (rs @ ss) c"
  "screens (with_requests rs c) = screens c"
  by (simp_all add: with_requests_def)

lemma x_request_with: "x_request r c = (Inr (), with_requests [r] c)"
  by (simp add: x_request_def modify_def with_requests_def)

lemma apply_mouse_message:
  "apply_input x11_ops X (mouse_message msk x y) = handleMouseEvent X \<lparr>button_mask = msk, mouse_x = x, mouse_y = y\<rparr>"
  using mouse.length_bytes [of "\<lparr>button_mask = msk, mouse_x = x, mouse_y = y\<rparr>"]
  by (simp add: apply_input_def mouse_message_def x11_ops_def sizeof_MouseEventData_def mouse.of_bytes_bytes)

lemma apply_key_message:
  "apply_input x11_ops X (key_message d k) c = (Inr (), with_requests (key_requests X d k) c)"
  using keyboard.length_bytes [of "\<lparr>down = d, key = k\<rparr>"]
  by (simp add: apply_input_def key_message_def x11_ops_def sizeof_KeyboardEventData_def keyboard.of_bytes_bytes
    handleKeyboardEvent_def Let_def key_requests_def ret_def seqE_def bindE_def x_request_with)

lemma apply_button_message:
  assumes "b \<in> {1, 2, 3, 4, 5}"
  shows "apply_input x11_ops X (mouse_message (button_mask_of pressed b) x y) c
    = (Inr (), with_requests (button_requests (x11_button b) pressed) c)"
proof -
  obtain msk where msk: "convertToMask b = Inr msk" "decodes_to msk (x11_button b)"
    using convertToMask_button [OF assms] by blast
  then show ?thesis
    using decodes_not_MOVE [OF msk(2)] setClicked_not_MOVE [of msk]
    by (simp add: apply_mouse_message handleMouseEvent_def button_mask_of_def decodes_to_def Let_def seqE_def bindE_def
      x_request_with button_requests_def)
qed

lemma apply_wheel_message:
  "apply_input x11_ops X (mouse_message (if d > 0 then SCROLL_UP_MASK else SCROLL_DOWN_MASK) x y) c
     = (Inr (), with_requests (requests_of D X (SDL_MOUSEWHEEL d)) c)"
  by (simp add: apply_mouse_message handleMouseEvent_def MOVE_def extractButtonID_def isScrollMoved_def mask_values
    SCROLL_UP_def SCROLL_DOWN_def Let_def seqE_def bindE_def x_request_with)

lemma apply_event:
  assumes "plain_input v e"
  shows "apply_inputs x11_ops X (messages_of D v e) c = (Inr (), with_requests (requests_of D X e) c)"
  using assms
  by (cases e) (simp_all add: seqE_def bindE_def ret_def apply_button_message apply_key_message
    apply_wheel_message [where D = D] del: requests_of.simps(3))

lemma apply_inputs_append: "apply_inputs ops w (ms @ ns) = seqE (apply_inputs ops w ms) (apply_inputs ops w ns)"
  by (induction ms) (auto simp: fun_eq_iff seqE_def bindE_def ret_def split: prod.splits sum.splits)

lemma apply_events:
  "\<forall>e \<in> set es. plain_input v e \<Longrightarrow> apply_inputs x11_ops X (concat (map (messages_of D v) es)) c
     = (Inr (), with_requests (concat (map (requests_of D X) es)) c)"
proof (induction es arbitrary: c)
  case Nil
  then show ?case
    by (simp add: ret_def)
next
  case (Cons e es)
  then have "apply_inputs x11_ops X (messages_of D v e) c = (Inr (), with_requests (requests_of D X e) c)"
    by (intro apply_event) simp
  with Cons show ?case
    by (simp add: apply_inputs_append seqE_def bindE_def)
qed

section \<open>From window to screen\<close>

lemma streamer_applies:
  assumes "polling st" and "st_messages st = []" and "sd_io E = ops" and "\<forall>m \<in> set ms. length (content m) \<le> BUFFER_SIZE"
    and "apply_inputs ops X ms (st_io st) = (Inr (), c)"
  shows "\<exists>st'. arrive_all E ms st = (Inr (), st') \<and> polling st'
    \<and> handleIOEvents E X st' = (Inr (), st'\<lparr>st_io := c, st_messages := []\<rparr>)"
proof -
  obtain db where arrived: "arrive_all E ms st = (Inr (), st\<lparr>st_messages := ms, st_socket := (st_socket st)\<lparr>data_buffer := db\<rparr>\<rparr>)"
    using arrive_all_pushes [OF assms(1,4), of E] assms(2) by auto
  let ?u = "st\<lparr>st_messages := ms, st_socket := (st_socket st)\<lparr>data_buffer := db\<rparr>\<rparr>"
  have "apply_inputs (sd_io E) X ms (st_io ?u) = (Inr (), c)"
    using assms(3,5) by simp
  with handle_messages_apply [of ?u ms E X] have "handle_messages E X ms ?u = (Inr (), ?u\<lparr>st_io := c, st_messages := []\<rparr>)"
    by auto
  then have "handleIOEvents E X ?u = (Inr (), ?u\<lparr>st_io := c, st_messages := []\<rparr>)"
    by (simp add: handleIOEvents_def)
  moreover have "polling ?u"
    using assms(1) by (simp add: polling_def)
  ultimately show ?thesis
    using arrived by blast
qed

text \<open>The sum of a position on a screen and the origin of the screen.\<close>

lemma add_int_small:
  assumes "sint w = p" and "0 \<le> p" and "p < 2 ^ 15" and "- (2 ^ 15) \<le> b" and "b < 2 ^ 15"
  obtains q where "add_int w b = Inr q" and "sint q = b + p"
proof -
  have "add_int w b = Inr (word_of_int (b + p))"
    using assms by (simp add: add_int_def add.commute del: of_int_add)
  moreover have "sint (word_of_int (b + p) :: int32) = b + p"
    using assms(2-5) by (simp add: int_word_sint del: of_int_add)
  ultimately show ?thesis
    by (rule that)
qed

text \<open>
  Remote control works. When the events in the viewer's queue are mouse buttons inside the
  window, the wheel, keys, and events of no interest, and the time is not up: one round of the
  event loop empties the queue and sends frames of messages; when those frames arrive at a
  streamer, the next \<open>handleIOEvents\<close> of it makes exactly the requests to the X server that the
  events stand for, in their order - the same button pressed or released, one press and release
  for a turn of the wheel, the key the X server has for the translated symbol - and no others,
  and both ends go on waiting.
\<close>

theorem remote_control:
  assumes "stream_contract (vd_asio D) sent avail live" and "live (socket (vw_socket v))" and "sizes_ok v"
    and "\<forall>e \<in> set (event_queue v). plain_input v e"
    and "\<forall>i. vd_clock D i - vd_clock D (clock_reads v) < max_poll_time"
    and "polling st" and "st_messages st = []" and "sd_io E = x11_ops"
  shows "\<exists>v' ms st'. client_handleIOEvents D max_poll_time interval v = (Inr (), v') \<and> event_queue v' = []
    \<and> sent (socket (vw_socket v')) = sent (socket (vw_socket v)) @ message_frames ms
    \<and> arrive_all E ms st = (Inr (), st') \<and> polling st'
    \<and> handleIOEvents E X st' = (Inr (), st'\<lparr>st_messages := [],
        st_io := with_requests (concat (map (requests_of D X) (event_queue v))) (st_io st)\<rparr>)"
proof -
  let ?u = "v\<lparr>clock_reads := clock_reads v + 1\<rparr>" and ?es = "event_queue v" and ?ms = "concat (map (messages_of D v) (event_queue v))"
  have same: "sizes_ok ?u = sizes_ok v" "plain_input ?u x = plain_input v x" "messages_of D ?u x = messages_of D v x" for x
    by (cases x; simp add: sizes_ok_def inside_window_def on_picture_x_def on_picture_y_def)+
  have u: "live (socket (vw_socket ?u))" "sizes_ok ?u" "\<forall>e \<in> set ?es. plain_input ?u e" "event_queue ?u = ?es"
    unfolding same using assms(2-4) by simp_all
  have in_time: "vd_clock D i - vd_clock D (clock_reads v) < max_poll_time" for i
    using assms(5) by blast
  obtain v' where v': "poll_loop D (vd_clock D (clock_reads v)) max_poll_time interval ?es ?u = (Inr (), v')"
    "worked_off sent live (message_frames ?ms) ?u v'"
    using poll_loop_sends [OF assms(1) in_time u, of interval] unfolding same by blast
  have "client_handleIOEvents D max_poll_time interval v = (Inr (), v')"
    using v'(1) by (simp add: client_handleIOEvents_def bindE_def clock_now_def)
  moreover have "event_queue v' = []" "sent (socket (vw_socket v')) = sent (socket (vw_socket v)) @ message_frames ?ms"
    using v'(2) by (auto simp: worked_off_def has_sent_def)
  moreover have "\<forall>m \<in> set ?ms. length (content m) \<le> BUFFER_SIZE"
    using messages_of_fit by fastforce
  with streamer_applies [OF assms(6-8) _ apply_events [OF assms(4)]]
  obtain st' where "arrive_all E ?ms st = (Inr (), st')" "polling st'" "handleIOEvents E X st' = (Inr (),
      st'\<lparr>st_io := with_requests (concat (map (requests_of D X) ?es)) (st_io st), st_messages := []\<rparr>)"
    by blast
  moreover have "st'\<lparr>st_io := c, st_messages := []\<rparr> = st'\<lparr>st_messages := [], st_io := c\<rparr>" for c
    by simp
  ultimately show ?thesis
    by metis
qed


text \<open>A viewer whose clock stands still, and a streamer that waits for messages.\<close>

definition still_deps :: "(pipe, cstring, cstring) viewer_deps" where
  "still_deps = row_deps\<lparr>vd_clock := (\<lambda>i. 0)\<rparr>"

definition polling_streamer :: "(pipe, x11, nat) streamer" where
  "polling_streamer = dot_streamer\<lparr>st_socket := (st_socket dot_streamer)\<lparr>reads := [HeaderRead PushMessage BUFFER_SIZE_t]\<rparr>,
     st_io := \<lparr>screens = \<lparr>x_org = 1280, y_org = 0, screen_width = 800, screen_height = 600\<rparr>, requests = []\<rparr>\<rparr>"

lemma still_contract: "stream_contract (vd_asio still_deps) outgoing incoming opened"
  using pipe_contract by (simp add: still_deps_def row_deps_def)

lemma row_viewer_ok:
  "opened (socket (vw_socket (row_viewer [])))" "sizes_ok (row_viewer [])" "inside_window (row_viewer []) 400 300"
  by (simp_all add: row_viewer_def new_SocketBase_def sizes_ok_def inside_window_def)

lemma polling_streamer_ok:
  "polling polling_streamer" "st_messages polling_streamer = []" "sd_io dot_deps = x11_ops"
  by (simp_all add: polling_streamer_def polling_def dot_streamer_def dot_deps_def)


end
