(* ===== verification/Screen_Path.thy ===== *)
theory Screen_Path
  imports Remote_Control
begin

text \<open>
  The screen from end to end: the chain of screenshots of \<open>ScreenViewerStreamer\<close>, each sent when
  the one before it is written, and the frames that \<open>ScreenViewerClient\<close> makes of them. A bridge
  between the two forwards the bytes unchanged (theory \<open>Relayed\<close>).
\<close>

section \<open>The chain of screenshots\<close>

text \<open>The packets a codec makes of a sequence of pictures, when it makes one of each.\<close>

fun encode_seq :: "'a av_encoder \<Rightarrow> vec3b mat list \<Rightarrow> 'a VideoEncoder \<Rightarrow> cstring list option" where
  "encode_seq V [] e = Some []"
| "encode_seq V (img # imgs) e = (case encode V img e of
     (Inr (Some b), e') \<Rightarrow> map_option (\<lambda>bs. b # bs) (encode_seq V imgs e')
   | _ \<Rightarrow> None)"

text \<open>
  The completions of the writes in flight, one after the other: the bytes that were written by
  them, and what the last handler returned.
\<close>

fun write_rounds ::
  "('s, 'w, 'c, 'a) streamer_deps \<Rightarrow> 'w list \<Rightarrow> ('s, 'c, 'a) streamer \<Rightarrow> byte list \<times> (exn + unit) \<times> ('s, 'c, 'a) streamer" where
  "write_rounds E [] st = ([], Inr (), st)"
| "write_rounds E (w # ws) st =
     (case writes (st_socket st) of
        [] \<Rightarrow> ([], Inr (), st)
      | (bytes, h) # rest \<Rightarrow>
          (case st_write_done E w None st of
             (Inl e, st') \<Rightarrow> (bytes, Inl e, st')
           | (Inr u, st') \<Rightarrow> (case write_rounds E ws st' of (bs, r) \<Rightarrow> (bytes @ bs, r))))"

text \<open>The screenshots of the controller, in the format of the encoder.\<close>

definition takes :: "('s, 'w, 'c, 'a) streamer_deps \<Rightarrow> ('w \<Rightarrow> vec4b mat) \<Rightarrow> 'c \<Rightarrow> 'w list \<Rightarrow> bool" where
  "takes E shot c ws \<longleftrightarrow> (\<forall>w \<in> set ws. io_screenshot (sd_io E) w c = (Inr (shot w), c))"

definition one_write :: "cstring \<Rightarrow> ('s, 'c, 'a) streamer \<Rightarrow> bool" where
  "one_write b st \<longleftrightarrow> writes (st_socket st) = [(frame SCREEN_UPDATE b, SendNextScreenshot)]"

lemma screenshot_sent:
  assumes "io_screenshot (sd_io E) w (st_io st) = (Inr img, st_io st)"
    and "encode (sd_codec E) (bgra2bgr img) (st_encoder st) = (Inr (Some b), e)"
    and "writes (st_socket st) = []"
  shows "\<exists>st'. scheduleAsyncSendScreenshots E w st = (Inr (), st') \<and> one_write b st'
    \<and> st_io st' = st_io st \<and> st_encoder st' = e"
  using assms by (simp add: scheduleAsyncSendScreenshots_def bindE_def zoom_def asyncSendMessage_def modify_def one_write_def)

lemma write_done_sends:
  assumes "io_screenshot (sd_io E) w (st_io st) = (Inr img, st_io st)"
    and "encode (sd_codec E) (bgra2bgr img) (st_encoder st) = (Inr (Some b), e)" and "one_write a st"
  shows "\<exists>st'. st_write_done E w None st = (Inr (), st') \<and> one_write b st' \<and> st_io st' = st_io st \<and> st_encoder st' = e"
proof -
  let ?u = "st\<lparr>st_socket := (st_socket st)\<lparr>writes := []\<rparr>\<rparr>"
  have "st_write_done E w None st = scheduleAsyncSendScreenshots E w ?u"
    using assms(3) by (simp add: st_write_done_def one_write_def seqE_def bindE_def zoom_def modify_def asyncSendMessage_handler_def)
  moreover have "io_screenshot (sd_io E) w (st_io ?u) = (Inr img, st_io ?u)"
    "encode (sd_codec E) (bgra2bgr img) (st_encoder ?u) = (Inr (Some b), e)" "writes (st_socket ?u) = []"
    using assms(1,2) by simp_all
  from screenshot_sent [OF this] obtain st' where "scheduleAsyncSendScreenshots E w ?u = (Inr (), st')"
    "one_write b st'" "st_io st' = st_io st" "st_encoder st' = e"
    by auto
  ultimately show ?thesis
    by simp
qed

lemma encode_seq_Cons:
  assumes "encode_seq V (img # imgs) e = Some bs"
  obtains b bs' e' where "bs = b # bs'" "encode V img e = (Inr (Some b), e')" "encode_seq V imgs e' = Some bs'"
  using assms by (auto split: prod.splits sum.splits option.splits)

lemma write_rounds_wire:
  assumes "takes E shot (st_io st) ws" and "one_write a st"
    and "encode_seq (sd_codec E) (map (\<lambda>w. bgra2bgr (shot w)) ws) (st_encoder st) = Some bs"
  shows "\<exists>st'. write_rounds E ws st = (concat (map (frame SCREEN_UPDATE) (butlast (a # bs))), Inr (), st')"
  using assms
proof (induction ws arbitrary: st a bs)
  case Nil
  then show ?case
    by simp
next
  case (Cons w ws)
  obtain b bs' e where bs: "bs = b # bs'"
    and enc: "encode (sd_codec E) (bgra2bgr (shot w)) (st_encoder st) = (Inr (Some b), e)"
    and rest: "encode_seq (sd_codec E) (map (\<lambda>w. bgra2bgr (shot w)) ws) e = Some bs'"
    by (rule encode_seq_Cons [OF Cons.prems(3) [unfolded list.map]])
  have "io_screenshot (sd_io E) w (st_io st) = (Inr (shot w), st_io st)"
    using Cons.prems(1) by (simp add: takes_def)
  from write_done_sends [OF this enc Cons.prems(2)] obtain u where
    u: "st_write_done E w None st = (Inr (), u)" "one_write b u" "st_io u = st_io st" "st_encoder u = e"
    by blast
  have "takes E shot (st_io u) ws"
    using Cons.prems(1) u(3) by (simp add: takes_def)
  moreover have "encode_seq (sd_codec E) (map (\<lambda>w. bgra2bgr (shot w)) ws) (st_encoder u) = Some bs'"
    using rest u(4) by simp
  ultimately obtain st' where "write_rounds E ws u = (concat (map (frame SCREEN_UPDATE) (butlast (b # bs'))), Inr (), st')"
    using Cons.IH [OF _ u(2)] by blast
  with u(1) Cons.prems(2) show ?case
    by (simp add: one_write_def bs)
qed

section \<open>The viewer shows the screen\<close>

lemma updates_only: "message_stream (map (\<lambda>b. (SCREEN_UPDATE, b)) bs) = concat (map (frame SCREEN_UPDATE) bs)"
  "updates (map (\<lambda>b. (SCREEN_UPDATE, b)) bs) = bs"
  by (induction bs) (simp_all add: message_stream_def updates_def)

lemma filter_all2: "list_all2 alike xs ys \<Longrightarrow> \<forall>x y. alike x y \<longrightarrow> P x \<Longrightarrow> filter P xs = xs"
  by (induction rule: list_all2_induct) auto

lemma length_encode_seq: "encode_seq V imgs e = Some bs \<Longrightarrow> length bs = length imgs"
proof (induction imgs arbitrary: e bs)
  case (Cons img imgs)
  then show ?case
    by (elim encode_seq_Cons) auto
qed simp

text \<open>
  The viewer shows the screen. A streamer takes a screenshot and sends it, and takes and sends
  another one whenever a write completes; the encoder makes of each a packet that fits a message. A
  viewer that receives the bytes of the completed writes, and then the end of the connection,
  gives SDL as many pictures as were written, in their order, and each is like the screenshot
  it comes from, for whatever likeness the decoder keeps on these packets.
\<close>

theorem viewer_shows_the_screen:
  assumes streamer: "writes (st_socket st) = []" "takes E shot (st_io st) (w # ws)"
    and packets: "encode_seq (sd_codec E) (map (\<lambda>w. bgra2bgr (shot w)) (w # ws)) (st_encoder st) = Some bs"
      "\<forall>b \<in> set bs. length b \<le> BUFFER_SIZE"
    and codec: "list_all2 alike (decode_all (vd_codec D) (vw_decoder v) (butlast bs))
        (map (\<lambda>w. bgra2bgr (shot w)) (butlast (w # ws)))" "\<forall>a b. alike a b \<longrightarrow> \<not> mat_empty a"
    and viewer: "stream_contract (vd_asio D) sent avail live" "resize_copies D" "\<forall>w h. SDL_CreateTexture D w h"
      "\<forall>s. live s \<and> avail s = [] \<longrightarrow> (\<exists>ec t. op_read (vd_asio D) sizeof_MessageHeader s = (Inl ec, t))"
    and received: "watching avail live (fst (write_rounds E ws (snd (scheduleAsyncSendScreenshots E w st)))) v"
  shows "fst (scheduleAsyncSendScreenshots E w st) = Inr ()
    \<and> fst (snd (write_rounds E ws (snd (scheduleAsyncSendScreenshots E w st)))) = Inr ()
    \<and> (\<exists>v' shown. viewer_run D (\<lambda>_. []) v = Some (Inr (), v') \<and> uploaded (sdl_calls v') = uploaded (sdl_calls v) @ shown
        \<and> list_all2 alike shown (map (\<lambda>w. bgra2bgr (shot w)) (butlast (w # ws))))"
proof -
  obtain b bs' e where bs: "bs = b # bs'"
    and enc: "encode (sd_codec E) (bgra2bgr (shot w)) (st_encoder st) = (Inr (Some b), e)"
    and rest: "encode_seq (sd_codec E) (map (\<lambda>w. bgra2bgr (shot w)) ws) e = Some bs'"
    by (rule encode_seq_Cons [OF packets(1) [unfolded list.map]])
  have "io_screenshot (sd_io E) w (st_io st) = (Inr (shot w), st_io st)"
    using streamer(2) by (simp add: takes_def)
  from screenshot_sent [OF this enc streamer(1)] obtain u where
    u: "scheduleAsyncSendScreenshots E w st = (Inr (), u)" "one_write b u" "st_io u = st_io st" "st_encoder u = e"
    by blast
  have "takes E shot (st_io u) ws"
    using streamer(2) u(3) by (simp add: takes_def)
  from write_rounds_wire [OF this u(2)] rest u(4) obtain st' where
    wire: "write_rounds E ws u = (concat (map (frame SCREEN_UPDATE) (butlast bs)), Inr (), st')"
    by (auto simp: bs)
  let ?ms = "map (\<lambda>b. (SCREEN_UPDATE, b)) (butlast bs)"
  have "watching avail live (message_stream ?ms) v"
    using received unfolding u(1) wire updates_only snd_conv fst_conv .
  moreover have "\<forall>(t, c) \<in> set ?ms. length c \<le> BUFFER_SIZE"
    using packets(2) by (auto dest: in_set_butlastD)
  ultimately obtain v' ec where "runLoop D (\<lambda>_. []) 0 v = Some (Inl (SystemError ec), v')"
    "uploaded (sdl_calls v') = uploaded (sdl_calls v) @ pictures D (vw_decoder v) ?ms"
    using runLoop_ends [OF viewer, of ?ms v 0] by blast
  moreover have "pictures D (vw_decoder v) ?ms = decode_all (vd_codec D) (vw_decoder v) (butlast bs)"
    unfolding pictures_def updates_only by (rule filter_all2 [OF codec])
  ultimately have "viewer_run D (\<lambda>_. []) v = Some (Inr (), v')"
    "uploaded (sdl_calls v') = uploaded (sdl_calls v) @ decode_all (vd_codec D) (vw_decoder v) (butlast bs)"
    by (simp_all add: viewer_run_def)
  with codec(1) show ?thesis
    unfolding u(1) snd_conv fst_conv wire by blast
qed

text \<open>A codec for pictures of one row, a blank screen of one pixel, and two screenshots of it.\<close>

definition row_encoder :: "cstring av_encoder" where
  "row_encoder = \<lparr>send_frame = (\<lambda>pts img n. (0, map fst (hd (mat_data img)))), receive_packet = (\<lambda>n. (0, n, n))\<rparr>"

definition screen_deps :: "(pipe, x_server, x11, cstring) streamer_deps" where
  "screen_deps = \<lparr>sd_lib = \<lparr>fmt_unsigned = (\<lambda>n. []), ec_what = (\<lambda>e. [])\<rparr>, sd_asio = pipe_ops, sd_io = x11_ops,
     sd_codec = row_encoder\<rparr>"

definition screen_streamer :: "(pipe, x11, cstring) streamer" where
  "screen_streamer = \<lparr>st_socket = new_SocketBase \<lparr>incoming = [], outgoing = [], opened = True\<rparr>, st_io = dot_screen,
     st_encoder = \<lparr>frame_id = 1, enc_context = enc_context dot_encoder, enc_frame = (1, 1), enc_codec = []\<rparr>, st_messages = []\<rparr>"

definition blank_dot :: "vec4b mat" where
  "blank_dot = \<lparr>mat_rows = 1, mat_cols = 1, mat_data = [[(0, 0, 0, 0)]]\<rparr>"

end
