(* ===== verification/Bridges.thy ===== *)
theory Bridges
  imports Transport
begin

text \<open>
  The relay between a streamer and its viewer: \<open>include/Bridge.hpp\<close>. Both peers are streams
  of Boost.Asio; a bridge keeps one asynchronous read in flight on each, and the completion
  of a read writes what arrived to the other peer before the next read starts. An exception
  that leaves a handler leaves \<open>io_context.run()\<close>, so it is the result of the event.
\<close>

section \<open>State and operations\<close>

datatype direction =
    Upstream        \<comment> \<open>read from \<open>peer_two\<close>, write to \<open>peer_one\<close>\<close>
  | Downstream      \<comment> \<open>read from \<open>peer_one\<close>, write to \<open>peer_two\<close>\<close>

record 's bridge =
  peer_one :: 's
  peer_one_address :: cstring
  peer_two :: 's
  peer_two_address :: cstring
  server_buffer :: "byte list"
  client_buffer :: "byte list"
  in_flight :: "direction list"

definition MAX_DATA_LENGTH :: nat where
  "MAX_DATA_LENGTH = 1000000"

text \<open>The constructor asks both sockets for the address of their peer, and throws when one has none.\<close>

definition new_bridge :: "'s asio \<Rightarrow> 's \<Rightarrow> 's \<Rightarrow> exn + 's bridge" where
  "new_bridge ops one two =
     (case op_remote_endpoint ops one of
        Inl ec \<Rightarrow> Inl (SystemError ec)
      | Inr address_one \<Rightarrow>
          (case op_remote_endpoint ops two of
             Inl ec \<Rightarrow> Inl (SystemError ec)
           | Inr address_two \<Rightarrow> Inr \<lparr>peer_one = one, peer_one_address = address_one,
               peer_two = two, peer_two_address = address_two,
               server_buffer = replicate MAX_DATA_LENGTH 0, client_buffer = replicate MAX_DATA_LENGTH 0,
               in_flight = []\<rparr>))"

abbreviation on_one :: "('s \<Rightarrow> (exn + 'a) \<times> 's) \<Rightarrow> (exn, 's bridge, 'a) eff" where
  "on_one \<equiv> zoom peer_one (\<lambda>s b. b\<lparr>peer_one := s\<rparr>)"

abbreviation on_two :: "('s \<Rightarrow> (exn + 'a) \<times> 's) \<Rightarrow> (exn, 's bridge, 'a) eff" where
  "on_two \<equiv> zoom peer_two (\<lambda>s b. b\<lparr>peer_two := s\<rparr>)"

definition start_read :: "direction \<Rightarrow> (exn, 's bridge, unit) eff" where
  "start_read d = modify (\<lambda>b. b\<lparr>in_flight := in_flight b @ [d]\<rparr>)"

definition start_bridge :: "(exn, 's bridge, unit) eff" where
  "start_bridge = seqE (start_read Upstream) (start_read Downstream)"

text \<open>
  \<open>close\<close>. The second branch shuts \<open>peer_one\<close> down, not \<open>peer_two\<close>; \<open>shutdown\<close> and
  \<open>close\<close> without an \<open>error_code\<close> argument throw.
\<close>

definition close_bridge :: "'s asio \<Rightarrow> (exn, 's bridge, unit) eff" where
  "close_bridge ops =
     seqE (\<lambda>b. whenE (op_is_open ops (peer_one b))
             (seqE (on_one (or_throw SystemError (op_shutdown ops)))
                   (on_one (or_throw SystemError (op_close ops)))) b)
          (\<lambda>b. whenE (op_is_open ops (peer_two b))
             (seqE (on_one (or_throw SystemError (op_shutdown ops)))
                   (on_two (or_throw SystemError (op_close ops)))) b)"

definition handle_downstream_write :: "'s asio \<Rightarrow> error_code option \<Rightarrow> (exn, 's bridge, unit) eff" where
  "handle_downstream_write ops error =
     (case error of None \<Rightarrow> start_read Upstream | Some _ \<Rightarrow> close_bridge ops)"

definition handle_upstream_write :: "'s asio \<Rightarrow> error_code option \<Rightarrow> (exn, 's bridge, unit) eff" where
  "handle_upstream_write ops error =
     (case error of None \<Rightarrow> start_read Downstream | Some _ \<Rightarrow> close_bridge ops)"

definition handle_upstream_read :: "'s asio \<Rightarrow> error_code option \<Rightarrow> nat \<Rightarrow> (exn, 's bridge, unit) eff" where
  "handle_upstream_read ops error bytes_transferred =
     (case error of
        None \<Rightarrow> (\<lambda>b.
          let (ec, s) = op_write ops (take bytes_transferred (client_buffer b)) (peer_one b)
          in handle_downstream_write ops ec (b\<lparr>peer_one := s\<rparr>))
      | Some _ \<Rightarrow> close_bridge ops)"

definition handle_downstream_read :: "'s asio \<Rightarrow> error_code option \<Rightarrow> nat \<Rightarrow> (exn, 's bridge, unit) eff" where
  "handle_downstream_read ops error bytes_transferred =
     (case error of
        None \<Rightarrow> (\<lambda>b.
          let (ec, s) = op_write ops (take bytes_transferred (server_buffer b)) (peer_two b)
          in handle_upstream_write ops ec (b\<lparr>peer_two := s\<rparr>))
      | Some _ \<Rightarrow> close_bridge ops)"

text \<open>
  The completion of a read in flight, with its error or the bytes that arrived in the buffer.
  A completion without a read in flight does not occur; it changes nothing.
\<close>

datatype bridge_event = ReadDone direction "error_code option" "byte list"

fun bridge_event_handler :: "'s asio \<Rightarrow> bridge_event \<Rightarrow> (exn, 's bridge, unit) eff" where
  "bridge_event_handler ops (ReadDone Upstream error bytes) b =
     (if Upstream \<in> set (in_flight b)
      then handle_upstream_read ops error (length bytes)
             (b\<lparr>in_flight := remove1 Upstream (in_flight b), client_buffer := overwrite (client_buffer b) bytes\<rparr>)
      else (Inr (), b))"
| "bridge_event_handler ops (ReadDone Downstream error bytes) b =
     (if Downstream \<in> set (in_flight b)
      then handle_downstream_read ops error (length bytes)
             (b\<lparr>in_flight := remove1 Downstream (in_flight b), server_buffer := overwrite (server_buffer b) bytes\<rparr>)
      else (Inr (), b))"

text \<open>The events of a bridge in the order they happen, up to the first exception.\<close>

fun bridge_run :: "'s asio \<Rightarrow> bridge_event list \<Rightarrow> (exn, 's bridge, unit) eff" where
  "bridge_run ops [] = ret ()"
| "bridge_run ops (ev # evs) = seqE (bridge_event_handler ops ev) (bridge_run ops evs)"

section \<open>Relaying\<close>

text \<open>What arrived in a direction.\<close>

fun arrived :: "direction \<Rightarrow> bridge_event list \<Rightarrow> byte list" where
  "arrived d [] = []"
| "arrived d (ReadDone d' error bytes # evs) = (if d' = d then bytes else []) @ arrived d evs"

definition bridge_ready :: "'s bridge \<Rightarrow> bool" where
  "bridge_ready b \<longleftrightarrow> set (in_flight b) = {Upstream, Downstream} \<and> distinct (in_flight b)"

lemma bridge_ready_restart:
  assumes "bridge_ready b"
  shows "set (remove1 d (in_flight b) @ [d]) = {Upstream, Downstream}"
    and "distinct (remove1 d (in_flight b) @ [d])"
  using assms by (cases d; auto simp: bridge_ready_def)+

lemma start_bridge_ready: "in_flight b = [] \<Longrightarrow> bridge_ready (snd (start_bridge b))"
  by (simp add: start_bridge_def start_read_def bridge_ready_def eff)

lemma upstream_relays:
  assumes "stream_contract ops sent avail live" and "live (peer_one b)" and "bridge_ready b"
  obtains b' where "bridge_event_handler ops (ReadDone Upstream None bytes) b = (Inr (), b')"
    "live (peer_one b')" "sent (peer_one b') = sent (peer_one b) @ bytes"
    "peer_two b' = peer_two b" "bridge_ready b'"
proof -
  obtain t where t: "op_write ops bytes (peer_one b) = (None, t)" "live t" "sent t = sent (peer_one b) @ bytes"
    by (rule contract_write [OF assms(1,2)])
  have "Upstream \<in> set (in_flight b)"
    using assms(3) by (simp add: bridge_ready_def)
  with t that bridge_ready_restart [OF assms(3), of Upstream] show thesis
    by (simp add: handle_upstream_read_def handle_downstream_write_def start_read_def modify_def
      bridge_ready_def)
qed

lemma downstream_relays:
  assumes "stream_contract ops sent avail live" and "live (peer_two b)" and "bridge_ready b"
  obtains b' where "bridge_event_handler ops (ReadDone Downstream None bytes) b = (Inr (), b')"
    "live (peer_two b')" "sent (peer_two b') = sent (peer_two b) @ bytes"
    "peer_one b' = peer_one b" "bridge_ready b'"
proof -
  obtain t where t: "op_write ops bytes (peer_two b) = (None, t)" "live t" "sent t = sent (peer_two b) @ bytes"
    by (rule contract_write [OF assms(1,2)])
  have "Downstream \<in> set (in_flight b)"
    using assms(3) by (simp add: bridge_ready_def)
  with t that bridge_ready_restart [OF assms(3), of Downstream] show thesis
    by (simp add: handle_downstream_read_def handle_upstream_write_def start_read_def modify_def
      bridge_ready_def)
qed

definition no_error :: "bridge_event \<Rightarrow> bool" where
  "no_error ev = (case ev of ReadDone d error bytes \<Rightarrow> error = None)"

lemma bridge_run_relays:
  assumes "stream_contract ops sent avail live"
  shows "live (peer_one b) \<Longrightarrow> live (peer_two b) \<Longrightarrow> bridge_ready b \<Longrightarrow> list_all no_error evs \<Longrightarrow>
    \<exists>b'. bridge_run ops evs b = (Inr (), b') \<and> live (peer_one b') \<and> live (peer_two b') \<and> bridge_ready b'
      \<and> sent (peer_one b') = sent (peer_one b) @ arrived Upstream evs
      \<and> sent (peer_two b') = sent (peer_two b) @ arrived Downstream evs"
proof (induction evs arbitrary: b)
  case Nil
  then show ?case
    by (simp add: ret_def)
next
  case (Cons ev evs)
  obtain d bytes where ev: "ev = ReadDone d None bytes"
    using Cons.prems(4) by (cases ev) (auto simp: no_error_def)
  show ?case
  proof (cases d)
    case Upstream
    obtain b1 where b1: "bridge_event_handler ops ev b = (Inr (), b1)" "live (peer_one b1)"
      "sent (peer_one b1) = sent (peer_one b) @ bytes" "peer_two b1 = peer_two b" "bridge_ready b1"
      using upstream_relays [OF assms Cons.prems(1,3), of bytes] ev Upstream by blast
    with Cons.IH [of b1] Cons.prems(2,4) ev Upstream show ?thesis
      by (auto simp: seqE_step)
  next
    case Downstream
    obtain b1 where b1: "bridge_event_handler ops ev b = (Inr (), b1)" "live (peer_two b1)"
      "sent (peer_two b1) = sent (peer_two b) @ bytes" "peer_one b1 = peer_one b" "bridge_ready b1"
      using downstream_relays [OF assms Cons.prems(2,3), of bytes] ev Downstream by blast
    with Cons.IH [of b1] Cons.prems(1,4) ev Downstream show ?thesis
      by (auto simp: seqE_step)
  qed
qed

text \<open>
  C15. The bridge is transparent: once it is started between two working connections, any
  sequence of successful reads, in any interleaving of the two directions, is handled without
  an exception; each peer has been sent exactly the bytes that arrived from the other, in
  their order, and one read stays in flight on each side.
\<close>

theorem bridge_transparent:
  assumes "stream_contract ops sent avail live"
    and "new_bridge ops one two = Inr b" and "live one" and "live two"
    and "list_all no_error evs"
  shows "\<exists>b'. bridge_run ops evs (snd (start_bridge b)) = (Inr (), b')
    \<and> sent (peer_one b') = sent one @ arrived Upstream evs
    \<and> sent (peer_two b') = sent two @ arrived Downstream evs
    \<and> set (in_flight b') = {Upstream, Downstream} \<and> distinct (in_flight b')"
proof -
  have b: "in_flight b = []" "peer_one b = one" "peer_two b = two"
    using assms(2) by (auto simp: new_bridge_def split: sum.splits)
  have peers: "peer_one (snd (start_bridge b)) = one" "peer_two (snd (start_bridge b)) = two"
    using b by (simp_all add: start_bridge_def start_read_def eff)
  show ?thesis
    using bridge_run_relays [OF assms(1), of "snd (start_bridge b)" evs] assms(3-5) peers
      start_bridge_ready [OF b(1)] by (auto simp: bridge_ready_def)
qed

definition open_pipe :: pipe where
  "open_pipe = \<lparr>incoming = [], outgoing = [], opened = True\<rparr>"

lemma bridge_transparent_witness:
  "\<exists>b. new_bridge pipe_ops open_pipe open_pipe = Inr b
    \<and> (\<exists>b'. bridge_run pipe_ops [ReadDone Upstream None [1], ReadDone Downstream None [2], ReadDone Upstream None [3]]
           (snd (start_bridge b)) = (Inr (), b') \<and> outgoing (peer_one b') = [1, 3] \<and> outgoing (peer_two b') = [2])"
proof -
  obtain b where b: "new_bridge pipe_ops open_pipe open_pipe = Inr b"
    by (simp add: new_bridge_def open_pipe_def)
  have "opened open_pipe"
    by (simp add: open_pipe_def)
  from bridge_transparent [OF pipe_contract b this this,
      of "[ReadDone Upstream None [1], ReadDone Downstream None [2], ReadDone Upstream None [3]]"] b
  show ?thesis
    by (auto simp: no_error_def open_pipe_def)
qed

section \<open>Closing\<close>

text \<open>What is documented of closed sockets: they are not open, and shutting one down fails.\<close>

definition closing_contract :: "'s asio \<Rightarrow> bool" where
  "closing_contract ops \<longleftrightarrow>
     (\<forall>s t. op_close ops s = (None, t) \<longrightarrow> \<not> op_is_open ops t)
   \<and> (\<forall>s. \<not> op_is_open ops s \<longrightarrow> (\<exists>ec. op_shutdown ops s = (Some ec, s)))"

lemma closing_contract_closed:
  "closing_contract ops \<Longrightarrow> op_close ops s = (None, t) \<Longrightarrow> \<not> op_is_open ops t"
  by (auto simp: closing_contract_def)

lemma closing_contract_shutdown:
  assumes "closing_contract ops" and "\<not> op_is_open ops s"
  obtains ec where "op_shutdown ops s = (Some ec, s)"
  using assms by (auto simp: closing_contract_def)

lemma close_bridge_second_branch:
  assumes "closing_contract ops" and "op_is_open ops (peer_two b)" and "\<not> op_is_open ops (peer_one b)"
  shows "\<exists>ec. whenE (op_is_open ops (peer_two b))
      (seqE (on_one (or_throw SystemError (op_shutdown ops)))
            (on_two (or_throw SystemError (op_close ops)))) b = (Inl (SystemError ec), b)"
proof -
  obtain ec where "op_shutdown ops (peer_one b) = (Some ec, peer_one b)"
    by (rule closing_contract_shutdown [OF assms(1,3)])
  with assms(2) show ?thesis
    by (simp add: eff)
qed

lemma close_bridge_throws:
  assumes "closing_contract ops" and "op_is_open ops (peer_two b)"
  shows "\<exists>ec b'. close_bridge ops b = (Inl (SystemError ec), b') \<and> peer_two b' = peer_two b"
proof (cases "op_is_open ops (peer_one b)")
  case False
  then show ?thesis
    using close_bridge_second_branch [OF assms False]
    by (auto simp: close_bridge_def seqE_step whenE_def [of False] ret_def)
next
  case True
  obtain ec s where sd: "op_shutdown ops (peer_one b) = (ec, s)"
    by fastforce
  show ?thesis
  proof (cases ec)
    case (Some e)
    with True sd show ?thesis
      by (simp add: close_bridge_def eff)
  next
    case None
    obtain ec' t where cl: "op_close ops s = (ec', t)"
      by fastforce
    show ?thesis
    proof (cases ec')
      case (Some e)
      with True sd None cl show ?thesis
        by (simp add: close_bridge_def eff)
    next
      case None': None
      let ?b = "b\<lparr>peer_one := t\<rparr>"
      have "\<not> op_is_open ops (peer_one ?b)"
        using closing_contract_closed [OF assms(1)] cl None' by simp
      then obtain e where "whenE (op_is_open ops (peer_two ?b))
          (seqE (on_one (or_throw SystemError (op_shutdown ops)))
                (on_two (or_throw SystemError (op_close ops)))) ?b = (Inl (SystemError e), ?b)"
        using close_bridge_second_branch [OF assms(1), of ?b] assms(2) by auto
      moreover have "whenE (op_is_open ops (peer_one b))
          (seqE (on_one (or_throw SystemError (op_shutdown ops)))
                (on_one (or_throw SystemError (op_close ops)))) b = (Inr (), ?b)"
        using True sd None cl None' by (simp add: eff)
      ultimately show ?thesis
        by (simp add: close_bridge_def seqE_step)
    qed
  qed
qed

text \<open>A failed read of a bridge whose \<open>peer_two\<close> is open.\<close>

lemma failed_read_throws:
  assumes "closing_contract ops" and "op_is_open ops (peer_two b)" and "d \<in> set (in_flight b)"
  shows "\<exists>ec b'. bridge_event_handler ops (ReadDone d (Some error) bytes) b = (Inl (SystemError ec), b')
      \<and> peer_two b' = peer_two b"
proof (cases d)
    case Upstream
    with \<open>d \<in> set (in_flight b)\<close> show ?thesis
      using close_bridge_throws [OF assms(1),
          of "b\<lparr>in_flight := remove1 Upstream (in_flight b), client_buffer := overwrite (client_buffer b) bytes\<rparr>"]
        assms(2) by (simp add: handle_upstream_read_def)
  next
    case Downstream
    with \<open>d \<in> set (in_flight b)\<close> show ?thesis
      using close_bridge_throws [OF assms(1),
          of "b\<lparr>in_flight := remove1 Downstream (in_flight b), server_buffer := overwrite (server_buffer b) bytes\<rparr>"]
        assms(2) by (simp add: handle_downstream_read_def)
qed

text \<open>
  \<open>close\<close> never closes \<open>peer_two\<close>: whenever \<open>peer_two\<close> is open, whatever the state of
  \<open>peer_one\<close>, it throws and leaves \<open>peer_two\<close> as it was, since the second branch shuts down
  \<open>peer_one\<close>, which by then is closed. So every failed read of a bridge whose \<open>peer_two\<close> is
  open ends in a \<open>system_error\<close> that leaves the handler.
\<close>

theorem close_never_closes_peer_two:
  assumes "closing_contract ops" and "op_is_open ops (peer_two b)"
  shows "(\<exists>ec b'. close_bridge ops b = (Inl (SystemError ec), b') \<and> peer_two b' = peer_two b)
    \<and> (\<forall>d error bytes. d \<in> set (in_flight b) \<longrightarrow>
         (\<exists>ec b'. bridge_event_handler ops (ReadDone d (Some error) bytes) b = (Inl (SystemError ec), b')
            \<and> peer_two b' = peer_two b))"
  using close_bridge_throws [OF assms] failed_read_throws [OF assms] by blast

lemma pipe_closing_contract: "closing_contract pipe_ops"
  by (auto simp: closing_contract_def)

definition pipe_bridge :: "pipe bridge" where
  "pipe_bridge = \<lparr>peer_one = open_pipe, peer_one_address = [], peer_two = open_pipe, peer_two_address = [],
     server_buffer = [], client_buffer = [], in_flight = [Upstream, Downstream]\<rparr>"

lemma close_never_closes_peer_two_witness:
  "\<exists>ec b'. bridge_event_handler pipe_ops (ReadDone Downstream (Some 2) []) pipe_bridge = (Inl (SystemError ec), b')
     \<and> opened (peer_two b')"
proof -
  have "op_is_open pipe_ops (peer_two pipe_bridge)"
    by (simp add: pipe_bridge_def open_pipe_def)
  from close_never_closes_peer_two [OF pipe_closing_contract this] show ?thesis
    by (fastforce simp: pipe_bridge_def open_pipe_def)
qed

section \<open>One read per direction\<close>

lemma keeps_in_flight_peers [keeps_intros]:
  "keeps (\<lambda>b. in_flight b = x) (on_one m)" "keeps (\<lambda>b. in_flight b = x) (on_two k)"
  by (simp_all add: keeps_def zoom_def split: prod.splits)

lemma close_bridge_in_flight: "in_flight (snd (close_bridge ops b)) = in_flight b"
proof -
  have "keeps (\<lambda>b. in_flight b = x) (close_bridge ops)" for x
    unfolding close_bridge_def by (intro keeps_intros)
  then show ?thesis
    by (simp add: keeps_def)
qed

lemma close_bridge_buffers:
  "server_buffer (snd (close_bridge ops b)) = server_buffer b" "client_buffer (snd (close_bridge ops b)) = client_buffer b"
proof -
  have zoomed: "keeps (\<lambda>b. server_buffer b = x \<and> client_buffer b = y) (on_one m)"
    "keeps (\<lambda>b. server_buffer b = x \<and> client_buffer b = y) (on_two m)" for x y m
    by (simp_all add: keeps_def zoom_def split: prod.splits)
  have "keeps (\<lambda>b. server_buffer b = x \<and> client_buffer b = y) (close_bridge ops)" for x y
    unfolding close_bridge_def by (intro keeps_intros zoomed)
  then show "server_buffer (snd (close_bridge ops b)) = server_buffer b"
    "client_buffer (snd (close_bridge ops b)) = client_buffer b"
    by (simp_all add: keeps_def)
qed

lemma handlers_buffers:
  "server_buffer (snd (handle_upstream_read ops e n b)) = server_buffer b"
  "client_buffer (snd (handle_upstream_read ops e n b)) = client_buffer b"
  "server_buffer (snd (handle_downstream_read ops e n b)) = server_buffer b"
  "client_buffer (snd (handle_downstream_read ops e n b)) = client_buffer b"
  by (auto simp: handle_upstream_read_def handle_downstream_read_def handle_downstream_write_def
    handle_upstream_write_def close_bridge_buffers start_read_def modify_def split: option.splits prod.splits)

lemma handlers_in_flight:
  "set (in_flight (snd (handle_upstream_read ops e n b))) \<subseteq> insert Upstream (set (in_flight b))"
  "set (in_flight (snd (handle_downstream_read ops e n b))) \<subseteq> insert Downstream (set (in_flight b))"
  "distinct (in_flight b) \<Longrightarrow> Upstream \<notin> set (in_flight b) \<Longrightarrow>
     distinct (in_flight (snd (handle_upstream_read ops e n b)))"
  "distinct (in_flight b) \<Longrightarrow> Downstream \<notin> set (in_flight b) \<Longrightarrow>
     distinct (in_flight (snd (handle_downstream_read ops e n b)))"
  by (auto simp: handle_upstream_read_def handle_downstream_read_def handle_downstream_write_def
    handle_upstream_write_def close_bridge_in_flight start_read_def modify_def
    split: option.splits prod.splits)

lemma bridge_event_distinct:
  "distinct (in_flight b) \<Longrightarrow> distinct (in_flight (snd (bridge_event_handler ops ev b)))"
  by (induction ops ev b rule: bridge_event_handler.induct) (auto intro: handlers_in_flight)

text \<open>
  Whatever happens, failed reads and writes included, a bridge never has two reads in
  flight in one direction, so nothing overwrites a buffer that is being relayed.
\<close>

theorem one_read_per_direction:
  assumes "new_bridge ops one two = Inr b"
  shows "distinct (in_flight (snd (bridge_run ops evs (snd (start_bridge b)))))"
proof -
  have keep: "keeps (\<lambda>b. distinct (in_flight b)) (bridge_run ops evs)" for evs
    by (induction evs)
      (simp_all add: keeps_simple keeps_seqE keepsI bridge_event_distinct)
  have "in_flight b = []"
    using assms by (auto simp: new_bridge_def split: sum.splits)
  then have "distinct (in_flight (snd (start_bridge b)))"
    using start_bridge_ready by (auto simp: bridge_ready_def)
  with keep show ?thesis
    by (auto simp: keeps_def)
qed

lemma one_read_per_direction_witness:
  "\<exists>b. new_bridge pipe_ops open_pipe open_pipe = Inr b
     \<and> distinct (in_flight (snd (bridge_run pipe_ops [ReadDone Upstream (Some 2) []] (snd (start_bridge b)))))"
proof -
  obtain b where b: "new_bridge pipe_ops open_pipe open_pipe = Inr b"
    by (simp add: new_bridge_def open_pipe_def)
  from one_read_per_direction [OF b] b show ?thesis
    by blast
qed

end
