(* ===== verification/Relayed.thy ===== *)
theory Relayed
  imports Screen_Path Bridges
begin

text \<open>
  A session through the server: streamer, bridge and viewer together. What the streamer
  writes arrives at the bridge as downstream reads, what the viewer sends as upstream reads, cut
  and interleaved in any way; what the bridge writes is what the other side receives.
\<close>

section \<open>From the window to the controlled screen\<close>

text \<open>
  C2. Remote control works through the server. When the events in the viewer's queue are mouse
  buttons inside the window, the wheel, keys, and events of no interest, and the time is not up:
  one round of the event loop empties the queue and sends frames of messages. However these
  bytes are cut into successful reads of the bridge, and whatever arrives from the streamer in
  between, the bridge writes exactly the same frames to the streamer; and when they arrive there,
  the next \<open>handleIOEvents\<close> makes exactly the requests to the X server that the events stand
  for, in their order - the same button pressed or released, one press and release for a turn of
  the wheel, the key the X server has for the translated symbol - and no others.
\<close>

theorem relayed_control:
  assumes viewer: "stream_contract (vd_asio D) sent avail live" "live (socket (vw_socket v))" "sizes_ok v"
      "\<forall>e \<in> set (event_queue v). plain_input v e"
      "\<forall>i. vd_clock D i - vd_clock D (clock_reads v) < max_poll_time"
    and streamer: "polling st" "st_messages st = []" "sd_io E = x11_ops"
    and bridge: "stream_contract ops bsent bavail blive" "blive (peer_one b)" "blive (peer_two b)" "bridge_ready b"
  shows "\<exists>v' ms. client_handleIOEvents D max_poll_time interval v = (Inr (), v') \<and> event_queue v' = []
    \<and> sent (socket (vw_socket v')) = sent (socket (vw_socket v)) @ message_frames ms
    \<and> (\<forall>evs. list_all no_error evs \<and> sent (socket (vw_socket v')) = sent (socket (vw_socket v)) @ arrived Upstream evs \<longrightarrow>
        (\<exists>b' st'. bridge_run ops evs b = (Inr (), b') \<and> bridge_ready b'
          \<and> bsent (peer_one b') = bsent (peer_one b) @ message_frames ms
          \<and> arrive_all E ms st = (Inr (), st') \<and> polling st'
          \<and> handleIOEvents E X st' = (Inr (), st'\<lparr>st_messages := [],
              st_io := with_requests (concat (map (requests_of D X) (event_queue v))) (st_io st)\<rparr>)))"
proof -
  obtain v' ms st' where v': "client_handleIOEvents D max_poll_time interval v = (Inr (), v')" "event_queue v' = []"
      "sent (socket (vw_socket v')) = sent (socket (vw_socket v)) @ message_frames ms"
    and st': "arrive_all E ms st = (Inr (), st')" "polling st'" "handleIOEvents E X st' = (Inr (), st'\<lparr>st_messages := [],
        st_io := with_requests (concat (map (requests_of D X) (event_queue v))) (st_io st)\<rparr>)"
    using remote_control [OF viewer streamer, of interval X] by blast
  have "\<exists>b'. bridge_run ops evs b = (Inr (), b') \<and> bridge_ready b' \<and> bsent (peer_one b') = bsent (peer_one b) @ message_frames ms"
    if "list_all no_error evs" "sent (socket (vw_socket v')) = sent (socket (vw_socket v)) @ arrived Upstream evs" for evs
    using bridge_run_relays [OF bridge that(1)] that(2) v'(3) by auto
  with v' st' show ?thesis
    by blast
qed

lemma relayed_control_witness:
  "\<exists>v' b' st' evs. client_handleIOEvents still_deps 5 50 (row_viewer []\<lparr>event_queue := [SDL_MOUSEBUTTONDOWN 1 400 300, SDL_MOUSEWHEEL (-1)]\<rparr>)
      = (Inr (), v')
    \<and> bridge_run pipe_ops evs pipe_bridge = (Inr (), b') \<and> outgoing (peer_one b') = outgoing (socket (vw_socket v'))
    \<and> requests (st_io (snd (handleIOEvents dot_deps no_cursor st')))
      = [XTestFakeButtonEvent 1 True, XFlush, XTestFakeButtonEvent 5 True, XTestFakeButtonEvent 5 False, XFlush]"
proof -
  let ?es = "[SDL_MOUSEBUTTONDOWN 1 400 300, SDL_MOUSEWHEEL (-1)]"
  let ?v = "row_viewer []\<lparr>event_queue := ?es\<rparr>"
  have viewer: "opened (socket (vw_socket ?v))" "sizes_ok ?v" "\<forall>e \<in> set (event_queue ?v). plain_input ?v e"
    "\<forall>i. vd_clock still_deps i - vd_clock still_deps (clock_reads ?v) < 5" "outgoing (socket (vw_socket ?v)) = []"
    using row_viewer_ok by (simp_all add: sizes_ok_def inside_window_def still_deps_def row_viewer_def new_SocketBase_def)
  have bridge: "opened (peer_one pipe_bridge)" "opened (peer_two pipe_bridge)" "bridge_ready pipe_bridge"
    "outgoing (peer_one pipe_bridge) = []"
    by (simp_all add: pipe_bridge_def open_pipe_def bridge_ready_def)
  from relayed_control [OF still_contract viewer(1-4) polling_streamer_ok pipe_contract bridge(1-3), of 50 no_cursor]
  obtain v' ms where v': "client_handleIOEvents still_deps 5 50 ?v = (Inr (), v')"
      "outgoing (socket (vw_socket v')) = outgoing (socket (vw_socket ?v)) @ message_frames ms"
    and relayed: "\<And>evs. list_all no_error evs \<and> outgoing (socket (vw_socket v')) = outgoing (socket (vw_socket ?v)) @ arrived Upstream evs \<Longrightarrow>
        \<exists>b' st'. bridge_run pipe_ops evs pipe_bridge = (Inr (), b')
          \<and> outgoing (peer_one b') = outgoing (peer_one pipe_bridge) @ message_frames ms
          \<and> handleIOEvents dot_deps no_cursor st' = (Inr (), st'\<lparr>st_messages := [],
              st_io := with_requests (concat (map (requests_of still_deps no_cursor) (event_queue ?v))) (st_io polling_streamer)\<rparr>)"
    by blast
  let ?evs = "[ReadDone Upstream None (take 3 (message_frames ms)), ReadDone Downstream None [7],
    ReadDone Upstream None (drop 3 (message_frames ms))]"
  from relayed [of ?evs] v'(2) obtain b' st' where b': "bridge_run pipe_ops ?evs pipe_bridge = (Inr (), b')"
      "outgoing (peer_one b') = outgoing (peer_one pipe_bridge) @ message_frames ms"
    and run: "handleIOEvents dot_deps no_cursor st' = (Inr (), st'\<lparr>st_messages := [],
      st_io := with_requests (concat (map (requests_of still_deps no_cursor) (event_queue ?v))) (st_io polling_streamer)\<rparr>)"
    by (auto simp: no_error_def)
  have "requests (st_io (snd (handleIOEvents dot_deps no_cursor st')))
      = [XTestFakeButtonEvent 1 True, XFlush, XTestFakeButtonEvent 5 True, XTestFakeButtonEvent 5 False, XFlush]"
    unfolding run by (simp add: with_requests_def button_requests_def x11_button_def polling_streamer_def)
  moreover have "outgoing (peer_one b') = outgoing (socket (vw_socket v'))"
    using b'(2) v'(2) viewer(5) bridge(4) by simp
  ultimately show ?thesis
    using v'(1) b'(1) by blast
qed

section \<open>From the screen to the window\<close>



end
