(* ===== verification/Pointer_Traffic.thy ===== *)
theory Pointer_Traffic
  imports Remote_Control
begin

text \<open>
  How often the viewer reports the position of the mouse (\<open>ScreenViewerClient::handleIOEvents\<close>): the
  update interval bounds the number of motion messages by the time that passes, over any number
  of rounds and whatever else happens in the window.
\<close>

section \<open>Rounds of the event loop\<close>

text \<open>In each round the new events join the queue of SDL.\<close>

fun input_rounds ::
  "('s, 'd, 'f) viewer_deps \<Rightarrow> int \<Rightarrow> int \<Rightarrow> sdl_event list list \<Rightarrow> (exn, ('s, 'd) viewer, unit) eff" where
  "input_rounds D max_poll_time interval [] = ret ()"
| "input_rounds D max_poll_time interval (q # qs) =
     seqE (modify (\<lambda>v. v\<lparr>event_queue := event_queue v @ q\<rparr>))
    (seqE (client_handleIOEvents D max_poll_time interval)
          (input_rounds D max_poll_time interval qs))"

definition is_move :: "Message \<Rightarrow> bool" where
  "is_move m \<longleftrightarrow> (\<exists>x y. m = mouse_message MOVE x y)"

text \<open>The time that counts as the last update: before the first motion, that of the next reading.\<close>

definition last_update :: "('s, 'd, 'f) viewer_deps \<Rightarrow> ('s, 'd) viewer \<Rightarrow> int" where
  "last_update D v = (case last_pos_update v of None \<Rightarrow> vd_clock D (clock_reads v) | Some t \<Rightarrow> t)"

definition timely :: "('s, 'd, 'f) viewer_deps \<Rightarrow> ('s, 'd) viewer \<Rightarrow> bool" where
  "timely D v \<longleftrightarrow> last_update D v \<le> vd_clock D (clock_reads v)"

section \<open>What an operation may send\<close>

text \<open>
  From a live connection an operation sends whole messages, and as many motions among them as the
  interval allows for the time by which it moves the last update on, exceptions included.
\<close>

definition paced_step ::
  "('s, 'd, 'f) viewer_deps \<Rightarrow> ('s \<Rightarrow> byte list) \<Rightarrow> ('s \<Rightarrow> bool) \<Rightarrow> int \<Rightarrow> ('s, 'd) viewer \<Rightarrow> ('s, 'd) viewer \<Rightarrow> bool" where
  "paced_step D sent live interval v v' \<longleftrightarrow> live (socket (vw_socket v')) \<and> timely D v'
     \<and> (\<exists>ms. sent (socket (vw_socket v')) = sent (socket (vw_socket v)) @ message_frames ms
          \<and> int (length (filter is_move ms)) * interval \<le> last_update D v' - last_update D v)"

definition paced ::
  "('s, 'd, 'f) viewer_deps \<Rightarrow> ('s \<Rightarrow> byte list) \<Rightarrow> ('s \<Rightarrow> bool) \<Rightarrow> int \<Rightarrow> (exn, ('s, 'd) viewer, 'a) eff \<Rightarrow> bool" where
  "paced D sent live interval m \<longleftrightarrow> (\<forall>v. live (socket (vw_socket v)) \<and> timely D v \<longrightarrow>
     paced_step D sent live interval v (snd (m v)))"

named_theorems paceds "operations that keep to the update interval"

lemma message_frames_append: "message_frames (ms @ ns) = message_frames ms @ message_frames ns"
  by (simp add: message_frames_def)

lemma paced_step_refl: "live (socket (vw_socket v)) \<Longrightarrow> timely D v \<Longrightarrow> paced_step D sent live interval v v"
  unfolding paced_step_def by (intro conjI exI [of _ "[]"]) simp_all

lemma paced_step_trans:
  assumes "paced_step D sent live interval u v" and "paced_step D sent live interval v w"
  shows "paced_step D sent live interval u w"
proof -
  obtain ms ns where "sent (socket (vw_socket v)) = sent (socket (vw_socket u)) @ message_frames ms"
    "int (length (filter is_move ms)) * interval \<le> last_update D v - last_update D u"
    "sent (socket (vw_socket w)) = sent (socket (vw_socket v)) @ message_frames ns"
    "int (length (filter is_move ns)) * interval \<le> last_update D w - last_update D v"
    using assms unfolding paced_step_def by blast
  then have "sent (socket (vw_socket w)) = sent (socket (vw_socket u)) @ message_frames (ms @ ns)
      \<and> int (length (filter is_move (ms @ ns))) * interval \<le> last_update D w - last_update D u"
    by (simp add: message_frames_append distrib_right)
  with assms(2) show ?thesis
    unfolding paced_step_def by blast
qed

lemma pacedD: "paced D sent live interval m \<Longrightarrow> live (socket (vw_socket v)) \<Longrightarrow> timely D v \<Longrightarrow>
    paced_step D sent live interval v (snd (m v))"
  by (simp add: paced_def)

lemma paced_bindE [paceds]:
  assumes "paced D sent live interval m" and "\<And>a. paced D sent live interval (f a)"
  shows "paced D sent live interval (bindE m f)"
  unfolding paced_def
proof (intro allI impI)
  fix v
  assume v: "live (socket (vw_socket v)) \<and> timely D v"
  obtain r t where m: "m v = (r, t)"
    by fastforce
  have t: "paced_step D sent live interval v t"
    using pacedD [OF assms(1)] v m by (metis snd_conv)
  show "paced_step D sent live interval v (snd (bindE m f v))"
  proof (cases r)
    case (Inl e)
    with t m show ?thesis
      by (simp add: bindE_def)
  next
    case (Inr a)
    have "paced_step D sent live interval t (snd (f a t))"
      using pacedD [OF assms(2)] t by (simp add: paced_step_def)
    with t have "paced_step D sent live interval v (snd (f a t))"
      by (rule paced_step_trans)
    with m Inr show ?thesis
      by (simp add: bindE_def)
  qed
qed

lemma paced_seqE [paceds]:
  "paced D sent live interval m \<Longrightarrow> paced D sent live interval k \<Longrightarrow> paced D sent live interval (seqE m k)"
  by (simp add: seqE_def paced_bindE)

lemma paced_if [paceds]:
  "paced D sent live interval m \<Longrightarrow> paced D sent live interval k \<Longrightarrow> paced D sent live interval (if b then m else k)"
  by simp

lemma paced_simple [paceds]:
  "paced D sent live interval (ret a)" "paced D sent live interval (throw e)" "paced D sent live interval (lift_sum r)"
  "paced D sent live interval (gets g)"
  by (simp_all add: paced_def ret_def throw_def lift_sum_def gets_def paced_step_refl)

lemma paced_view [paceds]:
  "paced D sent live interval (modify (\<lambda>v. v\<lparr>window_width := i, window_height := j\<rparr>))"
  "paced D sent live interval (modify (\<lambda>v. v\<lparr>event_queue := f v\<rparr>))"
proof -
  have "last_update D (v\<lparr>window_width := i, window_height := j\<rparr>) = last_update D v"
    "last_update D (v\<lparr>event_queue := q\<rparr>) = last_update D v" for v :: "('a, 'b) viewer" and q
    by (simp_all add: last_update_def cong: option.case_cong)
  then show "paced D sent live interval (modify (\<lambda>v. v\<lparr>window_width := i, window_height := j\<rparr>))"
    "paced D sent live interval (modify (\<lambda>v. v\<lparr>event_queue := f v\<rparr>))"
    unfolding paced_def paced_step_def timely_def by (auto simp: modify_def intro!: exI [of _ "[]"])
qed

section \<open>The operations\<close>

text \<open>A clock that does not go back.\<close>

definition steady :: "('s, 'd, 'f) viewer_deps \<Rightarrow> bool" where
  "steady D \<longleftrightarrow> (\<forall>i. vd_clock D i \<le> vd_clock D (i + 1))"

lemma last_update_simps [simp]:
  "last_pos_update v = Some t \<Longrightarrow> last_update D v = t"
  "last_update D (v\<lparr>last_pos_update := Some t\<rparr>) = t"
  "last_update D (v\<lparr>vw_socket := b\<rparr>) = last_update D v"
  by (simp_all add: last_update_def cong: option.case_cong)

lemma paced_step_clock:
  assumes "steady D" and "live (socket (vw_socket v))" and "timely D v"
  shows "paced_step D sent live interval v (v\<lparr>clock_reads := clock_reads v + 1\<rparr>)"
proof -
  have "vd_clock D (clock_reads v) \<le> vd_clock D (clock_reads v + 1)"
    using assms(1) by (simp add: steady_def)
  with assms(2,3) show ?thesis
    unfolding paced_step_def timely_def by (auto simp: last_update_def split: option.splits intro!: exI [of _ "[]"])
qed

lemma paced_clock_now [paceds]: "steady D \<Longrightarrow> paced D sent live interval (clock_now D)"
  by (simp add: paced_def clock_now_def paced_step_clock del: One_nat_def)

lemma paced_step_sent:
  assumes "has_sent sent live (message_frames [m]) v v'" and "\<not> is_move m" and "timely D v"
  shows "paced_step D sent live interval v v'"
proof -
  obtain s where v': "v' = v\<lparr>vw_socket := (vw_socket v)\<lparr>socket := s\<rparr>\<rparr>" "live s"
    "sent s = sent (socket (vw_socket v)) @ message_frames [m]"
    using assms(1) unfolding has_sent_def by blast
  with assms(2,3) show ?thesis
    unfolding paced_step_def by (intro conjI exI [of _ "[m]"]) (simp_all add: timely_def)
qed

lemma paced_send_mouse [paceds]:
  assumes "stream_contract (vd_asio D) sent avail live" and "msk \<noteq> MOVE"
  shows "paced D sent live interval (send_mouse D msk x y)"
  unfolding paced_def
proof (intro allI impI)
  fix v
  assume v: "live (socket (vw_socket v)) \<and> timely D v"
  then obtain v' where v': "send_mouse D msk x y v = (Inr (), v')" "has_sent sent live (message_frames [mouse_message msk x y]) v v'"
    using send_mouse_has_sent [OF assms(1)] by blast
  have "\<not> is_move (mouse_message msk x y)"
    using assms(2) by (auto simp: is_move_def mouse_message_def mouse.bytes_inject)
  with v v' show "paced_step D sent live interval v (snd (send_mouse D msk x y v))"
    by (simp add: paced_step_sent [of sent live "mouse_message msk x y"])
qed

lemma paced_key [paceds]:
  assumes "stream_contract (vd_asio D) sent avail live"
  shows "paced D sent live interval (handle_key D pressed code)"
  unfolding paced_def
proof (intro allI impI)
  fix v
  let ?m = "key_message pressed (SDLKeySymToX11 (vd_sdl_key D) (vd_x11_key D) code)"
  assume v: "live (socket (vw_socket v)) \<and> timely D v"
  then obtain v' where v': "handle_key D pressed code v = (Inr (), v')" "has_sent sent live (message_frames [?m]) v v'"
    using handle_key_has_sent [OF assms] by blast
  have "\<not> is_move ?m"
    by (simp add: is_move_def mouse_message_def key_message_def)
  with v v' show "paced_step D sent live interval v (snd (handle_key D pressed code v))"
    by (simp add: paced_step_sent [of sent live ?m])
qed

lemma convertToMask_not_MOVE: "convertToMask b = Inr msk \<Longrightarrow> msk \<noteq> MOVE"
proof -
  assume made: "convertToMask b = Inr msk"
  have "push_bit (unat b - 1) (1 :: int32) \<noteq> 0" if "b \<noteq> 0" "b \<le> 32"
  proof -
    have "unat b \<le> 32" "0 < unat b"
      using that by (simp_all add: word_le_nat_alt unat_gt_0)
    then show ?thesis
      by (simp add: push_bit_eq_mult exp_eq_zero_iff)
  qed
  with made show ?thesis
    by (auto simp: convertToMask_def MOVE_def mask_values not_less split: if_splits)
qed

lemma paced_button [paceds]:
  assumes "stream_contract (vd_asio D) sent avail live"
  shows "paced D sent live interval (handle_button D pressed b x y)"
proof -
  have send: "paced D sent live interval (bindE (lift_sum (convertToMask b)) (\<lambda>msk.
      send_mouse D (if pressed then setClicked msk else msk) mx my))" for mx my
  proof (cases "convertToMask b")
    case (Inl e)
    then show ?thesis
      by (simp add: paced_def bindE_def lift_sum_def paced_step_refl)
  next
    case (Inr msk)
    have "(if pressed then setClicked msk else msk) \<noteq> MOVE"
      using convertToMask_not_MOVE [OF Inr] setClicked_not_MOVE by simp
    from paced_send_mouse [OF assms this] Inr show ?thesis
      by (simp add: paced_def bindE_def lift_sum_def)
  qed
  show ?thesis
    unfolding handle_button_def by (intro paceds send)
qed

lemma paced_motion [paceds]:
  assumes contract: "stream_contract (vd_asio D) sent avail live" and steady: "steady D"
  shows "paced D sent live interval (handle_motion D interval x y)"
  unfolding paced_def
proof (intro allI impI)
  fix v
  assume v: "live (socket (vw_socket v)) \<and> timely D v"
  obtain last u where u: "init_last_pos_update D v = (Inr last, u)" "last_pos_update u = Some last"
    "paced_step D sent live interval v u"
  proof (cases "last_pos_update v")
    case (Some t)
    with v show ?thesis
      by (intro that [of t v]) (simp_all add: init_last_pos_update_def paced_step_refl)
  next
    case None
    let ?u = "v\<lparr>clock_reads := clock_reads v + 1, last_pos_update := Some (vd_clock D (clock_reads v))\<rparr>"
    have "vd_clock D (clock_reads v) \<le> vd_clock D (clock_reads v + 1)"
      using steady by (simp add: steady_def)
    with v None have "paced_step D sent live interval v ?u"
      unfolding paced_step_def timely_def by (auto simp: last_update_def intro!: exI [of _ "[]"])
    with None show ?thesis
      by (intro that [of "vd_clock D (clock_reads v)" ?u])
        (simp_all add: init_last_pos_update_def bindE_def clock_now_def seqE_def modify_def ret_def)
  qed
  let ?t = "vd_clock D (clock_reads u)" and ?w = "u\<lparr>clock_reads := clock_reads u + 1\<rparr>"
  let ?move = "\<lambda>mx my. seqE (send_mouse D MOVE mx my)
    (bindE (clock_now D) (\<lambda>t'. modify (\<lambda>v. v\<lparr>last_pos_update := Some t'\<rparr>)))"
  have w: "paced_step D sent live interval u ?w"
    using u(3) by (intro paced_step_clock steady) (simp_all add: paced_step_def)
  then have clocked: "paced_step D sent live interval v ?w"
    by (rule paced_step_trans [OF u(3)])
  have moved: "paced_step D sent live interval ?w (snd (?move mx my ?w))" if late: "?t - last > interval" for mx my
  proof -
    have "live (socket (vw_socket ?w))"
      using w by (simp add: paced_step_def)
    from send_mouse_has_sent [OF contract this] obtain z where z: "send_mouse D MOVE mx my ?w = (Inr (), z)"
      "has_sent sent live (message_frames [mouse_message MOVE mx my]) ?w z"
      by blast
    let ?z = "z\<lparr>clock_reads := clock_reads z + 1, last_pos_update := Some (vd_clock D (clock_reads z))\<rparr>"
    have "clock_reads z = clock_reads u + 1" "live (socket (vw_socket z))"
      "sent (socket (vw_socket z)) = sent (socket (vw_socket u)) @ message_frames [mouse_message MOVE mx my]"
      using z(2) by (auto simp: has_sent_def)
    moreover have "?t \<le> vd_clock D (clock_reads u + 1)" "vd_clock D (clock_reads u + 1) \<le> vd_clock D (clock_reads u + 1 + 1)"
      using steady by (simp_all only: steady_def)
    moreover have "last_update D ?w = last"
      using u(2) by (simp add: last_update_def)
    moreover have "is_move (mouse_message MOVE mx my)"
      by (auto simp: is_move_def)
    ultimately have "paced_step D sent live interval ?w ?z"
      unfolding paced_step_def timely_def using late
      by (intro conjI exI [of _ "[mouse_message MOVE mx my]"]) simp_all
    moreover have "?move mx my ?w = (Inr (), ?z)"
      using z(1) by (simp add: seqE_def bindE_def clock_now_def modify_def)
    ultimately show ?thesis
      by simp
  qed
  have run: "snd (handle_motion D interval x y v) = (if ?t - last > interval
      then (case scale_coordinate x (vw_frame_width ?w) (window_width ?w) of
          Inl e \<Rightarrow> ?w
        | Inr mx \<Rightarrow> (case scale_coordinate y (vw_frame_height ?w) (window_height ?w) of
              Inl e \<Rightarrow> ?w | Inr my \<Rightarrow> snd (?move mx my ?w)))
      else ?w)"
    using u(1) by (simp add: handle_motion_def bindE_step(1) [of "init_last_pos_update D"] clock_now_def bindE_def
      gets_def lift_sum_def ret_def split: sum.split)
  show "paced_step D sent live interval v (snd (handle_motion D interval x y v))"
    unfolding run using clocked paced_step_trans [OF clocked moved] by (auto split: sum.split)
qed

lemma paced_event:
  assumes "stream_contract (vd_asio D) sent avail live" and "steady D"
  shows "paced D sent live interval (handle_event D interval e)"
proof (cases e)
  case (SDL_MOUSEWHEEL d)
  have "(if d > 0 then SCROLL_UP_MASK else SCROLL_DOWN_MASK) \<noteq> MOVE"
    by (simp add: mask_values MOVE_def)
  from paced_send_mouse [OF assms(1) this] SDL_MOUSEWHEEL show ?thesis
    by simp
qed (use assms in \<open>auto intro!: paceds\<close>)

lemma paced_rounds:
  assumes "stream_contract (vd_asio D) sent avail live" and "steady D"
  shows "paced D sent live interval (input_rounds D mx interval qs)"
proof -
  have poll: "paced D sent live interval (poll_loop D start mx interval es)" for start es
    using paced_event [OF assms] by (induction es) (simp_all add: paced_simple, intro paceds assms(2))
  have "paced D sent live interval (\<lambda>v. poll_loop D start mx interval (event_queue v) v)" for start
    using poll by (simp add: paced_def)
  then have "paced D sent live interval (client_handleIOEvents D mx interval)"
    unfolding client_handleIOEvents_def by (intro paceds assms)
  then show ?thesis
    by (induction qs) (simp_all add: paced_simple, intro paceds)
qed

section \<open>Property\<close>

text \<open>
  C26. Mouse traffic is bounded by time. A viewer that has not reported the mouse yet, on a working
  connection and with a clock that does not go back, handles any number of rounds with any
  events, whether they end normally or with an exception: it sends whole messages only, and
  among them at most one motion per update interval of the time that passes.
\<close>

theorem pointer_traffic_bounded:
  assumes "stream_contract (vd_asio D) sent avail live" and "live (socket (vw_socket v))"
    and "\<forall>i. vd_clock D i \<le> vd_clock D (i + 1)" and "last_pos_update v = None"
    and "input_rounds D max_poll_time interval qs v = (r, v')"
  shows "\<exists>ms. sent (socket (vw_socket v')) = sent (socket (vw_socket v)) @ message_frames ms
    \<and> int (length (filter is_move ms)) * interval \<le> vd_clock D (clock_reads v') - vd_clock D (clock_reads v)"
proof -
  have steady: "steady D" and start: "timely D v" "last_update D v = vd_clock D (clock_reads v)"
    using assms(3,4) by (simp_all add: steady_def timely_def last_update_def)
  have "paced_step D sent live interval v v'"
    using pacedD [OF paced_rounds [OF assms(1) steady] assms(2) start(1), of interval max_poll_time qs] assms(5) by simp
  with start(2) show ?thesis
    unfolding paced_step_def timely_def by fastforce
qed

text \<open>A clock that ticks, and three motions of which it lets two through at most.\<close>

definition ticking_deps :: "(pipe, cstring, cstring) viewer_deps" where
  "ticking_deps = row_deps\<lparr>vd_clock := int\<rparr>"

lemma pointer_traffic_bounded_witness:
  "\<exists>r v' ms. input_rounds ticking_deps 1000 2 [[SDL_MOUSEMOTION 1 1], [SDL_MOUSEMOTION 2 2, SDL_MOUSEMOTION 3 3]] (row_viewer []) = (r, v')
    \<and> outgoing (socket (vw_socket v')) = message_frames ms \<and> int (length (filter is_move ms)) * 2 \<le> int (clock_reads v')"
proof -
  let ?qs = "[[SDL_MOUSEMOTION 1 1], [SDL_MOUSEMOTION 2 2, SDL_MOUSEMOTION 3 3]]"
  obtain r v' where run: "input_rounds ticking_deps 1000 2 ?qs (row_viewer []) = (r, v')"
    by fastforce
  have contract: "stream_contract (vd_asio ticking_deps) outgoing incoming opened"
    using pipe_contract by (simp add: ticking_deps_def row_deps_def)
  have v: "opened (socket (vw_socket (row_viewer [])))" "last_pos_update (row_viewer []) = None"
    "outgoing (socket (vw_socket (row_viewer []))) = []" "clock_reads (row_viewer []) = 0"
    by (simp_all add: row_viewer_def new_SocketBase_def)
  have clock: "vd_clock ticking_deps i = int i" for i
    by (simp add: ticking_deps_def)
  then have "\<forall>i. vd_clock ticking_deps i \<le> vd_clock ticking_deps (i + 1)"
    by simp
  from pointer_traffic_bounded [OF contract v(1) this v(2) run] run v(3,4) show ?thesis
    by (auto simp: clock)
qed

end
