(* ===== verification/Users.thy ===== *)
theory Users
  imports Messages
begin

text \<open>
  Accounts: \<open>include/UsersManager.hpp\<close>, \<open>src/UsersManager.cpp\<close> and the table of
  \<open>database_schema.sql\<close>. The table maps the primary key \<open>email\<close> to the hash of the
  password; the two prepared statements are operations on it. A statement that fails for
  another reason than the primary key (a lost connection, text the database does not accept)
  is the argument \<open>fault\<close>. BCrypt is not in the repository and is an argument too.
\<close>

section \<open>The table and its statements\<close>

type_synonym user_table = "cstring \<rightharpoonup> cstring"

datatype sql_error = UniqueViolation | OtherSqlError cstring

definition INSERT_USER ::
  "cstring option \<Rightarrow> cstring \<Rightarrow> cstring \<Rightarrow> (sql_error, user_table, unit) eff" where
  "INSERT_USER fault email password_hash table =
     (case fault of
        Some reason \<Rightarrow> (Inl (OtherSqlError reason), table)
      | None \<Rightarrow>
          if table email \<noteq> None then (Inl UniqueViolation, table)
          else (Inr (), table(email \<mapsto> password_hash)))"

text \<open>The rows of the result: one column.\<close>

definition GET_PASSWORD_HASH ::
  "cstring option \<Rightarrow> cstring \<Rightarrow> (sql_error, user_table, cstring list) eff" where
  "GET_PASSWORD_HASH fault email table =
     (case fault of
        Some reason \<Rightarrow> (Inl (OtherSqlError reason), table)
      | None \<Rightarrow> (Inr (case table email of None \<Rightarrow> [] | Some h \<Rightarrow> [h]), table))"

section \<open>The manager\<close>

record 'r bcrypt =
  generateHash :: "'r \<Rightarrow> cstring \<Rightarrow> cstring"      \<comment> \<open>the first argument is the salt it draws\<close>
  validatePassword :: "cstring \<Rightarrow> cstring \<Rightarrow> bool"

text \<open>
  The constructor connects and prepares both statements; \<open>connect_db\<close> and \<open>prepare\<close> are the calls
  of \<open>pqxx\<close>, which report a failure by the text of their exception.
\<close>

definition connection_string :: "lib \<Rightarrow> cstring \<Rightarrow> cstring \<Rightarrow> cstring \<Rightarrow> cstring \<Rightarrow> nat \<Rightarrow> cstring" where
  "connection_string L database_address pg_user pg_password database_name port =
     str ''dbname='' @ database_name @ str '' user='' @ pg_user @ str '' password='' @ pg_password
       @ str '' host='' @ database_address @ str ('' port='' @ fmt_unsigned L port)"

record db_calls =
  connect_db :: "cstring \<Rightarrow> cstring option"
  prepare :: "string \<Rightarrow> string \<Rightarrow> cstring option"

definition quoted_user :: string where
  "quoted_user = [CHR 0x22] @ ''user'' @ [CHR 0x22]"

definition new_UsersManager ::
  "lib \<Rightarrow> db_calls \<Rightarrow> cstring \<Rightarrow> cstring \<Rightarrow> cstring \<Rightarrow> cstring \<Rightarrow> nat \<Rightarrow> exn + unit" where
  "new_UsersManager L C database_address pg_user pg_password database_name port =
     (case connect_db C (connection_string L database_address pg_user pg_password database_name port) of
        Some reason \<Rightarrow> Inl (DatabaseError reason)
      | None \<Rightarrow>
          (case prepare C ''INSERT_USER'' (''INSERT INTO '' @ quoted_user @ '' VALUES($1, $2);'') of
             Some reason \<Rightarrow> Inl (DatabaseError reason)
           | None \<Rightarrow>
               (case prepare C ''GET_PASSWORD_HASH'' (''SELECT password_hash FROM '' @ quoted_user @ '' WHERE email=$1;'') of
                  Some reason \<Rightarrow> Inl (DatabaseError reason)
                | None \<Rightarrow> Inr ())))"

definition checkEmailConstraints :: "cstring \<Rightarrow> (exn, user_table, unit) eff" where
  "checkEmailConstraints email = ret ()"

definition checkPasswordConstraints :: "cstring \<Rightarrow> (exn, user_table, unit) eff" where
  "checkPasswordConstraints password = ret ()"

definition addUser ::
  "'r bcrypt \<Rightarrow> 'r \<Rightarrow> cstring option \<Rightarrow> cstring \<Rightarrow> cstring \<Rightarrow> (exn, user_table, unit) eff" where
  "addUser B salt fault email password =
     seqE (checkEmailConstraints email)
    (seqE (checkPasswordConstraints password)
    (\<lambda>table. let hash = generateHash B salt password in
       case INSERT_USER fault email hash table of
         (Inr u, table') \<Rightarrow> (Inr (), table')
       | (Inl UniqueViolation, table') \<Rightarrow> (Inl (UsersManagerException email), table')
       | (Inl (OtherSqlError reason), table') \<Rightarrow> (Inl (DatabaseError reason), table')))"

definition authenticate_user ::
  "'r bcrypt \<Rightarrow> cstring option \<Rightarrow> cstring \<Rightarrow> cstring \<Rightarrow> (exn, user_table, bool) eff" where
  "authenticate_user B fault email password table =
     (case GET_PASSWORD_HASH fault email table of
        (Inl (OtherSqlError reason), table') \<Rightarrow> (Inl (DatabaseError reason), table')
      | (Inl UniqueViolation, table') \<Rightarrow> (Inl (DatabaseError []), table')
      | (Inr [], table') \<Rightarrow> (Inr False, table')
      | (Inr (hash # _), table') \<Rightarrow> (Inr (validatePassword B password hash), table'))"

section \<open>The contract of the statements\<close>

text \<open>
  What the manager relies on: a row is inserted exactly when there is none with its key, an
  insertion changes the rows of its key only, and there is at most one row for a key.
\<close>

locale credential_table =
  fixes ins :: "'k \<Rightarrow> 'v \<Rightarrow> 'db \<Rightarrow> (sql_error + unit) \<times> 'db"
    and sel :: "'k \<Rightarrow> 'db \<Rightarrow> 'v list"
  assumes ins_fresh: "sel k db = [] \<Longrightarrow> fst (ins k v db) = Inr ()"
    and ins_taken: "sel k db \<noteq> [] \<Longrightarrow> ins k v db = (Inl UniqueViolation, db)"
    and sel_ins: "sel k db = [] \<Longrightarrow> sel k' (snd (ins k v db)) = (if k' = k then [v] else sel k' db)"
    and one_row: "length (sel k db) \<le> 1"
begin

lemma ins_twice:
  "sel k db = [] \<Longrightarrow> ins k w (snd (ins k v db)) = (Inl UniqueViolation, snd (ins k v db))"
  by (rule ins_taken) (simp add: sel_ins)

text \<open>A row that exists survives every sequence of insertions.\<close>

lemma row_survives:
  "sel k db = [v] \<Longrightarrow> sel k (fold (\<lambda>(k', v') d. snd (ins k' v' d)) rows db) = [v]"
proof (induction rows arbitrary: db)
  case Nil
  then show ?case by simp
next
  case (Cons row rows)
  obtain k' v' where row: "row = (k', v')"
    by fastforce
  have "sel k (snd (ins k' v' db)) = [v]"
    using Cons.prems by (cases "sel k' db = []") (auto simp: sel_ins ins_taken)
  with Cons.IH row show ?case
    by simp
qed

end

text \<open>The statements without faults, as the contract sees them.\<close>

definition select_rows :: "cstring \<Rightarrow> user_table \<Rightarrow> cstring list" where
  "select_rows email table = projr (fst (GET_PASSWORD_HASH None email table))"

lemma select_rows_eq: "select_rows email table = (case table email of None \<Rightarrow> [] | Some h \<Rightarrow> [h])"
  by (simp add: select_rows_def GET_PASSWORD_HASH_def)

lemma select_rows_single: "select_rows email table = [h] \<longleftrightarrow> table email = Some h"
  by (simp add: select_rows_eq split: option.splits)

interpretation users: credential_table "INSERT_USER None" select_rows
  by unfold_locales (auto simp: INSERT_USER_def select_rows_eq split: option.splits)

lemma addUser_eq:
  "addUser B salt None email password table =
     (if table email \<noteq> None then (Inl (UsersManagerException email), table)
      else (Inr (), table(email \<mapsto> generateHash B salt password)))"
  by (simp add: addUser_def checkEmailConstraints_def checkPasswordConstraints_def seqE_def
    bindE_def ret_def INSERT_USER_def)

lemma authenticate_user_eq:
  "authenticate_user B None email password table =
     (Inr (case table email of None \<Rightarrow> False | Some hash \<Rightarrow> validatePassword B password hash), table)"
  by (simp add: authenticate_user_def GET_PASSWORD_HASH_def split: option.splits)

section \<open>Properties\<close>

text \<open>
  A new account works at once and for ever: with a BCrypt that validates the hashes it
  generates, adding a user whose email is free succeeds, from then on the user is
  authenticated with the password, whatever other accounts are added or refused later, and
  authentication of every other email is as it was.
\<close>

theorem added_user_authenticates:
  assumes "validatePassword B password (generateHash B salt password)" and "table email = None"
  shows "fst (addUser B salt None email password table) = Inr ()
    \<and> (\<forall>later. fst (authenticate_user B None email password
         (fold (\<lambda>(e, h) d. snd (INSERT_USER None e h d)) later
           (snd (addUser B salt None email password table)))) = Inr True)
    \<and> (\<forall>other pw. other \<noteq> email \<longrightarrow>
         fst (authenticate_user B None other pw (snd (addUser B salt None email password table)))
         = fst (authenticate_user B None other pw table))"
proof -
  let ?h = "generateHash B salt password" and ?t = "snd (addUser B salt None email password table)"
  have "select_rows email ?t = [?h]"
    using assms(2) by (simp add: addUser_eq select_rows_eq)
  then have "select_rows email (fold (\<lambda>(e, h) d. snd (INSERT_USER None e h d)) later ?t) = [?h]" for later
    by (rule users.row_survives)
  then have "fold (\<lambda>(e, h) d. snd (INSERT_USER None e h d)) later ?t email = Some ?h" for later
    by (simp only: select_rows_single)
  then show ?thesis
    using assms by (simp add: authenticate_user_eq) (simp add: addUser_eq)
qed

text \<open>A hash that is the password itself behind a salt.\<close>

definition plain_bcrypt :: "byte bcrypt" where
  "plain_bcrypt = \<lparr>generateHash = (\<lambda>salt pw. salt # pw), validatePassword = (\<lambda>pw h. tl h = pw)\<rparr>"

lemma added_user_authenticates_witness:
  "fst (addUser plain_bcrypt 3 None [1] [2] Map.empty) = Inr ()
   \<and> fst (authenticate_user plain_bcrypt None [1] [2] (snd (addUser plain_bcrypt 3 None [1] [2] Map.empty))) = Inr True"
proof -
  have "validatePassword plain_bcrypt [2] (generateHash plain_bcrypt 3 [2])"
    by (simp add: plain_bcrypt_def)
  from added_user_authenticates [OF this, of Map.empty "[1]"] show ?thesis
    by (auto dest: spec [of _ "[]"])
qed



end
