(* ===== verification/Server.thy ===== *)
theory Server
  imports Receiving Users Sessions_Manager Bridges
begin

text \<open>
  The servers: \<open>AuthenticatedSession\<close>, \<open>ProxySession\<close>, the accept loop of
  \<open>ScreenViewerSessionsServer\<close>, and \<open>ServerSessionsManager::createBridgeWithStreamer\<close>. A
  world holds the session objects by address, the accounts, the registry of streamers and the
  bridges. A session object lives as long as a shared pointer refers to it: from the handler
  of a read in flight or from the registry. The events of the world are completions of
  asynchronous operations, of sessions and of bridges, and sweeps of the cleaner.
\<close>

section \<open>State\<close>

text \<open>The read handlers of a session, \<open>callback(&AuthenticatedSession::...)\<close>.\<close>

datatype handler = AuthenticateCallback | HandleRead

text \<open>The dynamic type of a session decides which \<open>handleRead\<close> is called.\<close>

datatype session_class = AuthenticatedSession | ProxySession

record 's session =
  base :: "('s, handler) SocketBase"
  session_class :: session_class
  endpoint :: cstring

text \<open>The lines of the log that say what became of a session; sessions are named by address.\<close>

datatype log_line =
    ConnectionAuthenticated nat
  | AuthenticationFailed nat
  | RegisteredStreamer nat cstring
  | BridgeCreated nat nat            \<comment> \<open>streamer, viewer\<close>

record 's world =
  sessions :: "nat \<rightharpoonup> 's session"
  next_session :: nat
  users :: user_table
  users_manager_alive :: bool        \<comment> \<open>whether \<open>users_manager.lock()\<close> succeeds\<close>
  registry :: "nat manager"
  bridges :: "'s bridge list"
  accepting :: "session_class \<Rightarrow> bool" \<comment> \<open>whether the server of that class waits for a connection\<close>
  log :: "log_line list"

text \<open>Libraries: \<open>nlohmann::json\<close> reports errors by the text of its exception.\<close>

record 'j json =
  json_parse :: "cstring \<Rightarrow> cstring + 'j"
  json_at :: "string \<Rightarrow> 'j \<Rightarrow> cstring + cstring"    \<comment> \<open>\<open>at(key).get<std::string>()\<close>\<close>

record ('s, 'j, 'r) deps =
  the_lib :: lib
  the_asio :: "'s asio"
  the_bcrypt :: "'r bcrypt"
  the_json :: "'j json"

text \<open>What a handler reads from outside while it runs: the clock and the database's mood.\<close>

record inputs =
  now :: int
  db_fault :: "cstring option"

definition moved_session_used :: exn where
  "moved_session_used = UndefinedBehaviour ''use of a session that was moved or destroyed''"

definition on_session :: "nat \<Rightarrow> (exn, ('s, handler) SocketBase, 'a) eff \<Rightarrow> (exn, 's world, 'a) eff" where
  "on_session i m w =
     (case sessions w i of
        None \<Rightarrow> (Inl moved_session_used, w)
      | Some s \<Rightarrow> let (r, b) = m (base s)
                  in (r, w\<lparr>sessions := (sessions w)(i \<mapsto> s\<lparr>base := b\<rparr>)\<rparr>))"

definition log_info :: "log_line \<Rightarrow> (exn, 's world, unit) eff" where
  "log_info line = modify (\<lambda>w. w\<lparr>log := log w @ [line]\<rparr>)"

section \<open>AuthenticatedSession\<close>

definition FIRST_MESSAGE_MAX_SIZE :: size_t where
  "FIRST_MESSAGE_MAX_SIZE = 1000"

definition start_session :: "'s asio \<Rightarrow> nat \<Rightarrow> (exn, 's world, unit) eff" where
  "start_session ops i =
     seqE (on_session i (on_stream (or_throw SystemError (op_handshake ops))))
          (on_session i (asyncReadMessage AuthenticateCallback FIRST_MESSAGE_MAX_SIZE))"

definition scheduleNewAsyncRead :: "nat \<Rightarrow> (exn, 's world, unit) eff" where
  "scheduleNewAsyncRead i = on_session i (asyncReadMessage HandleRead BUFFER_SIZE_t)"

definition authenticate ::
  "('s, 'j, 'r) deps \<Rightarrow> inputs \<Rightarrow> Message \<Rightarrow> (exn, 's world, bool) eff" where
  "authenticate D I message =
     bindE (lift_sum (or_json (json_parse (the_json D) (content message)))) (\<lambda>parsed.
     bindE (lift_sum (or_json (json_at (the_json D) ''email'' parsed))) (\<lambda>email.
     bindE (lift_sum (or_json (json_at (the_json D) ''password'' parsed))) (\<lambda>password.
     bindE (gets users_manager_alive) (\<lambda>alive.
       if alive
       then zoom users (\<lambda>t w. w\<lparr>users := t\<rparr>)
              (authenticate_user (the_bcrypt D) (db_fault I) email password)
       else ret False))))"

definition authenticateCallback ::
  "('s, 'j, 'r) deps \<Rightarrow> inputs \<Rightarrow> nat \<Rightarrow> Message \<Rightarrow> (exn, 's world, unit) eff" where
  "authenticateCallback D I i message =
     (if msg_type message \<noteq> LOGIN
      then on_session i (disconnect (the_asio D) (Some (str ''You have to login first.'')))
      else bindE (authenticate D I message) (\<lambda>ok.
        if ok
        then seqE (log_info (ConnectionAuthenticated i))
            (seqE (on_session i (sendACK (the_asio D)))
                  (scheduleNewAsyncRead i))
        else seqE (log_info (AuthenticationFailed i))
                  (on_session i (sendNACK (the_asio D)))))"

definition AuthenticatedSession_handleRead ::
  "('s, 'j, 'r) deps \<Rightarrow> nat \<Rightarrow> Message \<Rightarrow> (exn, 's world, unit) eff" where
  "AuthenticatedSession_handleRead D i message =
     seqE (on_session i (send (the_asio D) \<lparr>msg_type = JUST_A_MESSAGE,
            content = str (''Got your message! '' @ [CHR 0x27]) @ content message @ str [CHR 0x27]\<rparr>))
          (scheduleNewAsyncRead i)"

section \<open>createBridgeWithStreamer\<close>

text \<open>
  The sockets are moved out of both sessions into the bridge. The moved-from objects are not
  used again and die with the last references to them when the call returns, so they leave
  the world here. When the constructor of the bridge throws, the sockets are destroyed too.
\<close>

definition make_bridge :: "'s asio \<Rightarrow> nat \<Rightarrow> nat \<Rightarrow> (exn, 's world, unit) eff" where
  "make_bridge ops streamer viewer w =
     (case (sessions w streamer, sessions w viewer) of
        (Some s, Some v) \<Rightarrow>
          let w = w\<lparr>sessions := (sessions w)(streamer := None, viewer := None)\<rparr>
          in (case new_bridge ops (socket (base s)) (socket (base v)) of
                Inl e \<Rightarrow> (Inl e, w)
              | Inr b \<Rightarrow> (Inr (), w\<lparr>bridges := bridges w @ [snd (start_bridge b)],
                                    log := log w @ [BridgeCreated streamer viewer]\<rparr>))
      | _ \<Rightarrow> (Inl moved_session_used, w))"

definition createBridgeWithStreamer ::
  "'s asio \<Rightarrow> nat \<Rightarrow> cstring \<Rightarrow> (exn, 's world, bool) eff" where
  "createBridgeWithStreamer ops receiver session_code =
     bindE (zoom registry (\<lambda>m w. w\<lparr>registry := m\<rparr>)
              (\<lambda>m. let (r, m') = extract_session session_code m in (Inr r, m')))
       (\<lambda>found. case found of
          None \<Rightarrow> ret False
        | Some sender_session \<Rightarrow>
            seqE (on_session receiver (sendACK ops))
           (seqE (on_session sender_session (send ops \<lparr>msg_type = START_STREAM, content = []\<rparr>))
           (seqE (make_bridge ops sender_session receiver)
                 (ret True))))"

section \<open>ProxySession\<close>

definition ProxySession_handleRead ::
  "('s, 'j, 'r) deps \<Rightarrow> inputs \<Rightarrow> nat \<Rightarrow> Message \<Rightarrow> (exn, 's world, unit) eff" where
  "ProxySession_handleRead D I i message =
     bindE (lift_sum (type_to_str_at (msg_type message))) (\<lambda>logged.
      case msg_type message of
        REGISTER_STREAMER \<Rightarrow>
          bindE (zoom registry (\<lambda>m w. w\<lparr>registry := m\<rparr>) (registerStreamer i (now I))) (\<lambda>id.
          seqE (log_info (RegisteredStreamer i id))
               (on_session i (send (the_asio D) \<lparr>msg_type = ID, content = id\<rparr>)))
      | FIND_STREAMER \<Rightarrow>
          bindE (createBridgeWithStreamer (the_asio D) i (content message)) (\<lambda>is_found.
          whenE (\<not> is_found)
            (seqE (on_session i (sendNACK (the_asio D)))
                  (scheduleNewAsyncRead i)))
      | _ \<Rightarrow>
          bindE (lift_sum (type_to_str_at (msg_type message))) (\<lambda>name.
          seqE (on_session i (send (the_asio D) \<lparr>msg_type = RESPONSE,
                  content = str (''Did not expect '' @ name @ '' message.'')\<rparr>))
               (scheduleNewAsyncRead i)))"

text \<open>The log line at the start cannot throw: every type has a name.\<close>

lemma bindE_lift_Inr [simp]: "bindE (lift_sum (Inr x)) f = f x"
  by (rule ext) (simp add: bindE_def lift_sum_def)

lemma ProxySession_handleRead_eq:
  "ProxySession_handleRead D I i message =
     (case msg_type message of
        REGISTER_STREAMER \<Rightarrow>
          bindE (zoom registry (\<lambda>m w. w\<lparr>registry := m\<rparr>) (registerStreamer i (now I))) (\<lambda>id.
          seqE (log_info (RegisteredStreamer i id))
               (on_session i (send (the_asio D) \<lparr>msg_type = ID, content = id\<rparr>)))
      | FIND_STREAMER \<Rightarrow>
          bindE (createBridgeWithStreamer (the_asio D) i (content message)) (\<lambda>is_found.
          whenE (\<not> is_found)
            (seqE (on_session i (sendNACK (the_asio D)))
                  (scheduleNewAsyncRead i)))
      | _ \<Rightarrow>
          bindE (lift_sum (type_to_str_at (msg_type message))) (\<lambda>name.
          seqE (on_session i (send (the_asio D) \<lparr>msg_type = RESPONSE,
                  content = str (''Did not expect '' @ name @ '' message.'')\<rparr>))
               (scheduleNewAsyncRead i)))"
  by (simp only: ProxySession_handleRead_def type_to_str_at_eq bindE_lift_Inr)

definition run_handler ::
  "('s, 'j, 'r) deps \<Rightarrow> inputs \<Rightarrow> nat \<Rightarrow> session_class \<Rightarrow> handler \<Rightarrow> Message \<Rightarrow> (exn, 's world, unit) eff" where
  "run_handler D I i c h message =
     (case h of
        AuthenticateCallback \<Rightarrow> authenticateCallback D I i message
      | HandleRead \<Rightarrow>
          (case c of
             AuthenticatedSession \<Rightarrow> AuthenticatedSession_handleRead D i message
           | ProxySession \<Rightarrow> ProxySession_handleRead D I i message))"

section \<open>Events\<close>

text \<open>Sessions nothing refers to are destroyed.\<close>

definition registered :: "'s world \<Rightarrow> nat set" where
  "registered w = client_session ` snd ` set (senders_sessions (registry w))"

definition collect :: "'s world \<Rightarrow> 's world" where
  "collect w = w\<lparr>sessions := (\<lambda>i. case sessions w i of
       None \<Rightarrow> None
     | Some s \<Rightarrow> if reads (base s) = [] \<and> i \<notin> registered w then None else Some s)\<rparr>"

text \<open>The completion of the read in flight of session \<open>i\<close>.\<close>

definition session_buffer :: "nat \<Rightarrow> 's world \<Rightarrow> byte list" where
  "session_buffer i w = (case sessions w i of None \<Rightarrow> [] | Some s \<Rightarrow> data_buffer (base s))"

definition read_done ::
  "('s, 'j, 'r) deps \<Rightarrow> inputs \<Rightarrow> nat \<Rightarrow> error_code option \<Rightarrow> byte list \<Rightarrow> (exn, 's world, unit) eff" where
  "read_done D I i ec bytes w =
     (case sessions w i of
        None \<Rightarrow> (Inr (), w)
      | Some s \<Rightarrow>
          (case reads (base s) of
             [] \<Rightarrow> (Inr (), w)
           | HeaderRead h mx # _ \<Rightarrow>
               on_session i (seqE pop_read
                 (asyncReadHeader_handler (the_lib D) (the_asio D) h mx ec bytes)) w
           | BodyRead h header # _ \<Rightarrow>
               seqE (on_session i (seqE pop_read
                       (modify (\<lambda>sb. sb\<lparr>data_buffer := overwrite (data_buffer sb) bytes\<rparr>))))
                 (asyncReadMessageImpl_handler (the_lib D) (session_buffer i)
                    (\<lambda>reason. on_session i (safeDisconnect (the_asio D) reason))
                    (run_handler D I i (session_class s) h) header ec (length bytes)) w))"

text \<open>
  The handler of \<open>async_accept\<close> in the server of a class. The constructor of a session also
  asks for the remote endpoint.
\<close>

definition new_session :: "session_class \<Rightarrow> cstring \<Rightarrow> 's \<Rightarrow> 's session" where
  "new_session c address s = \<lparr>base = new_SocketBase s, session_class = c, endpoint = address\<rparr>"

definition create_and_start :: "'s asio \<Rightarrow> session_class \<Rightarrow> 's \<Rightarrow> (exn, 's world, unit) eff" where
  "create_and_start ops c s w =
     (case op_remote_endpoint ops s of
        Inl ec \<Rightarrow> (Inl (SystemError ec), w)
      | Inr address \<Rightarrow>
          let i = next_session w
          in start_session ops i (w\<lparr>sessions := (sessions w)(i \<mapsto> new_session c address s),
                                    next_session := Suc i\<rparr>))"

definition acceptNewConnection :: "session_class \<Rightarrow> (exn, 's world, unit) eff" where
  "acceptNewConnection c = modify (\<lambda>w. w\<lparr>accepting := (accepting w)(c := True)\<rparr>)"

definition accept_done ::
  "'s asio \<Rightarrow> session_class \<Rightarrow> error_code option \<Rightarrow> 's \<Rightarrow> (exn, 's world, unit) eff" where
  "accept_done ops c error s =
     seqE (modify (\<lambda>w. w\<lparr>accepting := (accepting w)(c := False)\<rparr>))
    (seqE (case error of
             Some _ \<Rightarrow> ret ()
           | None \<Rightarrow> catchE (create_and_start ops c s)
                      (\<lambda>e. if is_std_exception e then ret () else throw e))
          (acceptNewConnection c))"

text \<open>The world when both servers have been constructed.\<close>

definition new_world :: "user_table \<Rightarrow> int \<Rightarrow> int \<Rightarrow> 's world" where
  "new_world table timeout interval = \<lparr>sessions = Map.empty, next_session = 0, users = table,
     users_manager_alive = True, registry = initCleanerThread timeout interval new_manager,
     bridges = [], accepting = (\<lambda>c. True), log = []\<rparr>"

definition server_init :: "'s world \<Rightarrow> bool" where
  "server_init w \<longleftrightarrow> (\<exists>table timeout interval. w = new_world table timeout interval)"

text \<open>
  The completion of a read in flight of the \<open>k\<close>-th bridge. The object stays in the list when its
  last read is done; nothing refers to it then.
\<close>

definition bridge_done :: "'s asio \<Rightarrow> nat \<Rightarrow> bridge_event \<Rightarrow> (exn, 's world, unit) eff" where
  "bridge_done ops k ev w =
     (let (r, b) = bridge_event_handler ops ev (bridges w ! k)
      in (r, w\<lparr>bridges := (bridges w)[k := b]\<rparr>))"

text \<open>
  The events. Asynchronous reads transfer exactly the bytes they were started for, or fail, those
  of a bridge at least one byte; accounts can be added at any time by another process. An event
  happens in a world, has a label, and gives the result of its handler, which is an exception
  when one leaves it, and the next world.
\<close>

fun expected_bytes :: "'h async_read \<Rightarrow> nat" where
  "expected_bytes (HeaderRead h mx) = sizeof_MessageHeader"
| "expected_bytes (BodyRead h header) = unat (message_size header)"

datatype event_label =
    SessionReads nat "error_code option" "byte list"
  | ConnectionAccepted session_class
  | BridgeReads nat bridge_event
  | CleanerSweeps
  | UserAdded

inductive server_event ::
  "('s, 'j, 'r) deps \<Rightarrow> 's world \<Rightarrow> event_label \<Rightarrow> exn + unit \<Rightarrow> 's world \<Rightarrow> bool" for D where
  event_read: "sessions w i = Some s \<Longrightarrow> reads (base s) = r # rs \<Longrightarrow>
    length bytes \<le> expected_bytes r \<Longrightarrow> (ec = None \<Longrightarrow> length bytes = expected_bytes r) \<Longrightarrow>
    read_done D I i ec bytes w = (res, w') \<Longrightarrow>
    server_event D w (SessionReads i ec bytes) res (collect w')"
| event_accept: "accepting w c \<Longrightarrow> accept_done (the_asio D) c ec s w = (res, w') \<Longrightarrow>
    server_event D w (ConnectionAccepted c) res (collect w')"
| event_bridge: "k < length (bridges w) \<Longrightarrow> d \<in> set (in_flight (bridges w ! k)) \<Longrightarrow>
    length bytes \<le> MAX_DATA_LENGTH \<Longrightarrow> (ec = None \<Longrightarrow> bytes \<noteq> []) \<Longrightarrow>
    bridge_done (the_asio D) k (ReadDone d ec bytes) w = (res, w') \<Longrightarrow>
    server_event D w (BridgeReads k (ReadDone d ec bytes)) res w'"
| event_cleaner: "connections_controller (registry w) = Some cleaner \<Longrightarrow>
    server_event D w CleanerSweeps (Inr ())
      (collect (w\<lparr>registry := terminateTimeoutClients clock (client_timeout cleaner) (registry w)\<rparr>))"
| event_user: "server_event D w UserAdded (Inr ())
    (w\<lparr>users := snd (addUser (the_bcrypt D) salt fault email password (users w))\<rparr>)"

inductive_cases server_eventE: "server_event D w l r w'"

inductive_cases bridge_eventE: "server_event D w (BridgeReads k ev) r w'"

text \<open>A step of the world is any event, whatever the result of its handler.\<close>

definition server_step :: "('s, 'j, 'r) deps \<Rightarrow> 's world \<Rightarrow> 's world \<Rightarrow> bool" where
  "server_step D w w' \<longleftrightarrow> (\<exists>l r. server_event D w l r w')"

lemma step_read:
  assumes "sessions w i = Some s" and "reads (base s) = r # rs"
    and "length bytes \<le> expected_bytes r" and "ec = None \<Longrightarrow> length bytes = expected_bytes r"
  shows "server_step D w (collect (snd (read_done D I i ec bytes w)))"
  unfolding server_step_def using event_read [OF assms prod.collapse [symmetric]] by blast

lemma step_accept:
  assumes "accepting w c"
  shows "server_step D w (collect (snd (accept_done (the_asio D) c ec s w)))"
  unfolding server_step_def using event_accept [OF assms prod.collapse [symmetric]] by blast

text \<open>Runs in which no exception left a handler, by the labels of their events.\<close>

inductive server_trace :: "('s, 'j, 'r) deps \<Rightarrow> 's world \<Rightarrow> event_label list \<Rightarrow> 's world \<Rightarrow> bool" for D where
  trace_nil: "server_trace D w [] w"
| trace_cons: "server_event D w l (Inr ()) w' \<Longrightarrow> server_trace D w' ls w'' \<Longrightarrow> server_trace D w (l # ls) w''"

lemma trace_one: "server_event D w l (Inr ()) w' \<Longrightarrow> server_trace D w [l] w'"
  by (rule trace_cons [OF _ trace_nil])

lemma trace_append: "server_trace D w ls w' \<Longrightarrow> server_trace D w' ls' w'' \<Longrightarrow> server_trace D w (ls @ ls') w''"
  by (induction rule: server_trace.induct) (auto intro: trace_cons)

lemma trace_reach:
  "server_trace D w ls w' \<Longrightarrow> reach init (server_step D) w \<Longrightarrow> reach init (server_step D) w'"
proof (induction rule: server_trace.induct)
  case (trace_cons w l w' ls w'')
  from trace_cons.hyps(1) have "server_step D w w'"
    unfolding server_step_def by blast
  with trace_cons.prems have "reach init (server_step D) w'"
    by (rule reach_step)
  with trace_cons.IH show ?case .
qed

text \<open>What a session read in a run.\<close>

fun session_input :: "nat \<Rightarrow> event_label list \<Rightarrow> byte list" where
  "session_input i [] = []"
| "session_input i (SessionReads j ec bytes # ls) = (if j = i then bytes else []) @ session_input i ls"
| "session_input i (l # ls) = session_input i ls"

lemma session_input_append [simp]: "session_input i (ls @ ls') = session_input i ls @ session_input i ls'"
  by (induction i ls rule: session_input.induct) simp_all

end
