(* ===== verification/Server_Safety.thy ===== *)
theory Server_Safety
  imports Server
begin

text \<open>
  The invariant of the servers: every session object has a sound buffer, at most one read in
  flight with the limit of its handler, and serves requests, waits in the registry or ends up
  in a bridge only after it was authenticated. The lemmas follow the operations; each says
  what an operation leaves in the normal and in the exceptional case.
\<close>

section \<open>The invariant\<close>

fun limit :: "handler \<Rightarrow> size_t" where
  "limit AuthenticateCallback = FIRST_MESSAGE_MAX_SIZE"
| "limit HandleRead = BUFFER_SIZE_t"

lemma limit_le: "limit h \<le> BUFFER_SIZE_t"
  by (cases h) (simp_all add: FIRST_MESSAGE_MAX_SIZE_def BUFFER_SIZE_t_def BUFFER_SIZE_def)

fun handler_of :: "'h async_read \<Rightarrow> 'h" where
  "handler_of (HeaderRead h mx) = h"
| "handler_of (BodyRead h header) = h"

fun read_ok :: "handler async_read \<Rightarrow> bool" where
  "read_ok (HeaderRead h mx) \<longleftrightarrow> mx = limit h"
| "read_ok (BodyRead h header) \<longleftrightarrow> message_size header \<le> limit h"

definition object_ok :: "('s, handler) SocketBase \<Rightarrow> bool" where
  "object_ok sb \<longleftrightarrow> buffer_ok sb \<and> length (reads sb) \<le> 1 \<and> list_all read_ok (reads sb)"

definition authenticated :: "'s world \<Rightarrow> nat \<Rightarrow> bool" where
  "authenticated w i \<longleftrightarrow> ConnectionAuthenticated i \<in> set (log w)"

definition session_ok :: "'s world \<Rightarrow> nat \<Rightarrow> 's session \<Rightarrow> bool" where
  "session_ok w i s \<longleftrightarrow> i < next_session w \<and> object_ok (base s)
     \<and> (HandleRead \<in> handler_of ` set (reads (base s)) \<longrightarrow> authenticated w i)"

definition world_inv :: "'s world \<Rightarrow> bool" where
  "world_inv w \<longleftrightarrow>
     (\<forall>i s. sessions w i = Some s \<longrightarrow> session_ok w i s)
   \<and> (\<forall>i \<in> registered w. authenticated w i \<and> (\<exists>s. sessions w i = Some s \<and> reads (base s) = []))
   \<and> registry_ok (registry w)
   \<and> (\<forall>i j. BridgeCreated j i \<in> set (log w) \<longrightarrow> i \<noteq> j \<and> authenticated w i \<and> authenticated w j)"

text \<open>Between the completion of its read and the next: no read in flight, not registered.\<close>

definition quiet :: "nat \<Rightarrow> 's world \<Rightarrow> bool" where
  "quiet i w \<longleftrightarrow> world_inv w \<and> i \<notin> registered w \<and> (\<exists>s. sessions w i = Some s \<and> reads (base s) = [])"

definition ready :: "nat \<Rightarrow> 's world \<Rightarrow> bool" where
  "ready i w \<longleftrightarrow> quiet i w \<and> authenticated w i"

lemma quiet_world_inv: "quiet i w \<Longrightarrow> world_inv w"
  by (simp add: quiet_def)

lemma ready_quiet: "ready i w \<Longrightarrow> quiet i w"
  by (simp add: ready_def)

lemma ready_world_inv: "ready i w \<Longrightarrow> world_inv w"
  by (simp add: ready_def quiet_def)

lemma world_invI:
  assumes "\<And>i s. sessions w i = Some s \<Longrightarrow> session_ok w i s"
    and "\<And>i. i \<in> registered w \<Longrightarrow> authenticated w i"
    and "\<And>i. i \<in> registered w \<Longrightarrow> \<exists>s. sessions w i = Some s \<and> reads (base s) = []"
    and "registry_ok (registry w)"
    and "\<And>i j. BridgeCreated j i \<in> set (log w) \<Longrightarrow> i \<noteq> j \<and> authenticated w i \<and> authenticated w j"
  shows "world_inv w"
  using assms unfolding world_inv_def by blast

lemma world_invD:
  assumes "world_inv w"
  shows "sessions w i = Some s \<Longrightarrow> session_ok w i s"
    and "i \<in> registered w \<Longrightarrow> authenticated w i"
    and "i \<in> registered w \<Longrightarrow> \<exists>s. sessions w i = Some s \<and> reads (base s) = []"
    and "registry_ok (registry w)"
    and "BridgeCreated j i \<in> set (log w) \<Longrightarrow> i \<noteq> j \<and> authenticated w i \<and> authenticated w j"
  using assms unfolding world_inv_def by blast+

section \<open>Updates of the world\<close>

lemma registered_update:
  "registered (w\<lparr>sessions := S\<rparr>) = registered w" "registered (w\<lparr>log := l\<rparr>) = registered w"
  "registered (w\<lparr>users := t\<rparr>) = registered w" "registered (w\<lparr>accepting := a\<rparr>) = registered w"
  by (simp_all add: registered_def)

lemma world_inv_session:
  assumes "world_inv w" and "session_ok w i s'" and "i \<in> registered w \<Longrightarrow> reads (base s') = []"
  shows "world_inv (w\<lparr>sessions := (sessions w)(i \<mapsto> s')\<rparr>)"
  using assms unfolding world_inv_def registered_def authenticated_def session_ok_def by auto

lemma world_inv_log:
  assumes "world_inv w" and "\<And>i j. line \<noteq> BridgeCreated j i"
  shows "world_inv (w\<lparr>log := log w @ [line]\<rparr>)"
proof -
  have "session_ok (w\<lparr>log := log w @ [line]\<rparr>) i s" if "session_ok w i s" for i s
    using that by (auto simp: session_ok_def authenticated_def)
  with assms show ?thesis
    unfolding world_inv_def registered_def authenticated_def by auto
qed

lemma world_inv_users: "world_inv w \<Longrightarrow> world_inv (w\<lparr>users := t\<rparr>)"
  unfolding world_inv_def registered_def authenticated_def session_ok_def by simp

lemma world_inv_accepting: "world_inv w \<Longrightarrow> world_inv (w\<lparr>accepting := a\<rparr>)"
  unfolding world_inv_def registered_def authenticated_def session_ok_def by simp

lemma world_inv_registry:
  assumes "world_inv w" and "registry_ok m"
    and "\<And>i. i \<in> client_session ` snd ` set (senders_sessions m) \<Longrightarrow>
      authenticated w i \<and> (\<exists>s. sessions w i = Some s \<and> reads (base s) = [])"
  shows "world_inv (w\<lparr>registry := m\<rparr>)"
  using assms unfolding world_inv_def registered_def authenticated_def session_ok_def by auto

text \<open>Predicates that do not look at the streams.\<close>

definition socket_blind :: "('s world \<Rightarrow> bool) \<Rightarrow> bool" where
  "socket_blind P \<longleftrightarrow> (\<forall>w i s t. P w \<longrightarrow> sessions w i = Some s \<longrightarrow>
     P (w\<lparr>sessions := (sessions w)(i \<mapsto> s\<lparr>base := (base s)\<lparr>socket := t\<rparr>\<rparr>)\<rparr>))"

lemma session_ok_socket:
  "session_ok w i s \<Longrightarrow> session_ok w i (s\<lparr>base := (base s)\<lparr>socket := t\<rparr>\<rparr>)"
  by (simp add: session_ok_def object_ok_def buffer_ok_def)

lemma socket_blind_world_inv: "socket_blind world_inv"
  unfolding socket_blind_def
proof (intro allI impI)
  fix w :: "'s world" and i s t
  assume w: "world_inv w" and s: "sessions w i = Some s"
  then show "world_inv (w\<lparr>sessions := (sessions w)(i \<mapsto> s\<lparr>base := (base s)\<lparr>socket := t\<rparr>\<rparr>)\<rparr>)"
    using world_invD(1,3) [OF w] by (intro world_inv_session session_ok_socket) force+
qed

lemma socket_blind_quiet: "socket_blind (quiet k)"
  using socket_blind_world_inv unfolding socket_blind_def quiet_def registered_def by auto

lemma socket_blind_authenticated: "socket_blind (\<lambda>w. authenticated w k)"
  by (simp add: socket_blind_def authenticated_def)

lemma socket_blind_conj:
  "socket_blind P \<Longrightarrow> socket_blind Q \<Longrightarrow> socket_blind (\<lambda>w. P w \<and> Q w)"
  unfolding socket_blind_def by blast

lemma socket_blind_ready: "socket_blind (ready k)"
  unfolding ready_def by (intro socket_blind_conj socket_blind_quiet socket_blind_authenticated)

lemma on_session_stream:
  assumes "socket_blind P" and "only_stream m" and "P w"
  shows "P (snd (on_session i m w))"
proof (cases "sessions w i")
  case None
  with assms(3) show ?thesis
    by (simp add: on_session_def)
next
  case (Some s)
  obtain r u where m: "m (base s) = (r, u)"
    by fastforce
  obtain t where "u = (base s)\<lparr>socket := t\<rparr>"
    using only_streamD [OF assms(2), of "base s"] m by auto
  moreover have "P (w\<lparr>sessions := (sessions w)(i \<mapsto> s\<lparr>base := (base s)\<lparr>socket := t\<rparr>\<rparr>)\<rparr>)"
    using assms(1,3) Some unfolding socket_blind_def by blast
  ultimately show ?thesis
    using Some m by (simp add: on_session_def)
qed

text \<open>Sends and disconnects of any session keep every such predicate, exceptions included.\<close>

lemma valid_stream:
  assumes "socket_blind P" and "only_stream m"
  shows "valid P (on_session i m) (\<lambda>_. P) (\<lambda>_. P)"
  using on_session_stream [OF assms] by (intro validI) (metis snd_conv)+

lemma valid_stream_inv:
  assumes "socket_blind P" and "only_stream m" and "\<And>w. P w \<Longrightarrow> world_inv w"
  shows "valid P (on_session i m) (\<lambda>_. P) (\<lambda>_. world_inv)"
  using valid_stream [OF assms(1,2)] by (rule valid_conseq) (auto intro: assms(3))

section \<open>The handlers\<close>

lemma valid_async_read:
  "valid (\<lambda>w. quiet i w \<and> (h = HandleRead \<longrightarrow> authenticated w i))
     (on_session i (asyncReadMessage h (limit h))) (\<lambda>_. world_inv) (\<lambda>_. world_inv)"
proof (rule validI)
  fix w :: "'a world" and a t
  assume w: "quiet i w \<and> (h = HandleRead \<longrightarrow> authenticated w i)"
    and step: "on_session i (asyncReadMessage h (limit h)) w = (Inr a, t)"
  from w obtain s where s: "sessions w i = Some s" "reads (base s) = []" "i \<notin> registered w"
    by (auto simp: quiet_def)
  have inv: "world_inv w"
    using w by (blast intro: quiet_world_inv)
  then have "session_ok w i s"
    using world_invD(1) s(1) by blast
  then have "session_ok w i (s\<lparr>base := (base s)\<lparr>reads := [HeaderRead h (limit h)]\<rparr>\<rparr>)"
    using w by (simp add: session_ok_def object_ok_def buffer_ok_def)
  moreover have "t = w\<lparr>sessions := (sessions w)(i \<mapsto>
      s\<lparr>base := (base s)\<lparr>reads := [HeaderRead h (limit h)]\<rparr>\<rparr>)\<rparr>"
    using step s limit_le [of h] by (simp add: on_session_def asyncReadMessage_limit)
  ultimately show "world_inv t"
    using s(3) by (metis world_inv_session inv)
next
  fix w :: "'a world" and e t
  assume "quiet i w \<and> (h = HandleRead \<longrightarrow> authenticated w i)"
    and "on_session i (asyncReadMessage h (limit h)) w = (Inl e, t)"
  then show "world_inv t"
    using limit_le [of h] by (auto simp: on_session_def asyncReadMessage_limit quiet_def)
qed

lemma valid_schedule: "valid (ready i) (scheduleNewAsyncRead i) (\<lambda>_. world_inv) (\<lambda>_. world_inv)"
  unfolding scheduleNewAsyncRead_def
  by (rule valid_conseq [OF valid_async_read [of i HandleRead, unfolded limit.simps]]) (auto simp: ready_def)

lemma valid_start: "valid (quiet i) (start_session ops i) (\<lambda>_. world_inv) (\<lambda>_. world_inv)"
  unfolding start_session_def
  by (rule valid_seqE [OF valid_stream_inv [OF socket_blind_quiet only_stream_on_stream quiet_world_inv]])
    (auto intro: valid_conseq [OF valid_async_read [of i AuthenticateCallback, unfolded limit.simps]])

lemma valid_log:
  "(\<And>i j. line \<noteq> BridgeCreated j i) \<Longrightarrow> valid (quiet k) (log_info line) (\<lambda>_. quiet k) E"
  "(\<And>i j. line \<noteq> BridgeCreated j i) \<Longrightarrow> valid world_inv (log_info line) (\<lambda>_. world_inv) E"
  unfolding log_info_def
  by (rule valid_modify; force simp: quiet_def registered_def intro: world_inv_log)+

lemma valid_log_authenticated:
  "valid (quiet i) (log_info (ConnectionAuthenticated i)) (\<lambda>_. ready i) E"
  unfolding log_info_def
  by (rule valid_modify)
    (auto simp: ready_def quiet_def registered_def authenticated_def intro: world_inv_log)

lemma valid_authenticate: "valid (quiet i) (authenticate D I m) (\<lambda>_. quiet i) (\<lambda>_. world_inv)"
proof -
  have db: "valid (quiet i) (zoom users (\<lambda>t w. w\<lparr>users := t\<rparr>) k) (\<lambda>_. quiet i) (\<lambda>_. world_inv)"
    for k :: "(exn, user_table, bool) eff"
    by (rule validI)
      (auto simp: zoom_def quiet_def registered_update intro: world_inv_users split: prod.splits)
  note pure = valid_bindE [OF valid_lift_sum [where Q = "\<lambda>_. quiet i"]]
    valid_bindE [OF valid_gets [where Q = "\<lambda>_. quiet i"]]
  show ?thesis
    unfolding authenticate_def
    by (intro pure valid_if db valid_ret) (simp_all only: quiet_world_inv)
qed

lemma valid_authenticateCallback:
  "valid (quiet i) (authenticateCallback D I i m) (\<lambda>_. world_inv) (\<lambda>_. world_inv)"
proof -
  have send: "valid (quiet i) (on_session i k) (\<lambda>_. world_inv) (\<lambda>_. world_inv)"
    if "only_stream k" for k :: "(exn, ('a, handler) SocketBase, unit) eff"
    by (rule valid_conseq [OF valid_stream_inv [OF socket_blind_quiet that]])
      (auto dest: quiet_world_inv)
  have accept: "valid (quiet i) (seqE (log_info (ConnectionAuthenticated i))
      (seqE (on_session i (sendACK (the_asio D))) (scheduleNewAsyncRead i)))
      (\<lambda>_. world_inv) (\<lambda>_. world_inv)"
    by (rule valid_seqE [OF valid_log_authenticated] valid_seqE
        [OF valid_stream_inv [OF socket_blind_ready] valid_schedule]
        | rule stream_only ready_world_inv | assumption)+
  have refuse: "valid (quiet i) (seqE (log_info (AuthenticationFailed i))
      (on_session i (sendNACK (the_asio D)))) (\<lambda>_. world_inv) (\<lambda>_. world_inv)"
    by (rule valid_seqE [OF valid_log(1) send]) (simp_all add: stream_only)
  show ?thesis
    unfolding authenticateCallback_def
    by (intro valid_if valid_bindE [OF valid_authenticate] accept refuse send stream_only)
qed

text \<open>A ready session answers and waits for the next message.\<close>

lemma valid_answer:
  assumes "only_stream m"
  shows "valid (ready i) (seqE (on_session i m) (scheduleNewAsyncRead i)) (\<lambda>_. world_inv) (\<lambda>_. world_inv)"
  by (rule valid_seqE [OF valid_stream_inv [OF socket_blind_ready assms ready_world_inv] valid_schedule])

lemma registered_extract:
  "registered (w\<lparr>registry := snd (extract_session code (registry w))\<rparr>) \<subseteq> registered w"
  by (auto simp: registered_def extract_session_def AList.delete_eq split: option.splits)

lemma extracted_registered:
  assumes "fst (extract_session code m) = Some j" and "registry_ok m"
  shows "j \<in> client_session ` snd ` set (senders_sessions m)"
    and "senders_sessions (snd (extract_session code m)) = []"
proof -
  obtain node where node: "map_of (senders_sessions m) code = Some node" "client_session node = j"
    using assms(1) by (auto simp: extract_session_def split: option.splits)
  then have mem: "(code, node) \<in> set (senders_sessions m)"
    by (blast dest: map_of_SomeD)
  with node show "j \<in> client_session ` snd ` set (senders_sessions m)"
    by force
  have keys: "fst ` set (senders_sessions m) \<subseteq> {str ''test''}"
    using assms(2) by (simp only: registry_ok_def)
  have "fst x = code" if "x \<in> set (senders_sessions m)" for x
  proof -
    have "fst x \<in> {str ''test''}" and "fst (code, node) \<in> {str ''test''}"
      using keys imageI [OF that, of fst] imageI [OF mem, of fst] by (blast, blast)
    then show ?thesis
      by (simp only: singleton_iff fst_conv)
  qed
  with node show "senders_sessions (snd (extract_session code m)) = []"
    by (auto simp: extract_session_def AList.delete_eq filter_empty_conv)
qed

lemma valid_extract:
  "valid (ready i)
     (zoom registry (\<lambda>m w. w\<lparr>registry := m\<rparr>)
        (\<lambda>m. let (r, m') = extract_session code m in (Inr r, m')))
     (\<lambda>r w. ready i w \<and> (\<forall>j. r = Some j \<longrightarrow> ready j w \<and> i \<noteq> j)) E"
proof (rule validI)
  fix w :: "'a world" and r t
  assume w: "ready i w" and "zoom registry (\<lambda>m w. w\<lparr>registry := m\<rparr>)
      (\<lambda>m. let (r, m') = extract_session code m in (Inr r, m')) w = (Inr r, t)"
  then have t: "t = w\<lparr>registry := snd (extract_session code (registry w))\<rparr>"
    and r: "r = fst (extract_session code (registry w))"
    by (auto simp: zoom_def split: prod.splits)
  have inv: "world_inv w"
    using w by (rule ready_world_inv)
  have sub: "registered t \<subseteq> registered w"
    unfolding t by (rule registered_extract)
  have inv_t: "world_inv t"
    unfolding t using world_invD(2,3) [OF inv] sub
    by (intro world_inv_registry [OF inv] registry_ok_extract world_invD(4) [OF inv])
      (force simp: t registered_def)+
  have "ready i t"
    using w sub inv_t by (auto simp: ready_def quiet_def t authenticated_def)
  moreover have "ready j t \<and> i \<noteq> j" if "r = Some j" for j
  proof -
    have "j \<in> registered w" and "registered t = {}"
      using extracted_registered [OF _ world_invD(4) [OF inv], of code j] that r
      by (auto simp: registered_def t)
    with w world_invD(2,3) [OF inv] inv_t show ?thesis
      by (force simp: ready_def quiet_def t authenticated_def)
  qed
  ultimately show "ready i t \<and> (\<forall>j. r = Some j \<longrightarrow> ready j t \<and> i \<noteq> j)"
    by blast
qed (auto simp: zoom_def split: prod.splits)

lemma valid_make_bridge:
  "valid (\<lambda>w. ready i w \<and> ready j w \<and> i \<noteq> j) (make_bridge ops j i) (\<lambda>_. world_inv) (\<lambda>_. world_inv)"
proof -
  have key: "world_inv (snd (make_bridge ops j i w))"
    if w: "ready i w \<and> ready j w \<and> i \<noteq> j" for w :: "'a world"
  proof -
    obtain si sj where s: "sessions w i = Some si" "sessions w j = Some sj"
      "i \<notin> registered w" "j \<notin> registered w"
      using w by (auto simp: ready_def quiet_def)
    let ?w = "w\<lparr>sessions := (sessions w)(j := None, i := None)\<rparr>"
    have inv: "world_inv ?w"
      using w s unfolding ready_def quiet_def world_inv_def registered_def authenticated_def session_ok_def
      by auto
    have "world_inv (?w\<lparr>bridges := bs, log := log w @ [BridgeCreated j i]\<rparr>)" for bs
      using inv w s unfolding ready_def quiet_def world_inv_def registered_def authenticated_def session_ok_def
      by auto
    with inv s show ?thesis
      by (simp add: make_bridge_def Let_def split: sum.splits)
  qed
  then show ?thesis
    by (intro validI) (metis snd_conv)+
qed

lemma valid_createBridge:
  "valid (ready i) (createBridgeWithStreamer ops i code)
     (\<lambda>found w. world_inv w \<and> (\<not> found \<longrightarrow> ready i w)) (\<lambda>_. world_inv)"
proof -
  have both: "socket_blind (\<lambda>w. ready i w \<and> ready j w \<and> i \<noteq> j)" for j
    by (intro socket_blind_conj socket_blind_ready) (simp add: socket_blind_def)
  have step: "valid (\<lambda>w. ready i w \<and> ready j w \<and> i \<noteq> j) (on_session k m)
      (\<lambda>_ w. ready i w \<and> ready j w \<and> i \<noteq> j) (\<lambda>_. world_inv)"
    if "only_stream m" for j k and m :: "(exn, ('a, handler) SocketBase, unit) eff"
    by (rule valid_stream_inv [OF both that]) (auto dest: ready_world_inv)
  show ?thesis
    unfolding createBridgeWithStreamer_def
  proof (rule valid_bindE [OF valid_extract])
    fix found
    show "valid (\<lambda>w. ready i w \<and> (\<forall>j. found = Some j \<longrightarrow> ready j w \<and> i \<noteq> j))
        (case found of None \<Rightarrow> ret False
         | Some j \<Rightarrow> seqE (on_session i (sendACK ops))
             (seqE (on_session j (send ops \<lparr>msg_type = START_STREAM, content = []\<rparr>))
               (seqE (make_bridge ops j i) (ret True))))
        (\<lambda>found w. world_inv w \<and> (\<not> found \<longrightarrow> ready i w)) (\<lambda>_. world_inv)"
    proof (cases found)
      case None
      then show ?thesis
        by (auto intro: valid_ret ready_world_inv)
    next
      case (Some j)
      have "valid (\<lambda>w. ready i w \<and> ready j w \<and> i \<noteq> j)
          (seqE (on_session i (sendACK ops))
             (seqE (on_session j (send ops \<lparr>msg_type = START_STREAM, content = []\<rparr>))
               (seqE (make_bridge ops j i) (ret True))))
          (\<lambda>found w. world_inv w \<and> (\<not> found \<longrightarrow> ready i w)) (\<lambda>_. world_inv)"
        by (rule valid_seqE step valid_make_bridge stream_only valid_ret | simp)+
      with Some show ?thesis
        by simp
    qed
  qed
qed

lemma only_registered:
  assumes "registry_ok m" and "map_of (senders_sessions m) (str ''test'') = Some n"
    and "k \<in> client_session ` snd ` set (senders_sessions m)"
  shows "k = client_session n"
proof -
  obtain x where x: "x \<in> set (senders_sessions m)" "k = client_session (snd x)"
    using assms(3) by blast
  have "fst x \<in> {str ''test''}"
    using assms(1) imageI [OF x(1), of fst] unfolding registry_ok_def by blast
  then have "(str ''test'', snd x) \<in> set (senders_sessions m)"
    using x(1) by (metis singletonD prod.collapse)
  then have "map_of (senders_sessions m) (str ''test'') = Some (snd x)"
    using assms(1) unfolding registry_ok_def by (blast intro: map_of_is_SomeI)
  with assms(2) x(2) show ?thesis
    by (simp only: option.inject)
qed

lemma registered_now:
  "map_of (senders_sessions (snd (registerStreamer i t m))) (str ''test'')
     = Some \<lparr>client_session = i, time_point = t\<rparr>"
  by (simp add: registerStreamer_eq update_conv' del: str_simps)

lemma valid_register:
  "valid (ready i) (zoom registry (\<lambda>m w. w\<lparr>registry := m\<rparr>) (registerStreamer i t)) (\<lambda>_. world_inv) E"
proof (rule validI)
  fix w :: "'a world" and a u
  assume w: "ready i w" and "zoom registry (\<lambda>m w. w\<lparr>registry := m\<rparr>) (registerStreamer i t) w = (Inr a, u)"
  then have u: "u = w\<lparr>registry := snd (registerStreamer i t (registry w))\<rparr>"
    by (auto simp: zoom_def split: prod.splits)
  let ?m = "snd (registerStreamer i t (registry w))"
  have ok: "registry_ok ?m"
    using world_invD(4) [OF ready_world_inv [OF w]] by (rule registry_ok_register)
  have "k = i" if "k \<in> client_session ` snd ` set (senders_sessions ?m)" for k
    using only_registered [OF ok registered_now that] by simp
  with w ok show "world_inv u"
    unfolding u by (intro world_inv_registry) (auto simp: ready_def quiet_def)
qed (simp add: zoom_def registerStreamer_eq)

lemma valid_proxy:
  "valid (ready i) (ProxySession_handleRead D I i m) (\<lambda>_. world_inv) (\<lambda>_. world_inv)"
proof -
  have send: "valid world_inv (on_session i k) (\<lambda>_. world_inv) (\<lambda>_. world_inv)"
    if "only_stream k" for k :: "(exn, ('a, handler) SocketBase, unit) eff"
    by (rule valid_stream [OF socket_blind_world_inv that])
  have register: "valid (ready i)
      (bindE (zoom registry (\<lambda>m w. w\<lparr>registry := m\<rparr>) (registerStreamer i (now I))) (\<lambda>id.
         seqE (log_info (RegisteredStreamer i id))
              (on_session i (send (the_asio D) \<lparr>msg_type = ID, content = id\<rparr>))))
      (\<lambda>_. world_inv) (\<lambda>_. world_inv)"
    by (rule valid_bindE [OF valid_register] valid_seqE [OF valid_log(2) send] stream_only | simp)+
  have find: "valid (ready i)
      (bindE (createBridgeWithStreamer (the_asio D) i (content m)) (\<lambda>is_found.
         whenE (\<not> is_found) (seqE (on_session i (sendNACK (the_asio D))) (scheduleNewAsyncRead i))))
      (\<lambda>_. world_inv) (\<lambda>_. world_inv)"
  proof (rule valid_bindE [OF valid_createBridge])
    fix found
    show "valid (\<lambda>w. world_inv w \<and> (\<not> found \<longrightarrow> ready i w))
        (whenE (\<not> found) (seqE (on_session i (sendNACK (the_asio D))) (scheduleNewAsyncRead i)))
        (\<lambda>_. world_inv) (\<lambda>_. world_inv)"
      by (cases found)
        (auto simp: whenE_def intro: valid_ret valid_conseq [OF valid_answer] stream_only)
  qed
  have other: "valid (ready i)
      (bindE (lift_sum (type_to_str_at (msg_type m))) (\<lambda>name.
         seqE (on_session i (send (the_asio D) \<lparr>msg_type = RESPONSE,
                  content = str (''Did not expect '' @ name @ '' message.'')\<rparr>))
              (scheduleNewAsyncRead i)))
      (\<lambda>_. world_inv) (\<lambda>_. world_inv)"
    by (rule valid_bindE [OF valid_lift_sum [where Q = "\<lambda>_. ready i"]])
      (auto intro: valid_answer stream_only)
  show ?thesis
    unfolding ProxySession_handleRead_eq using register find other
    by (cases "msg_type m") (simp_all only: MessageType.case)
qed

lemma valid_run_handler:
  "valid (\<lambda>w. quiet i w \<and> (h = HandleRead \<longrightarrow> authenticated w i)) (run_handler D I i c h m)
     (\<lambda>_. world_inv) (\<lambda>_. world_inv)"
proof (cases h)
  case AuthenticateCallback
  then show ?thesis
    using valid_authenticateCallback by (simp add: run_handler_def)
next
  case HandleRead
  have "valid (ready i) (run_handler D I i c h m) (\<lambda>_. world_inv) (\<lambda>_. world_inv)"
    using HandleRead valid_proxy [of i D I m]
    by (cases c) (auto simp: run_handler_def AuthenticatedSession_handleRead_def
      intro: valid_answer stream_only)
  then show ?thesis
    by (rule valid_conseq) (auto simp: ready_def HandleRead)
qed

section \<open>The events\<close>

lemma quiet_pop:
  assumes "world_inv w" and "sessions w i = Some s" and "reads (base s) = r # rs"
    and "length bytes \<le> BUFFER_SIZE"
  shows "quiet i (w\<lparr>sessions := (sessions w)(i \<mapsto> s\<lparr>base := (base s)\<lparr>reads := rs,
      data_buffer := overwrite (data_buffer (base s)) bytes\<rparr>\<rparr>)\<rparr>)" and "rs = []"
proof -
  have ok: "session_ok w i s"
    using world_invD(1) [OF assms(1,2)] .
  then show rs: "rs = []"
    using assms(3) by (simp add: session_ok_def object_ok_def)
  have "i \<notin> registered w"
    using world_invD(3) [OF assms(1), of i] assms(2,3) by auto
  moreover have "session_ok w i (s\<lparr>base := (base s)\<lparr>reads := rs,
      data_buffer := overwrite (data_buffer (base s)) bytes\<rparr>\<rparr>)"
    using ok rs assms(4) by (simp add: session_ok_def object_ok_def buffer_ok_def)
  ultimately show "quiet i (w\<lparr>sessions := (sessions w)(i \<mapsto> s\<lparr>base := (base s)\<lparr>reads := rs,
      data_buffer := overwrite (data_buffer (base s)) bytes\<rparr>\<rparr>)\<rparr>)"
    using world_inv_session [OF assms(1)] rs by (simp add: quiet_def registered_def)
qed

lemma inv_read_header:
  assumes w: "world_inv w" and s: "sessions w i = Some s" "reads (base s) = HeaderRead h mx # rs"
    and len: "length bytes \<le> sizeof_MessageHeader" "ec = None \<Longrightarrow> length bytes = sizeof_MessageHeader"
  shows "world_inv (snd (read_done D I i ec bytes w))"
proof -
  have ok: "session_ok w i s"
    using world_invD(1) [OF w s(1)] .
  then have rs: "rs = []" and mx: "mx = limit h"
    using s(2) by (simp_all add: session_ok_def object_ok_def)
  let ?sb = "(base s)\<lparr>reads := rs\<rparr>"
  obtain t rr where r: "snd (asyncReadHeader_handler (the_lib D) (the_asio D) h mx ec bytes ?sb) =
       ?sb\<lparr>data_buffer := overwrite (data_buffer ?sb) bytes, socket := t, reads := reads ?sb @ rr\<rparr>"
    and rr: "rr = [] \<or> (\<exists>hr. rr = [BodyRead h hr] \<and> message_size hr \<le> mx)"
    using header_handler_result [of ec bytes "the_lib D" "the_asio D" h mx ?sb] len(2) by metis
  let ?s' = "s\<lparr>base := ?sb\<lparr>data_buffer := overwrite (data_buffer ?sb) bytes, socket := t, reads := reads ?sb @ rr\<rparr>\<rparr>"
  have "length bytes \<le> BUFFER_SIZE"
    using len(1) BUFFER_SIZE_holds_header by simp
  then have "session_ok w i ?s'"
    using ok s(2) rs mx rr by (auto simp: session_ok_def object_ok_def buffer_ok_def)
  moreover have "i \<notin> registered w"
    using world_invD(3) [OF w, of i] s by auto
  ultimately have "world_inv (w\<lparr>sessions := (sessions w)(i \<mapsto> ?s')\<rparr>)"
    by (metis world_inv_session w)
  moreover have "snd (read_done D I i ec bytes w) = w\<lparr>sessions := (sessions w)(i \<mapsto> ?s')\<rparr>"
    using r s by (auto simp: read_done_def on_session_def pop_read_def seqE_step modify_def split: prod.splits)
  ultimately show ?thesis
    by simp
qed


lemma inv_read_body:
  assumes w: "world_inv w" and s: "sessions w i = Some s" "reads (base s) = BodyRead h hr # rs"
    and len: "length bytes \<le> unat (message_size hr)"
  shows "world_inv (snd (read_done D I i ec bytes w))"
proof -
  have ok: "session_ok w i s"
    using world_invD(1) [OF w s(1)] .
  then have "unat (message_size hr) \<le> unat (limit h)"
    using s(2) by (simp add: session_ok_def object_ok_def word_le_nat_alt)
  also have "\<dots> \<le> BUFFER_SIZE"
    using limit_le [of h] by (simp add: word_le_nat_alt)
  finally have "length bytes \<le> BUFFER_SIZE"
    using len by simp
  note quiet = quiet_pop [OF w s this]
  let ?w = "w\<lparr>sessions := (sessions w)(i \<mapsto> s\<lparr>base := (base s)\<lparr>reads := rs,
      data_buffer := overwrite (data_buffer (base s)) bytes\<rparr>\<rparr>)\<rparr>"
  have auth: "h = HandleRead \<longrightarrow> authenticated w i"
    using ok s(2) by (auto simp: session_ok_def)
  let ?k = "asyncReadMessageImpl_handler (the_lib D) (session_buffer i)
      (\<lambda>reason. on_session i (safeDisconnect (the_asio D) reason))
      (run_handler D I i (session_class s) h) hr ec (length bytes)"
  have "valid (\<lambda>w. quiet i w \<and> (h = HandleRead \<longrightarrow> authenticated w i)) ?k (\<lambda>_. world_inv) (\<lambda>_. world_inv)"
  proof (cases ec)
    case (Some e)
    then show ?thesis
      by (auto simp: asyncReadMessageImpl_handler_def intro: valid_ret quiet_world_inv)
  next
    case None
    have run: "valid (\<lambda>w. quiet i w \<and> (h = HandleRead \<longrightarrow> authenticated w i))
        (bindE (gets (session_buffer i)) (\<lambda>data.
           run_handler D I i (session_class s) h \<lparr>msg_type = hdr_type hr, content = take (length bytes) data\<rparr>))
        (\<lambda>_. world_inv) (\<lambda>_. world_inv)"
      by (rule valid_bindE [OF valid_gets [where Q = "\<lambda>_ w. quiet i w \<and> (h = HandleRead \<longrightarrow> authenticated w i)"]
            valid_run_handler])
    show ?thesis
      unfolding asyncReadMessageImpl_handler_def None option.case
      by (intro valid_catchE [OF run] valid_if valid_throw
          valid_stream [OF socket_blind_world_inv only_stream_safeDisconnect])
  qed
  then have k: "world_inv (snd (?k v))" if "quiet i v \<and> (h = HandleRead \<longrightarrow> authenticated v i)" for v
    using that unfolding valid_def by (cases "?k v") (fastforce split: sum.splits)
  have "snd (read_done D I i ec bytes w) = snd (?k ?w)"
    using s by (simp add: read_done_def seqE_def bindE_def on_session_def pop_read_def modify_def)
  with k [of ?w] quiet auth show ?thesis
    by (simp add: authenticated_def)
qed

lemma world_inv_collect:
  assumes "world_inv w"
  shows "world_inv (collect w)"
proof -
  have sub: "sessions w i = Some s" if "sessions (collect w) i = Some s" for i s
    using that by (auto simp: collect_def split: option.splits if_splits)
  have stays: "sessions (collect w) i = sessions w i" if "i \<in> registered w" for i
    using that by (auto simp: collect_def split: option.splits)
  have same: "registered (collect w) = registered w" "registry (collect w) = registry w"
    "log (collect w) = log w" "next_session (collect w) = next_session w"
    by (simp_all add: collect_def registered_def)
  have "session_ok (collect w) i s" if "session_ok w i s" for i s
    using that by (simp add: session_ok_def authenticated_def same)
  note ok = this
  have auth: "authenticated (collect w) i \<longleftrightarrow> authenticated w i" for i
    by (simp add: authenticated_def same)
  show ?thesis
  proof (rule world_invI)
    show "session_ok (collect w) i s" if "sessions (collect w) i = Some s" for i s
      using ok [OF world_invD(1) [OF assms sub [OF that]]] .
    show "authenticated (collect w) i" if "i \<in> registered (collect w)" for i
      using world_invD(2) [OF assms] that by (simp only: same auth)
    show "\<exists>s. sessions (collect w) i = Some s \<and> reads (base s) = []" if "i \<in> registered (collect w)" for i
      using world_invD(3) [OF assms] that stays by (simp only: same)
    show "registry_ok (registry (collect w))"
      using world_invD(4) [OF assms] by (simp only: same)
    show "i \<noteq> j \<and> authenticated (collect w) i \<and> authenticated (collect w) j"
      if "BridgeCreated j i \<in> set (log (collect w))" for i j
      using world_invD(5) [OF assms, of j i] that by (simp add: same auth)
  qed
qed

lemma inv_new_session:
  assumes w: "world_inv w"
  shows "quiet (next_session w) (w\<lparr>sessions := (sessions w)(next_session w \<mapsto> new_session c address s),
           next_session := Suc (next_session w)\<rparr>)" (is "quiet _ ?w")
proof -
  have fresh: "sessions w (next_session w) = None"
    using world_invD(1) [OF w, of "next_session w"] by (cases "sessions w (next_session w)") (auto simp: session_ok_def)
  then have unregistered: "next_session w \<notin> registered w"
    using world_invD(3) [OF w] by fastforce
  have same: "registered ?w = registered w" "authenticated ?w j \<longleftrightarrow> authenticated w j" for j
    by (simp_all add: registered_def authenticated_def)
  have "session_ok ?w (next_session w) (new_session c address s)"
    using buffer_ok_new [of s] by (simp add: session_ok_def new_session_def object_ok_def new_SocketBase_def)
  moreover have "session_ok ?w j s'" if "session_ok w j s'" for j s'
    using that by (auto simp: session_ok_def same)
  ultimately have "world_inv ?w"
    using w unregistered unfolding world_inv_def same by auto
  with unregistered show ?thesis
    by (simp add: quiet_def same(1)) (simp add: new_session_def new_SocketBase_def)
qed

lemma valid_accept: "valid world_inv (accept_done ops c error s) (\<lambda>_. world_inv) (\<lambda>_. world_inv)"
proof -
  have acc: "valid world_inv (modify (\<lambda>w. w\<lparr>accepting := f w\<rparr>)) (\<lambda>_. world_inv) (\<lambda>_. world_inv)"
    for f :: "'a world \<Rightarrow> session_class \<Rightarrow> bool"
    by (intro valid_modify world_inv_accepting)
  have create: "valid world_inv (create_and_start ops c s) (\<lambda>_. world_inv) (\<lambda>_. world_inv)"
  proof (cases "op_remote_endpoint ops s")
    case (Inl ec)
    then show ?thesis
      by (auto simp: valid_def create_and_start_def)
  next
    case (Inr address)
    have start: "valid (quiet (next_session w)) (start_session ops (next_session w)) (\<lambda>_. world_inv) (\<lambda>_. world_inv)"
      for w :: "'a world"
      by (rule valid_start)
    show ?thesis
      unfolding valid_def create_and_start_def Inr sum.case Let_def
      by (intro allI impI start [unfolded valid_def, rule_format] inv_new_session)
  qed
  show ?thesis
    unfolding accept_done_def acceptNewConnection_def
    by (cases error)
      (auto intro!: valid_seqE [OF acc] valid_seqE [OF _ acc] valid_catchE [OF create] valid_ret valid_throw)
qed

lemma world_inv_bridges: "world_inv w \<Longrightarrow> world_inv (w\<lparr>bridges := bs\<rparr>)"
  unfolding world_inv_def registered_def authenticated_def session_ok_def by simp

lemma inv_event:
  assumes inv: "world_inv w" and event: "server_event D w l r w'"
  shows "world_inv w'"
  using event
proof (cases rule: server_event.cases)
  case (event_read i s rd rs bytes ec I w1)
  have "world_inv (snd (read_done D I i ec bytes w))"
  proof (cases rd)
    case (HeaderRead h mx)
    with event_read show ?thesis
      by (intro inv_read_header [OF inv]) simp_all
  next
    case (BodyRead h hr)
    with event_read show ?thesis
      by (intro inv_read_body [OF inv]) simp_all
  qed
  with event_read show ?thesis
    by (simp add: world_inv_collect)
next
  case (event_accept c ec s w1)
  with valid_snd [OF valid_accept inv, of "the_asio D" c ec s] show ?thesis
    by (simp add: world_inv_collect)
next
  case (event_bridge k d bytes ec)
  with inv show ?thesis
    by (auto simp: bridge_done_def world_inv_bridges split: prod.splits)
next
  case (event_cleaner cleaner clock)
  let ?m = "terminateTimeoutClients clock (client_timeout cleaner) (registry w)"
  have "set (senders_sessions ?m) \<subseteq> set (senders_sessions (registry w))"
    using terminate_loop_subseq [of clock "client_timeout cleaner" 0 "senders_sessions (registry w)"]
    by (simp add: terminateTimeoutClients_def)
  then have "client_session ` snd ` set (senders_sessions ?m) \<subseteq> registered w"
    unfolding registered_def by (intro image_mono)
  then have "world_inv (w\<lparr>registry := ?m\<rparr>)"
    using world_invD(2,3) [OF inv]
    by (intro world_inv_registry [OF inv] registry_ok_terminate world_invD(4) [OF inv]) blast
  with event_cleaner show ?thesis
    by (simp add: world_inv_collect)
next
  case event_user
  then show ?thesis
    by (simp add: world_inv_users [OF inv])
qed

lemma inv_step: "world_inv w \<Longrightarrow> server_step D w w' \<Longrightarrow> world_inv w'"
  by (auto simp: server_step_def intro: inv_event)

lemma inv_init: "server_init w \<Longrightarrow> world_inv w"
  by (auto simp: server_init_def new_world_def registered_def initCleanerThread_def new_manager_def
    registry_ok_keys keys_ok_def intro!: world_invI)

interpretation server: inductive_invariant server_init "server_step D" world_inv for D
proof unfold_locales
qed (rule inv_init inv_step, assumption+)+

section \<open>Properties\<close>

text \<open>
  C1. Nobody is served without logging in. In every state the servers can reach, whatever the
  peers send and in whatever order connections, reads, sweeps and new accounts interleave: a
  session whose next message goes to \<open>handleRead\<close> was authenticated; so was every streamer in
  the registry; and the two ends of every bridge were authenticated and are different sessions.
\<close>

theorem only_authenticated_served:
  assumes "reach server_init (server_step D) w"
  shows "(\<forall>i s. sessions w i = Some s \<and> HandleRead \<in> handler_of ` set (reads (base s))
           \<longrightarrow> ConnectionAuthenticated i \<in> set (log w))
    \<and> (\<forall>i \<in> registered w. ConnectionAuthenticated i \<in> set (log w))
    \<and> (\<forall>i j. BridgeCreated j i \<in> set (log w) \<longrightarrow>
           i \<noteq> j \<and> ConnectionAuthenticated i \<in> set (log w) \<and> ConnectionAuthenticated j \<in> set (log w))"
proof -
  have inv: "world_inv w"
    using assms by (rule server.holds_reachable)
  show ?thesis
    using world_invD(2,5) [OF inv] world_invD(1) [OF inv] by (simp add: session_ok_def authenticated_def)
qed

text \<open>
  A login: the message is the email and the password at once, and a session that has sent it
  is waiting to be answered.
\<close>

definition plain_json :: "cstring json" where
  "plain_json = \<lparr>json_parse = Inr, json_at = (\<lambda>key j. Inr j)\<rparr>"

definition pipe_deps :: "(pipe, cstring, byte) deps" where
  "pipe_deps = \<lparr>the_lib = \<lparr>fmt_unsigned = (\<lambda>n. []), ec_what = (\<lambda>e. [])\<rparr>, the_asio = pipe_ops,
     the_bcrypt = plain_bcrypt, the_json = plain_json\<rparr>"

definition accepted_world :: "pipe world" where
  "accepted_world = collect (snd (accept_done pipe_ops ProxySession None
     \<lparr>incoming = [], outgoing = [], opened = True\<rparr> (new_world [[1] \<mapsto> [9, 1]] 30 60)))"

lemma accepted_world_reachable: "reach server_init (server_step pipe_deps) accepted_world"
proof -
  have "reach server_init (server_step pipe_deps) (new_world [[1] \<mapsto> [9, 1]] 30 60 :: pipe world)"
    by (rule reach_init) (auto simp: server_init_def)
  moreover have "server_step pipe_deps (new_world [[1] \<mapsto> [9, 1]] 30 60) accepted_world"
    using step_accept [of "new_world [[1] \<mapsto> [9, 1]] 30 60" ProxySession pipe_deps None
        "\<lparr>incoming = [], outgoing = [], opened = True\<rparr>"]
    by (simp add: accepted_world_def pipe_deps_def new_world_def)
  ultimately show ?thesis
    by (rule reach_step)
qed

lemma read_ok_header:
  "read_ok (HeaderRead h mx) \<Longrightarrow> mx = (if h = AuthenticateCallback then 1000 else BUFFER_SIZE_t)"
  by (cases h) (simp_all add: FIRST_MESSAGE_MAX_SIZE_def)

lemma read_ok_body:
  "read_ok (BodyRead h hr) \<Longrightarrow> unat (message_size hr) \<le> BUFFER_SIZE"
  "read_ok (BodyRead h hr) \<Longrightarrow> h = AuthenticateCallback \<Longrightarrow> unat (message_size hr) \<le> 1000"
  using limit_le [of h] by (simp_all add: word_le_nat_alt FIRST_MESSAGE_MAX_SIZE_def)

text \<open>
  C7. Memory and traffic of a session are bounded. In every reachable state each session has
  its buffer at full size and at most one read in flight; a peer that has not logged in is
  read at most 1000 bytes of content, one that has at most \<open>BUFFER_SIZE\<close>; the content that is
  being read fits the buffer; and at most one streamer is registered, by a session that exists.
\<close>

theorem session_reads_bounded:
  assumes "reach server_init (server_step D) w"
  shows "(\<forall>i s. sessions w i = Some s \<longrightarrow>
      length (data_buffer (base s)) = BUFFER_SIZE \<and> length (reads (base s)) \<le> 1
      \<and> (\<forall>h mx. HeaderRead h mx \<in> set (reads (base s)) \<longrightarrow>
           mx = (if h = AuthenticateCallback then 1000 else BUFFER_SIZE_t))
      \<and> (\<forall>h hr. BodyRead h hr \<in> set (reads (base s)) \<longrightarrow>
           unat (message_size hr) \<le> BUFFER_SIZE
           \<and> (h = AuthenticateCallback \<longrightarrow> unat (message_size hr) \<le> 1000)))
    \<and> currentSessions (registry w) \<le> 1
    \<and> (\<forall>i \<in> registered w. sessions w i \<noteq> None)"
proof -
  have inv: "world_inv w"
    using assms by (rule server.holds_reachable)
  have "length (data_buffer (base s)) = BUFFER_SIZE \<and> length (reads (base s)) \<le> 1
      \<and> (\<forall>h mx. HeaderRead h mx \<in> set (reads (base s)) \<longrightarrow>
           mx = (if h = AuthenticateCallback then 1000 else BUFFER_SIZE_t))
      \<and> (\<forall>h hr. BodyRead h hr \<in> set (reads (base s)) \<longrightarrow>
           unat (message_size hr) \<le> BUFFER_SIZE
           \<and> (h = AuthenticateCallback \<longrightarrow> unat (message_size hr) \<le> 1000))"
    if "sessions w i = Some s" for i s
  proof -
    have ok: "length (data_buffer (base s)) = BUFFER_SIZE" "length (reads (base s)) \<le> 1"
      "\<And>r. r \<in> set (reads (base s)) \<Longrightarrow> read_ok r"
      using world_invD(1) [OF inv that] by (auto simp: session_ok_def object_ok_def buffer_ok_def list_all_iff)
    from ok(1,2) show ?thesis
      by (intro conjI allI impI read_ok_header [OF ok(3)] read_ok_body(1) [OF ok(3)]
        read_ok_body(2) [OF ok(3)])
  qed
  moreover have "\<forall>i \<in> registered w. sessions w i \<noteq> None"
    using world_invD(3) [OF inv] by fastforce
  ultimately show ?thesis
    using registry_ok_at_most_one [OF world_invD(4) [OF inv]] by blast
qed

lemma session_reads_bounded_witness: "currentSessions (registry accepted_world) \<le> 1"
  using session_reads_bounded [OF accepted_world_reachable] by blast

end
