(* ===== verification/Server_Protocol.thy ===== *)
theory Server_Protocol
  imports Server_Safety
begin

text \<open>
  What the servers answer: the outcome of a login, of each message of the proxy, and of an
  accepted connection, on streams in working order, with everything that changes in the world.
\<close>

section \<open>Sending from a session\<close>

abbreviation set_base :: "nat \<Rightarrow> 's session \<Rightarrow> ('s, handler) SocketBase \<Rightarrow> 's world \<Rightarrow> 's world" where
  "set_base i s b w \<equiv> w\<lparr>sessions := (sessions w)(i \<mapsto> s\<lparr>base := b\<rparr>)\<rparr>"

lemma frames_short: "length c \<le> BUFFER_SIZE \<Longrightarrow> concat (frames \<lparr>msg_type = t, content = c\<rparr>) = frame t c"
  by (simp add: frames_def chunks_short)

lemma on_session_known:
  "sessions w i = Some s \<Longrightarrow> m (base s) = (r, b) \<Longrightarrow> on_session i m w = (r, set_base i s b w)"
  by (simp add: on_session_def)

lemma session_send:
  assumes "stream_contract ops sent avail live" and "sessions w i = Some s" and "live (socket (base s))"
  obtains t where "on_session i (send ops m) w = (Inr (), set_base i s ((base s)\<lparr>socket := t\<rparr>) w)"
    "live t" "sent t = sent (socket (base s)) @ concat (frames m)" "avail t = avail (socket (base s))"
proof -
  obtain t where "send ops m (base s) = (Inr (), (base s)\<lparr>socket := t\<rparr>)" "live t"
    "sent t = sent (socket (base s)) @ concat (frames m)" "avail t = avail (socket (base s))"
    by (rule send_live [OF assms(1,3)])
  with that show ?thesis
    using on_session_known [OF assms(2)] by blast
qed

lemma session_answer:
  assumes "stream_contract ops sent avail live" and "sessions w i = Some s" and "live (socket (base s))"
    and "length c \<le> BUFFER_SIZE"
  obtains t where
    "on_session i (send ops \<lparr>msg_type = k, content = c\<rparr>) w = (Inr (), set_base i s ((base s)\<lparr>socket := t\<rparr>) w)"
    "live t" "sent t = sent (socket (base s)) @ frame k c" "avail t = avail (socket (base s))"
  using session_send [OF assms(1-3), of "\<lparr>msg_type = k, content = c\<rparr>"] assms(4)
  by (auto simp: frames_short)

lemma schedule_known:
  "sessions w i = Some s \<Longrightarrow> scheduleNewAsyncRead i w =
     (Inr (), set_base i s ((base s)\<lparr>reads := reads (base s) @ [HeaderRead HandleRead BUFFER_SIZE_t]\<rparr>) w)"
  by (simp add: scheduleNewAsyncRead_def on_session_def asyncReadMessage_limit)

lemma no_new_reads: "reads sb = [] \<Longrightarrow> sb\<lparr>socket := t, reads := []\<rparr> = sb\<lparr>socket := t\<rparr>"
  by (cases sb) simp

lemma empty_short [simp]: "length ([] :: cstring) \<le> BUFFER_SIZE"
  by simp

section \<open>Login\<close>

text \<open>What the database says of an email and a password.\<close>

definition credentials_ok :: "('s, 'j, 'r) deps \<Rightarrow> 's world \<Rightarrow> cstring \<Rightarrow> cstring \<Rightarrow> bool" where
  "credentials_ok D w email password \<longleftrightarrow> users_manager_alive w \<and>
     (\<exists>hash. users w email = Some hash \<and> validatePassword (the_bcrypt D) password hash)"

lemma authenticate_parsed:
  assumes "json_parse (the_json D) (content m) = Inr j" and "json_at (the_json D) ''email'' j = Inr email"
    and "json_at (the_json D) ''password'' j = Inr password" and "db_fault I = None"
  shows "authenticate D I m w = (Inr (credentials_ok D w email password), w)"
  using assms
  by (auto simp: authenticate_def or_json_def bindE_def lift_sum_def gets_def ret_def zoom_def
    authenticate_user_eq credentials_ok_def split: option.splits)

lemma login_step_live:
  assumes contract: "stream_contract (the_asio D) sent avail live"
    and s: "sessions w i = Some s" "live (socket (base s))" "reads (base s) = []"
    and login: "msg_type m = LOGIN" and json: "json_parse (the_json D) (content m) = Inr j"
      "json_at (the_json D) ''email'' j = Inr email" "json_at (the_json D) ''password'' j = Inr password"
    and db: "db_fault I = None"
  obtains t where "live t" "sent t = sent (socket (base s)) @ frame (if credentials_ok D w email password then ACK else NACK) []"
    "authenticateCallback D I i m w = (Inr (), (set_base i s ((base s)\<lparr>socket := t,
      reads := (if credentials_ok D w email password then [HeaderRead HandleRead BUFFER_SIZE_t] else [])\<rparr>) w)
      \<lparr>log := log w @ [if credentials_ok D w email password then ConnectionAuthenticated i else AuthenticationFailed i]\<rparr>)"
proof -
  let ?ok = "credentials_ok D w email password"
  let ?w = "w\<lparr>log := log w @ [if ?ok then ConnectionAuthenticated i else AuthenticationFailed i]\<rparr>"
  have auth: "authenticate D I m w = (Inr ?ok, w)"
    by (rule authenticate_parsed [OF json db])
  have known: "sessions ?w i = Some s"
    using s(1) by simp
  obtain t where t: "on_session i (send (the_asio D) \<lparr>msg_type = if ?ok then ACK else NACK, content = []\<rparr>) ?w
      = (Inr (), set_base i s ((base s)\<lparr>socket := t\<rparr>) ?w)" "live t"
    "sent t = sent (socket (base s)) @ frame (if ?ok then ACK else NACK) []"
    using session_answer [OF contract known s(2) empty_short] by metis
  have "authenticateCallback D I i m w = (Inr (), (set_base i s ((base s)\<lparr>socket := t,
      reads := (if ?ok then [HeaderRead HandleRead BUFFER_SIZE_t] else [])\<rparr>) w)
      \<lparr>log := log w @ [if ?ok then ConnectionAuthenticated i else AuthenticationFailed i]\<rparr>)"
    using login auth t s(3)
    by (cases ?ok) (simp_all add: authenticateCallback_def bindE_step seqE_step log_info_def modify_def
      sendACK_def sendNACK_def schedule_known no_new_reads)
  with t(2,3) show ?thesis
    by (rule that)
qed


lemma login_step:
  assumes contract: "stream_contract (the_asio D) sent avail live"
    and s: "sessions w i = Some s" "live (socket (base s))" "reads (base s) = []"
    and login: "msg_type m = LOGIN" and json: "json_parse (the_json D) (content m) = Inr j"
      "json_at (the_json D) ''email'' j = Inr email" "json_at (the_json D) ''password'' j = Inr password"
    and db: "db_fault I = None"
  obtains t where "sent t = sent (socket (base s)) @ frame (if credentials_ok D w email password then ACK else NACK) []"
    "authenticateCallback D I i m w = (Inr (), (set_base i s ((base s)\<lparr>socket := t,
      reads := (if credentials_ok D w email password then [HeaderRead HandleRead BUFFER_SIZE_t] else [])\<rparr>) w)
      \<lparr>log := log w @ [if credentials_ok D w email password then ConnectionAuthenticated i else AuthenticationFailed i]\<rparr>)"
  by (rule login_step_live [OF contract s login json db]) (rule that)

text \<open>
  C12. The outcome of a login with well-formed JSON. The right password of a known email, while
  the user manager exists, gets \<open>ACK\<close> and the session waits for its next message; anything
  else gets \<open>NACK\<close> and no further read, so that the session is destroyed. One line of the log
  tells which; nothing else in the world changes.
\<close>

theorem login_outcome:
  assumes contract: "stream_contract (the_asio D) sent avail live"
    and s: "sessions w i = Some s" "live (socket (base s))" "reads (base s) = []" "i \<notin> registered w"
    and login: "msg_type m = LOGIN" and json: "json_parse (the_json D) (content m) = Inr j"
      "json_at (the_json D) ''email'' j = Inr email" "json_at (the_json D) ''password'' j = Inr password"
    and db: "db_fault I = None"
  shows "\<exists>t. sent t = sent (socket (base s)) @ frame (if credentials_ok D w email password then ACK else NACK) []
    \<and> (let w' = (set_base i s ((base s)\<lparr>socket := t,
              reads := (if credentials_ok D w email password then [HeaderRead HandleRead BUFFER_SIZE_t] else [])\<rparr>) w)
            \<lparr>log := log w @ [if credentials_ok D w email password then ConnectionAuthenticated i else AuthenticationFailed i]\<rparr>
       in authenticateCallback D I i m w = (Inr (), w')
        \<and> (sessions (collect w') i = None \<longleftrightarrow> \<not> credentials_ok D w email password))"
proof -
  obtain t where t: "sent t = sent (socket (base s)) @ frame (if credentials_ok D w email password then ACK else NACK) []"
    "authenticateCallback D I i m w = (Inr (), (set_base i s ((base s)\<lparr>socket := t,
      reads := (if credentials_ok D w email password then [HeaderRead HandleRead BUFFER_SIZE_t] else [])\<rparr>) w)
      \<lparr>log := log w @ [if credentials_ok D w email password then ConnectionAuthenticated i else AuthenticationFailed i]\<rparr>)"
    by (rule login_step [OF contract s(1-3) login json db])
  with s(4) show ?thesis
    by (intro exI [of _ t]) (simp add: collect_def registered_def Let_def)
qed

text \<open>A session that has sent nothing yet, in a world with one account.\<close>

definition idle_stream :: pipe where
  "idle_stream = \<lparr>incoming = [], outgoing = [], opened = True\<rparr>"

definition one_session :: "pipe world" where
  "one_session = (new_world [[1] \<mapsto> [9, 1]] 30 60)
     \<lparr>sessions := [0 \<mapsto> new_session ProxySession [] idle_stream], next_session := 1\<rparr>"

lemma one_session_simps [simp]:
  "sessions one_session 0 = Some (new_session ProxySession [] idle_stream)"
  "base (new_session c a st) = new_SocketBase st" "socket (new_SocketBase st) = st"
  "reads (new_SocketBase st) = []" "registered one_session = {}" "opened idle_stream"
  "outgoing idle_stream = []" "the_asio pipe_deps = pipe_ops"
  by (simp_all add: one_session_def new_session_def new_SocketBase_def registered_def new_world_def
    initCleanerThread_def new_manager_def idle_stream_def pipe_deps_def)

lemma login_outcome_witness:
  "sessions (collect (snd (authenticateCallback pipe_deps \<lparr>now = 0, db_fault = None\<rparr> 0
     \<lparr>msg_type = LOGIN, content = [1]\<rparr> one_session))) 0 \<noteq> None"
proof -
  let ?I = "\<lparr>now = 0, db_fault = None\<rparr>" and ?m = "\<lparr>msg_type = LOGIN, content = [1]\<rparr>"
  have json: "json_parse (the_json pipe_deps) (content ?m) = Inr [1]"
    "json_at (the_json pipe_deps) ''email'' [1] = Inr [1]" "json_at (the_json pipe_deps) ''password'' [1] = Inr [1]"
    by (simp_all add: pipe_deps_def plain_json_def)
  have "credentials_ok pipe_deps one_session [1] [1]"
    by (simp add: credentials_ok_def one_session_def new_world_def pipe_deps_def plain_bcrypt_def)
  moreover have "stream_contract (the_asio pipe_deps) outgoing incoming opened"
    by (simp add: pipe_contract)
  moreover have "\<exists>w'. authenticateCallback pipe_deps ?I 0 ?m one_session = (Inr (), w')
      \<and> (sessions (collect w') 0 = None \<longleftrightarrow> \<not> credentials_ok pipe_deps one_session [1] [1])"
    if "stream_contract (the_asio pipe_deps) outgoing incoming opened"
    using login_outcome [OF that, of one_session 0 "new_session ProxySession [] idle_stream" ?m "[1]" "[1]" "[1]" ?I] json
    by (auto simp: Let_def)
  ultimately show ?thesis
    by auto
qed

section \<open>Refused first messages\<close>

lemma body_arrives:
  assumes "sessions w i = Some s" and "reads (base s) = BodyRead h hr # rs"
  shows "read_done D I i None bytes w =
    catchE (run_handler D I i (session_class s) h \<lparr>msg_type = hdr_type hr, content = bytes\<rparr>)
      (\<lambda>e. if is_std_exception e then on_session i (safeDisconnect (the_asio D) (Some (what (the_lib D) e))) else throw e)
      (set_base i s ((base s)\<lparr>reads := rs, data_buffer := overwrite (data_buffer (base s)) bytes\<rparr>) w)"
  using assms by (simp add: read_done_def seqE_def bindE_def on_session_def pop_read_def modify_def
    asyncReadMessageImpl_handler_def catchE_def gets_def session_buffer_def)

text \<open>The goodbye a first message gets: a wrong type, or JSON the library refuses.\<close>

definition refusal :: "('s, 'j, 'r) deps \<Rightarrow> Message \<Rightarrow> cstring \<Rightarrow> bool" where
  "refusal D m reason \<longleftrightarrow>
     msg_type m \<noteq> LOGIN \<and> reason = str ''You have to login first.''
   \<or> msg_type m = LOGIN \<and> json_parse (the_json D) (content m) = Inl reason"

text \<open>
  C33. A first message that is no login. A session that has not logged in and sends a message
  of another type, or a login whose JSON does not parse, is sent a \<open>DISCONNECT\<close> with the reason
  and closed; the exception never leaves the handler, nothing is logged, no account and no
  registration changes, and the session is destroyed.
\<close>

theorem first_message_refused:
  assumes contract: "stream_contract (the_asio D) sent avail live"
    and shutdown_ok: "\<And>s. live s \<Longrightarrow> \<exists>t. op_shutdown (the_asio D) s = (None, t) \<and> sent t = sent s"
    and close_ok: "\<And>s. \<exists>t. op_close (the_asio D) s = (None, t) \<and> sent t = sent s \<and> \<not> op_is_open (the_asio D) t"
    and s: "sessions w i = Some s" "live (socket (base s))" "reads (base s) = [BodyRead AuthenticateCallback hr]"
    and free: "i \<notin> registered w"
    and refused: "refusal D \<lparr>msg_type = hdr_type hr, content = bytes\<rparr> reason"
  shows "\<exists>t. sent t = sent (socket (base s)) @ concat (frames \<lparr>msg_type = DISCONNECT, content = reason\<rparr>)
    \<and> \<not> op_is_open (the_asio D) t
    \<and> read_done D I i None bytes w = (Inr (), set_base i s ((base s)
        \<lparr>reads := [], data_buffer := overwrite (data_buffer (base s)) bytes, socket := t\<rparr>) w)
    \<and> sessions (collect (snd (read_done D I i None bytes w))) i = None"
proof -
  let ?b = "(base s)\<lparr>reads := [], data_buffer := overwrite (data_buffer (base s)) bytes\<rparr>"
  let ?w = "set_base i s ?b w" and ?m = "\<lparr>msg_type = hdr_type hr, content = bytes\<rparr>"
  have live: "live (socket ?b)"
    using s(2) by simp
  obtain t where t: "disconnect (the_asio D) (Some reason) ?b = (Inr (), ?b\<lparr>socket := t\<rparr>)"
    "sent t = sent (socket ?b) @ goodbye (Some reason)" "\<not> op_is_open (the_asio D) t"
    by (rule disconnect_live [OF contract live shutdown_ok close_ok])
  then have safe: "safeDisconnect (the_asio D) (Some reason) ?b = (Inr (), ?b\<lparr>socket := t\<rparr>)"
    by (simp add: safeDisconnect_def catchE_step)
  have "read_done D I i None bytes w = (Inr (), set_base i s (?b\<lparr>socket := t\<rparr>) w)"
  proof (cases "hdr_type hr = LOGIN")
    case True
    then have "authenticateCallback D I i ?m ?w = (Inl (JsonException reason), ?w)"
      using refused by (simp add: refusal_def authenticateCallback_def authenticate_def or_json_def
        bindE_def lift_sum_def)
    then show ?thesis
      using safe by (simp add: body_arrives [OF s(1,3)] run_handler_def catchE_step on_session_def)
  next
    case False
    then have "authenticateCallback D I i ?m ?w = (Inr (), set_base i s (?b\<lparr>socket := t\<rparr>) w)"
      using refused t(1) by (simp add: refusal_def authenticateCallback_def on_session_def del: str_simps)
    then show ?thesis
      by (simp add: body_arrives [OF s(1,3)] run_handler_def catchE_step)
  qed
  with t free show ?thesis
    by (intro exI [of _ t]) (simp add: goodbye_def collect_def registered_def)
qed

text \<open>A session whose first message is the single byte 7 of a \<open>FIND_STREAMER\<close>.\<close>

definition early_finder :: "pipe session" where
  "early_finder = \<lparr>base = (new_SocketBase idle_stream)
     \<lparr>reads := [BodyRead AuthenticateCallback \<lparr>message_size = 1, hdr_type = FIND_STREAMER\<rparr>]\<rparr>,
     session_class = ProxySession, endpoint = []\<rparr>"

lemma first_message_refused_witness:
  "sessions (collect (snd (read_done pipe_deps \<lparr>now = 0, db_fault = None\<rparr> 0 None [7]
     (one_session\<lparr>sessions := [0 \<mapsto> early_finder]\<rparr>)))) 0 = None"
proof -
  let ?w = "one_session\<lparr>sessions := [0 \<mapsto> early_finder]\<rparr>"
  have contract: "stream_contract (the_asio pipe_deps) outgoing incoming opened"
    by (simp add: pipe_contract)
  have closing: "\<exists>t. op_shutdown (the_asio pipe_deps) s = (None, t) \<and> outgoing t = outgoing s" if "opened s" for s
    using that by simp
  have close: "\<exists>t. op_close (the_asio pipe_deps) s = (None, t) \<and> outgoing t = outgoing s
      \<and> \<not> op_is_open (the_asio pipe_deps) t" for s
    by simp
  have s: "sessions ?w 0 = Some early_finder" "opened (socket (base early_finder))"
    "reads (base early_finder) = [BodyRead AuthenticateCallback \<lparr>message_size = 1, hdr_type = FIND_STREAMER\<rparr>]"
    "0 \<notin> registered ?w"
    by (simp_all add: early_finder_def registered_update)
  have refused: "refusal pipe_deps \<lparr>msg_type = hdr_type \<lparr>message_size = 1, hdr_type = FIND_STREAMER\<rparr>, content = [7]\<rparr>
      (str ''You have to login first.'')"
    by (simp add: refusal_def del: str_simps)
  from first_message_refused [OF contract closing close s refused] show ?thesis
    by blast
qed

section \<open>The proxy\<close>

text \<open>
  C32. A streamer registers. It is told its code \<open>test\<close>, and from then on a viewer's code
  \<open>test\<close> finds this session and no other; whoever was registered before is dropped. No read is
  started, and the session is kept by the registry until a viewer comes or it expires.
\<close>

theorem streamer_registration:
  assumes contract: "stream_contract (the_asio D) sent avail live"
    and s: "sessions w i = Some s" "live (socket (base s))" and reg: "msg_type m = REGISTER_STREAMER"
  shows "\<exists>t w'. ProxySession_handleRead D I i m w = (Inr (), w')
    \<and> sent t = sent (socket (base s)) @ frame ID (str ''test'')
    \<and> sessions w' = (sessions w)(i \<mapsto> s\<lparr>base := (base s)\<lparr>socket := t\<rparr>\<rparr>)
    \<and> found_session (registry w') (str ''test'') = Some i
    \<and> log w' = log w @ [RegisteredStreamer i (str ''test'')]
    \<and> sessions (collect w') i \<noteq> None
    \<and> (registry_ok (registry w) \<longrightarrow> registered w' = {i})"
proof -
  let ?w = "w\<lparr>registry := snd (registerStreamer i (now I) (registry w)),
      log := log w @ [RegisteredStreamer i (str ''test'')]\<rparr>"
  have known: "sessions ?w i = Some s" and short: "length (str ''test'') \<le> BUFFER_SIZE"
    using s(1) by (simp_all add: BUFFER_SIZE_def)
  obtain t where t: "on_session i (send (the_asio D) \<lparr>msg_type = ID, content = str ''test''\<rparr>) ?w
      = (Inr (), set_base i s ((base s)\<lparr>socket := t\<rparr>) ?w)"
    "sent t = sent (socket (base s)) @ frame ID (str ''test'')"
    by (rule session_answer [OF contract known s(2) short])
  let ?w' = "set_base i s ((base s)\<lparr>socket := t\<rparr>) ?w"
  have step: "ProxySession_handleRead D I i m w = (Inr (), ?w')"
    using reg t(1) by (simp add: ProxySession_handleRead_eq bindE_def seqE_def zoom_def registerStreamer_eq
      log_info_def modify_def del: str_simps)
  have found: "map_of (senders_sessions (registry ?w')) (str ''test'') = Some \<lparr>client_session = i, time_point = now I\<rparr>"
    using registered_now [of i "now I" "registry w"] by (simp del: str_simps)
  then have mem: "i \<in> registered ?w'"
    unfolding registered_def by (force dest: map_of_SomeD)
  moreover have "registered ?w' \<subseteq> {i}" if "registry_ok (registry w)"
  proof -
    have "registry_ok (registry ?w')"
      using registry_ok_register [OF that] by simp
    with found show ?thesis
      using only_registered unfolding registered_def by fastforce
  qed
  ultimately have "registered ?w' = {i}" if "registry_ok (registry w)"
    using that by blast
  moreover have "sessions (collect ?w') i \<noteq> None"
    using mem by (simp add: collect_def)
  ultimately show ?thesis
    using step t(2) found
    by (intro exI [of _ t] exI [of _ ?w']) (simp add: found_session_def del: str_simps)
qed

lemma streamer_registration_witness:
  "\<exists>w'. ProxySession_handleRead pipe_deps \<lparr>now = 5, db_fault = None\<rparr> 0 \<lparr>msg_type = REGISTER_STREAMER, content = []\<rparr>
      one_session = (Inr (), w') \<and> found_session (registry w') (str ''test'') = Some 0"
proof -
  have "stream_contract (the_asio pipe_deps) outgoing incoming opened"
    by (simp add: pipe_contract)
  from streamer_registration [OF this one_session_simps(1), of "\<lparr>msg_type = REGISTER_STREAMER, content = []\<rparr>"
      "\<lparr>now = 5, db_fault = None\<rparr>"]
  show ?thesis
    by (simp del: str_simps) blast
qed

lemma extract_missing: "found_session m k = None \<Longrightarrow> extract_session k m = (None, m)"
  by (simp add: found_session_def extract_session_def)

lemma extract_found:
  assumes "found_session m k = Some j"
  shows "extract_session k m = (Some j, m\<lparr>senders_sessions := AList.delete k (senders_sessions m)\<rparr>)"
  using assms by (auto simp: found_session_def extract_session_def)

lemma bridge_missing:
  assumes "found_session (registry w) k = None"
  shows "createBridgeWithStreamer ops i k w = (Inr False, w)"
  by (simp add: createBridgeWithStreamer_def bindE_def zoom_def extract_missing [OF assms] ret_def)

lemma bridge_found:
  assumes "found_session (registry w) k = Some j"
  shows "createBridgeWithStreamer ops i k w =
     seqE (on_session i (sendACK ops))
    (seqE (on_session j (send ops \<lparr>msg_type = START_STREAM, content = []\<rparr>))
    (seqE (make_bridge ops j i) (ret True)))
    (w\<lparr>registry := (registry w)\<lparr>senders_sessions := AList.delete k (senders_sessions (registry w))\<rparr>\<rparr>)"
  by (simp add: createBridgeWithStreamer_def bindE_def zoom_def extract_found [OF assms])

text \<open>
  A viewer asks for a code nobody registered: it gets \<open>NACK\<close> and may ask again, since the
  session starts its next read; the registry and every other session are as before.
\<close>

theorem unknown_code_refused:
  assumes contract: "stream_contract (the_asio D) sent avail live"
    and s: "sessions w i = Some s" "live (socket (base s))"
    and find: "msg_type m = FIND_STREAMER" "found_session (registry w) (content m) = None"
  shows "\<exists>t. sent t = sent (socket (base s)) @ frame NACK []
    \<and> ProxySession_handleRead D I i m w = (Inr (), set_base i s ((base s)\<lparr>socket := t,
        reads := reads (base s) @ [HeaderRead HandleRead BUFFER_SIZE_t]\<rparr>) w)"
proof -
  obtain t where t: "on_session i (send (the_asio D) \<lparr>msg_type = NACK, content = []\<rparr>) w
      = (Inr (), set_base i s ((base s)\<lparr>socket := t\<rparr>) w)"
    "sent t = sent (socket (base s)) @ frame NACK []"
    by (rule session_answer [OF contract s empty_short])
  have "createBridgeWithStreamer (the_asio D) i (content m) w = (Inr False, w)"
    by (rule bridge_missing [OF find(2)])
  then have "ProxySession_handleRead D I i m w = (Inr (), set_base i s ((base s)\<lparr>socket := t,
      reads := reads (base s) @ [HeaderRead HandleRead BUFFER_SIZE_t]\<rparr>) w)"
    using find(1) t(1)
    by (simp add: ProxySession_handleRead_eq bindE_def whenE_def seqE_def sendNACK_def schedule_known)
  with t(2) show ?thesis
    by blast
qed

lemma unknown_code_refused_witness:
  "\<exists>t. outgoing t = frame NACK []
    \<and> ProxySession_handleRead pipe_deps \<lparr>now = 5, db_fault = None\<rparr> 0 \<lparr>msg_type = FIND_STREAMER, content = [1]\<rparr> one_session
      = (Inr (), set_base 0 (new_session ProxySession [] idle_stream) ((new_SocketBase idle_stream)\<lparr>socket := t,
          reads := [HeaderRead HandleRead BUFFER_SIZE_t]\<rparr>) one_session)"
proof -
  have "stream_contract (the_asio pipe_deps) outgoing incoming opened"
    by (simp add: pipe_contract)
  moreover have "found_session (registry one_session) (content \<lparr>msg_type = FIND_STREAMER, content = [1]\<rparr>) = None"
    by (simp add: found_session_def one_session_def new_world_def initCleanerThread_def new_manager_def)
  ultimately show ?thesis
    using unknown_code_refused [of pipe_deps outgoing incoming opened one_session 0
        "new_session ProxySession [] idle_stream" "\<lparr>msg_type = FIND_STREAMER, content = [1]\<rparr>"
        "\<lparr>now = 5, db_fault = None\<rparr>"]
    by simp
qed

lemma viewer_meets_step:
  assumes contract: "stream_contract (the_asio D) sent avail live"
    and viewer: "sessions w i = Some v" "live (socket (base v))"
    and streamer: "found_session (registry w) (content m) = Some j" "sessions w j = Some s"
      "live (socket (base s))" and "i \<noteq> j"
    and find: "msg_type m = FIND_STREAMER"
    and address: "\<And>st. live st \<Longrightarrow> \<exists>a. op_remote_endpoint (the_asio D) st = Inr a"
  shows "\<exists>tv ts b. ProxySession_handleRead D I i m w =
        (Inr (), w\<lparr>sessions := (sessions w)(j := None, i := None),
             registry := (registry w)\<lparr>senders_sessions := AList.delete (content m) (senders_sessions (registry w))\<rparr>,
             bridges := bridges w @ [b], log := log w @ [BridgeCreated j i]\<rparr>)
    \<and> sent tv = sent (socket (base v)) @ frame ACK [] \<and> sent ts = sent (socket (base s)) @ frame START_STREAM []
    \<and> peer_one b = ts \<and> peer_two b = tv \<and> in_flight b = [Upstream, Downstream] \<and> live tv \<and> live ts"
proof -
  let ?m = "(registry w)\<lparr>senders_sessions := AList.delete (content m) (senders_sessions (registry w))\<rparr>"
  let ?w1 = "w\<lparr>registry := ?m\<rparr>"
  have known1: "sessions ?w1 i = Some v"
    using viewer(1) by simp
  obtain tv where tv: "on_session i (send (the_asio D) \<lparr>msg_type = ACK, content = []\<rparr>) ?w1
      = (Inr (), set_base i v ((base v)\<lparr>socket := tv\<rparr>) ?w1)" "live tv"
    "sent tv = sent (socket (base v)) @ frame ACK []"
    by (rule session_answer [OF contract known1 viewer(2) empty_short])
  let ?w2 = "set_base i v ((base v)\<lparr>socket := tv\<rparr>) ?w1"
  have known2: "sessions ?w2 j = Some s"
    using streamer(2) \<open>i \<noteq> j\<close> by simp
  obtain ts where ts: "on_session j (send (the_asio D) \<lparr>msg_type = START_STREAM, content = []\<rparr>) ?w2
      = (Inr (), set_base j s ((base s)\<lparr>socket := ts\<rparr>) ?w2)" "live ts"
    "sent ts = sent (socket (base s)) @ frame START_STREAM []"
    by (rule session_answer [OF contract known2 streamer(3) empty_short])
  let ?w3 = "set_base j s ((base s)\<lparr>socket := ts\<rparr>) ?w2"
  obtain b where b: "new_bridge (the_asio D) ts tv = Inr b" "peer_one b = ts" "peer_two b = tv" "in_flight b = []"
    using address [OF tv(2)] address [OF ts(2)] by (auto simp: new_bridge_def)
  let ?b = "snd (start_bridge b :: (exn + unit) \<times> 'a bridge)"
  have started: "peer_one ?b = ts" "peer_two ?b = tv" "in_flight ?b = [Upstream, Downstream]"
    using b(2-4) by (simp_all add: start_bridge_def start_read_def seqE_def bindE_def modify_def)
  have "make_bridge (the_asio D) j i ?w3 = (Inr (), ?w3\<lparr>sessions := (sessions w)(j := None, i := None),
      bridges := bridges w @ [?b], log := log w @ [BridgeCreated j i]\<rparr>)"
    using b(1) \<open>i \<noteq> j\<close> by (simp add: make_bridge_def Let_def fun_upd_twist)
  then have "createBridgeWithStreamer (the_asio D) i (content m) w = (Inr True, ?w3\<lparr>sessions :=
      (sessions w)(j := None, i := None), bridges := bridges w @ [?b], log := log w @ [BridgeCreated j i]\<rparr>)"
    unfolding bridge_found [OF streamer(1)] sendACK_def
    by (simp add: seqE_def bindE_def tv(1) [simplified] ts(1) [simplified] ret_def)
  then have "ProxySession_handleRead D I i m w = (Inr (), ?w3\<lparr>sessions := (sessions w)(j := None, i := None),
      bridges := bridges w @ [?b], log := log w @ [BridgeCreated j i]\<rparr>)"
    using find by (simp add: ProxySession_handleRead_eq bindE_def whenE_def ret_def)
  with started tv(2,3) ts(2,3) show ?thesis
    by (intro exI [of _ tv] exI [of _ ts] exI [of _ ?b]) simp
qed

text \<open>
  C14. A viewer finds its streamer. The viewer gets \<open>ACK\<close>, the streamer \<open>START_STREAM\<close>, in this
  order; the code is taken out of the registry; both sessions give their sockets to a bridge
  that starts reading from both; and neither session is left in the world.
\<close>

theorem viewer_meets_streamer:
  assumes contract: "stream_contract (the_asio D) sent avail live"
    and viewer: "sessions w i = Some v" "live (socket (base v))"
    and streamer: "found_session (registry w) (content m) = Some j" "sessions w j = Some s"
      "live (socket (base s))" and "i \<noteq> j"
    and find: "msg_type m = FIND_STREAMER"
    and address: "\<And>st. live st \<Longrightarrow> \<exists>a. op_remote_endpoint (the_asio D) st = Inr a"
  shows "\<exists>tv ts b. ProxySession_handleRead D I i m w =
        (Inr (), w\<lparr>sessions := (sessions w)(j := None, i := None),
             registry := (registry w)\<lparr>senders_sessions := AList.delete (content m) (senders_sessions (registry w))\<rparr>,
             bridges := bridges w @ [b], log := log w @ [BridgeCreated j i]\<rparr>)
    \<and> sent tv = sent (socket (base v)) @ frame ACK [] \<and> sent ts = sent (socket (base s)) @ frame START_STREAM []
    \<and> peer_one b = ts \<and> peer_two b = tv \<and> in_flight b = [Upstream, Downstream]"
  using viewer_meets_step [OF contract viewer streamer \<open>i \<noteq> j\<close> find address, of I] by blast

text \<open>A viewer (0) and a streamer (1) that is registered under the code 7.\<close>

definition two_sessions :: "pipe world" where
  "two_sessions = one_session\<lparr>sessions := [0 \<mapsto> new_session ProxySession [] idle_stream,
       1 \<mapsto> new_session ProxySession [] idle_stream], next_session := 2,
     registry := new_manager\<lparr>senders_sessions := [([7], \<lparr>client_session = 1, time_point = 0\<rparr>)]\<rparr>\<rparr>"

lemma two_sessions_simps [simp]:
  "sessions two_sessions 0 = Some (new_session ProxySession [] idle_stream)"
  "sessions two_sessions 1 = Some (new_session ProxySession [] idle_stream)"
  "sessions two_sessions (Suc 0) = Some (new_session ProxySession [] idle_stream)"
  "found_session (registry two_sessions) [7] = Some 1"
  by (simp_all add: two_sessions_def found_session_def)

lemma viewer_meets_streamer_witness:
  "\<exists>w'. ProxySession_handleRead pipe_deps \<lparr>now = 5, db_fault = None\<rparr> 0 \<lparr>msg_type = FIND_STREAMER, content = [7]\<rparr>
      two_sessions = (Inr (), w') \<and> log w' = log two_sessions @ [BridgeCreated 1 0] \<and> sessions w' 1 = None"
proof -
  let ?m = "\<lparr>msg_type = FIND_STREAMER, content = [7]\<rparr>" and ?s = "new_session ProxySession [] idle_stream"
  have contract: "stream_contract (the_asio pipe_deps) outgoing incoming opened"
    by (simp add: pipe_contract)
  have found: "found_session (registry two_sessions) (content ?m) = Some 1"
    by simp
  have address: "\<exists>a. op_remote_endpoint (the_asio pipe_deps) st = Inr a" if "opened st" for st
    using that by simp
  have live: "opened (socket (base ?s))" "(0 :: nat) \<noteq> 1" "msg_type ?m = FIND_STREAMER"
    by simp_all
  from viewer_meets_streamer [OF contract two_sessions_simps(1) live(1) found two_sessions_simps(2) live(1,2,3) address]
  show ?thesis
    by (simp del: str_simps) fastforce
qed

text \<open>
  A viewer whose acknowledgement cannot be written costs the streamer its place: the code
  is taken out of the registry before the \<open>ACK\<close> is sent, so when that write fails the
  exception leaves a registry without the streamer, no bridge, and a streamer session that
  nothing refers to any more.
\<close>

theorem failed_ack_drops_streamer:
  assumes viewer: "sessions w i = Some v"
    and broken: "op_write (the_asio D) (frame ACK []) (socket (base v)) = (Some ec, t)"
    and streamer: "found_session (registry w) (content m) = Some j" "sessions w j = Some s"
      "reads (base s) = []" and "i \<noteq> j" and ok: "registry_ok (registry w)"
    and find: "msg_type m = FIND_STREAMER"
  shows "\<exists>w'. ProxySession_handleRead D I i m w = (Inl (SystemError ec), w')
    \<and> registered w' = {} \<and> bridges w' = bridges w \<and> log w' = log w
    \<and> sessions (collect w') j = None"
proof -
  let ?w1 = "w\<lparr>registry := (registry w)\<lparr>senders_sessions := AList.delete (content m) (senders_sessions (registry w))\<rparr>\<rparr>"
  let ?w' = "set_base i v ((base v)\<lparr>socket := t\<rparr>) ?w1"
  have "frames \<lparr>msg_type = ACK, content = []\<rparr> = [frame ACK []]"
    by (simp add: frames_def chunks_short)
  then have "sendACK (the_asio D) (base v) = (Inl (SystemError ec), (base v)\<lparr>socket := t\<rparr>)"
    using broken by (simp add: sendACK_def send_frames asio_write_def eff)
  then have "on_session i (sendACK (the_asio D)) ?w1 = (Inl (SystemError ec), ?w')"
    using viewer by (simp add: on_session_def)
  then have "createBridgeWithStreamer (the_asio D) i (content m) w = (Inl (SystemError ec), ?w')"
    unfolding bridge_found [OF streamer(1)] by (simp add: seqE_def bindE_def)
  then have step: "ProxySession_handleRead D I i m w = (Inl (SystemError ec), ?w')"
    using find by (simp add: ProxySession_handleRead_eq bindE_def)
  have "senders_sessions (snd (extract_session (content m) (registry w))) = []"
    using extract_found [OF streamer(1)] by (intro extracted_registered(2) [OF _ ok]) simp
  then have "registered ?w' = {}"
    by (simp add: registered_def extract_found [OF streamer(1)])
  moreover from this have "sessions (collect ?w') j = None"
    using streamer(2,3) \<open>i \<noteq> j\<close> by (simp add: collect_def)
  ultimately show ?thesis
    using step by (intro exI [of _ ?w']) simp
qed

text \<open>A viewer (0) and a streamer (1) that has registered.\<close>

definition registered_world :: "pipe world" where
  "registered_world = two_sessions\<lparr>registry := snd (registerStreamer 1 0 new_manager)\<rparr>"

lemma failed_ack_drops_streamer_witness:
  "\<exists>w'. ProxySession_handleRead (pipe_deps\<lparr>the_asio := broken_ops\<rparr>) \<lparr>now = 5, db_fault = None\<rparr> 0
      \<lparr>msg_type = FIND_STREAMER, content = str ''test''\<rparr> registered_world = (Inl (SystemError 32), w')
    \<and> registered w' = {} \<and> sessions (collect w') 1 = None"
proof -
  let ?D = "pipe_deps\<lparr>the_asio := broken_ops\<rparr>" and ?m = "\<lparr>msg_type = FIND_STREAMER, content = str ''test''\<rparr>"
  let ?s = "new_session ProxySession [] idle_stream"
  have w: "sessions registered_world 0 = Some ?s" "sessions registered_world 1 = Some ?s"
    by (simp_all add: registered_world_def)
  have broken: "op_write (the_asio ?D) (frame ACK []) (socket (base ?s)) = (Some 32, idle_stream)"
    by (simp add: broken_ops_def)
  have reg: "registry_ok (registry registered_world)"
    using registry_ok_register [OF registry_ok_new] by (simp add: registered_world_def)
  have found: "found_session (registry registered_world) (content ?m) = Some 1"
    by (simp add: registered_world_def found_session_def registered_now del: str_simps)
  have "reads (base ?s) = []" "(0 :: nat) \<noteq> 1" "msg_type ?m = FIND_STREAMER"
    by simp_all
  from failed_ack_drops_streamer [OF w(1) broken found w(2) this(1,2) reg this(3)] show ?thesis
    by blast
qed

text \<open>
  Any other message of a logged-in peer is answered with a \<open>RESPONSE\<close> that names its type,
  and the proxy reads on: no type makes it throw, and neither the registry, nor the accounts,
  nor any other session changes.
\<close>

theorem unexpected_message_answered:
  assumes contract: "stream_contract (the_asio D) sent avail live"
    and s: "sessions w i = Some s" "live (socket (base s))"
    and other: "msg_type m \<noteq> REGISTER_STREAMER" "msg_type m \<noteq> FIND_STREAMER"
  shows "\<exists>t. sent t = sent (socket (base s))
        @ frame RESPONSE (str (''Did not expect '' @ type_name (msg_type m) @ '' message.''))
    \<and> ProxySession_handleRead D I i m w = (Inr (), set_base i s ((base s)\<lparr>socket := t,
        reads := reads (base s) @ [HeaderRead HandleRead BUFFER_SIZE_t]\<rparr>) w)"
proof -
  let ?c = "str (''Did not expect '' @ type_name (msg_type m) @ '' message.'')"
  have "length ?c \<le> BUFFER_SIZE"
    using type_name_short [of "msg_type m"] by (simp add: length_str BUFFER_SIZE_def del: str_simps)
  then obtain t where t: "on_session i (send (the_asio D) \<lparr>msg_type = RESPONSE, content = ?c\<rparr>) w
      = (Inr (), set_base i s ((base s)\<lparr>socket := t\<rparr>) w)" "sent t = sent (socket (base s)) @ frame RESPONSE ?c"
    by (rule session_answer [OF contract s])
  have "ProxySession_handleRead D I i m w =
      bindE (lift_sum (type_to_str_at (msg_type m))) (\<lambda>name.
         seqE (on_session i (send (the_asio D) \<lparr>msg_type = RESPONSE,
                  content = str (''Did not expect '' @ name @ '' message.'')\<rparr>))
              (scheduleNewAsyncRead i)) w"
    using other unfolding ProxySession_handleRead_eq
    by (cases "msg_type m") (simp_all only: MessageType.case not_True_eq_False)
  then have "ProxySession_handleRead D I i m w = (Inr (), set_base i s ((base s)\<lparr>socket := t,
        reads := reads (base s) @ [HeaderRead HandleRead BUFFER_SIZE_t]\<rparr>) w)"
    using t(1) by (simp add: bindE_def seqE_def lift_sum_def schedule_known del: str_simps)
  with t(2) show ?thesis
    by blast
qed

lemma unexpected_message_answered_witness:
  "fst (ProxySession_handleRead pipe_deps \<lparr>now = 0, db_fault = None\<rparr> 0 \<lparr>msg_type = ACK, content = []\<rparr> one_session)
     = Inr ()"
proof -
  have "stream_contract (the_asio pipe_deps) outgoing incoming opened"
    by (simp add: pipe_contract)
  moreover have "msg_type \<lparr>msg_type = ACK, content = []\<rparr> \<noteq> REGISTER_STREAMER"
    "msg_type \<lparr>msg_type = ACK, content = []\<rparr> \<noteq> FIND_STREAMER" "opened (socket (base (new_session ProxySession [] idle_stream)))"
    by simp_all
  ultimately show ?thesis
    using unexpected_message_answered [of pipe_deps outgoing incoming opened one_session 0
        "new_session ProxySession [] idle_stream" "\<lparr>msg_type = ACK, content = []\<rparr>" "\<lparr>now = 0, db_fault = None\<rparr>"]
    by (auto simp del: str_simps)
qed

section \<open>Accepting\<close>

lemma start_session_state:
  assumes "sessions w i = Some s" and "reads (base s) = []"
  shows "start_session ops i w =
    (case op_handshake ops (socket (base s)) of
       (None, t) \<Rightarrow> (Inr (), set_base i s ((base s)\<lparr>socket := t, reads := [HeaderRead AuthenticateCallback 1000]\<rparr>) w)
     | (Some ec, t) \<Rightarrow> (Inl (SystemError ec), set_base i s ((base s)\<lparr>socket := t\<rparr>) w))"
  using assms limit_le [of AuthenticateCallback]
  by (simp add: start_session_def on_session_def zoom_def or_throw_def seqE_def bindE_def
    asyncReadMessage_limit FIRST_MESSAGE_MAX_SIZE_def split: prod.splits option.splits)

text \<open>
  The accept loop never stops. Whatever happens to a connection, an error of \<open>async_accept\<close>,
  a peer without an address, a failed handshake, the handler does not throw and the server
  waits for the next connection. A connection that completes its handshake becomes a session
  that waits for its first message with the limit of 1000 bytes; one that does not leaves no
  session behind.
\<close>

theorem accept_loop_continues:
  assumes "sessions w (next_session w) = None" and "next_session w \<notin> registered w"
  shows "fst (accept_done ops c error st w) = Inr ()
    \<and> accepting (snd (accept_done ops c error st w)) c
    \<and> (case sessions (collect (snd (accept_done ops c error st w))) (next_session w) of
         Some s \<Rightarrow> error = None \<and> session_class s = c \<and> fst (op_handshake ops st) = None
           \<and> reads (base s) = [HeaderRead AuthenticateCallback 1000]
       | None \<Rightarrow> error \<noteq> None \<or> fst (op_handshake ops st) \<noteq> None
           \<or> (\<exists>ec. op_remote_endpoint ops st = Inl ec))"
proof (cases error)
  case (Some ec)
  then show ?thesis
    using assms by (simp add: accept_done_def acceptNewConnection_def seqE_def bindE_def modify_def ret_def
      collect_def)
next
  case None
  let ?w = "w\<lparr>accepting := (accepting w)(c := False)\<rparr>"
  show ?thesis
  proof (cases "op_remote_endpoint ops st")
    case (Inl ec)
    then show ?thesis
      using None assms by (simp add: accept_done_def acceptNewConnection_def seqE_def bindE_def modify_def ret_def
        catchE_def create_and_start_def collect_def)
  next
    case (Inr address)
    obtain r t where h: "op_handshake ops st = (r, t)"
      by fastforce
    have new: "reads (base (new_session c address st)) = []" "socket (base (new_session c address st)) = st"
      "session_class (new_session c address st) = c" for address :: cstring
      by (simp_all add: new_session_def new_SocketBase_def)
    show ?thesis
      using None Inr assms(2) h new
      by (cases r) (simp_all add: accept_done_def acceptNewConnection_def seqE_def bindE_def modify_def ret_def
        catchE_def create_and_start_def Let_def collect_def start_session_state registered_def)
  qed
qed

lemma accept_loop_continues_witness:
  "fst (accept_done pipe_ops ProxySession (Some 22) idle_stream (new_world Map.empty 30 60)) = Inr ()"
proof -
  have "sessions (new_world Map.empty 30 60 :: pipe world) (next_session (new_world Map.empty 30 60 :: pipe world)) = None"
    "next_session (new_world Map.empty 30 60 :: pipe world) \<notin> registered (new_world Map.empty 30 60 :: pipe world)"
    by (simp_all add: new_world_def registered_def initCleanerThread_def new_manager_def)
  from accept_loop_continues [OF this] show ?thesis
    by blast
qed

section \<open>A login from the first byte\<close>

lemma collect_keeps: "sessions w i = Some s \<Longrightarrow> reads (base s) \<noteq> [] \<Longrightarrow> sessions (collect w) i = Some s"
  by (simp add: collect_def)

lemma header_arrives:
  assumes "sessions w i = Some s" and "reads (base s) = [HeaderRead h mx]" and "message_size hr \<le> mx"
  shows "read_done D I i None (header_bytes hr) w = (Inr (), set_base i s ((base s)
     \<lparr>data_buffer := overwrite (data_buffer (base s)) (header_bytes hr), reads := [BodyRead h hr]\<rparr>) w)"
proof -
  have len: "length (header_bytes hr) = sizeof_MessageHeader"
    by simp
  have ok: "deserialize (header_bytes hr) (length (header_bytes hr)) mx = Inr hr"
    using deserialize_header_bytes [of sizeof_MessageHeader hr "[]" mx] assms(3) by simp
  show ?thesis
    using assms(1,2) by (simp add: read_done_def on_session_def pop_read_def seqE_step modify_def
      accepted_header_step [OF len ok])
qed

definition login_header :: MessageHeader where
  "login_header = \<lparr>message_size = 1, hdr_type = LOGIN\<rparr>"

definition quiet_inputs :: inputs where
  "quiet_inputs = \<lparr>now = 0, db_fault = None\<rparr>"

definition header_world :: "pipe world" where
  "header_world = collect (snd (read_done pipe_deps quiet_inputs 0 None (header_bytes login_header) accepted_world))"

definition login_world :: "pipe world" where
  "login_world = collect (snd (read_done pipe_deps quiet_inputs 0 None [1] header_world))"

lemma accepted_session:
  obtains s where "sessions accepted_world 0 = Some s" "reads (base s) = [HeaderRead AuthenticateCallback 1000]"
    "opened (socket (base s))" "users accepted_world = [[1] \<mapsto> [9, 1]]" "users_manager_alive accepted_world"
    "registered accepted_world = {}"
proof -
  have new: "reads (base (new_session c a st)) = []" "socket (base (new_session c a st)) = st" for c a and st :: pipe
    by (simp_all add: new_session_def new_SocketBase_def)
  note run = accepted_world_def new_world_def accept_done_def acceptNewConnection_def seqE_def bindE_def
    modify_def catchE_def create_and_start_def Let_def collect_def start_session_state new
    registered_def initCleanerThread_def new_manager_def
  have "\<exists>s. sessions accepted_world 0 = Some s \<and> reads (base s) = [HeaderRead AuthenticateCallback 1000]
      \<and> opened (socket (base s))"
    by (simp add: run)
  moreover have "users accepted_world = [[1] \<mapsto> [9, 1]]" "users_manager_alive accepted_world"
    "registered accepted_world = {}"
    by (simp_all add: run)
  ultimately show ?thesis
    using that by blast
qed

lemma login_world_session:
  "reach server_init (server_step pipe_deps) login_world"
  "\<exists>s. sessions login_world 0 = Some s \<and> reads (base s) = [HeaderRead HandleRead BUFFER_SIZE_t]"
proof -
  obtain s where s: "sessions accepted_world 0 = Some s" "reads (base s) = [HeaderRead AuthenticateCallback 1000]"
    "opened (socket (base s))" "users accepted_world = [[1] \<mapsto> [9, 1]]" "users_manager_alive accepted_world"
    "registered accepted_world = {}"
    by (rule accepted_session)
  let ?b1 = "(base s)\<lparr>data_buffer := overwrite (data_buffer (base s)) (header_bytes login_header),
      reads := [BodyRead AuthenticateCallback login_header]\<rparr>"
  have small: "message_size login_header \<le> 1000"
    by (simp add: login_header_def)
  have header: "header_world = collect (set_base 0 s ?b1 accepted_world)"
    by (simp add: header_world_def header_arrives [OF s(1,2) small])
  have s1: "sessions header_world 0 = Some (s\<lparr>base := ?b1\<rparr>)"
    unfolding header by (rule collect_keeps) simp_all
  have same: "users header_world = [[1] \<mapsto> [9, 1]]" "users_manager_alive header_world"
    using s(4,5) by (simp_all add: header collect_def)
  let ?b2 = "?b1\<lparr>reads := [], data_buffer := overwrite (data_buffer ?b1) [1]\<rparr>"
  let ?s2 = "s\<lparr>base := ?b2\<rparr>" and ?w2 = "set_base 0 (s\<lparr>base := ?b1\<rparr>) ?b2 header_world"
  have known: "sessions ?w2 0 = Some ?s2" "opened (socket (base ?s2))" "reads (base ?s2) = []"
    using s(3) by simp_all
  have contract: "stream_contract (the_asio pipe_deps) outgoing incoming opened"
    by (simp add: pipe_contract)
  have json: "json_parse (the_json pipe_deps) (content \<lparr>msg_type = LOGIN, content = [1]\<rparr>) = Inr [1]"
    "json_at (the_json pipe_deps) ''email'' [1] = Inr [1]" "json_at (the_json pipe_deps) ''password'' [1] = Inr [1]"
    by (simp_all add: pipe_deps_def plain_json_def)
  have ok: "credentials_ok pipe_deps ?w2 [1] [1]"
    using same by (simp add: credentials_ok_def pipe_deps_def plain_bcrypt_def)
  obtain t where t: "authenticateCallback pipe_deps quiet_inputs 0 \<lparr>msg_type = LOGIN, content = [1]\<rparr> ?w2 =
      (Inr (), (set_base 0 ?s2 ((base ?s2)\<lparr>socket := t, reads := [HeaderRead HandleRead BUFFER_SIZE_t]\<rparr>) ?w2)
        \<lparr>log := log ?w2 @ [ConnectionAuthenticated 0]\<rparr>)"
    using login_step [OF contract known _ json, of quiet_inputs] ok by (auto simp: quiet_inputs_def)
  have reads1: "reads (base (s\<lparr>base := ?b1\<rparr>)) = [BodyRead AuthenticateCallback login_header]"
    by simp
  have "read_done pipe_deps quiet_inputs 0 None [1] header_world =
      (Inr (), (set_base 0 ?s2 ((base ?s2)\<lparr>socket := t, reads := [HeaderRead HandleRead BUFFER_SIZE_t]\<rparr>) ?w2)
        \<lparr>log := log ?w2 @ [ConnectionAuthenticated 0]\<rparr>)"
    unfolding body_arrives [OF s1 reads1] using t
    by (simp add: run_handler_def login_header_def catchE_def)
  moreover define s3 where "s3 = ?s2\<lparr>base := (base ?s2)\<lparr>socket := t, reads := [HeaderRead HandleRead BUFFER_SIZE_t]\<rparr>\<rparr>"
  ultimately have "sessions (snd (read_done pipe_deps quiet_inputs 0 None [1] header_world)) 0 = Some s3"
    by simp
  moreover have "reads (base s3) = [HeaderRead HandleRead BUFFER_SIZE_t]"
    by (simp add: s3_def)
  ultimately show "\<exists>s. sessions login_world 0 = Some s \<and> reads (base s) = [HeaderRead HandleRead BUFFER_SIZE_t]"
    unfolding login_world_def using collect_keeps [of _ 0 s3] by simp
  have "server_step pipe_deps accepted_world header_world"
    unfolding header_world_def
    by (rule step_read [OF s(1,2)]) simp_all
  moreover have "server_step pipe_deps header_world login_world"
    unfolding login_world_def
    by (rule step_read [OF s1 reads1]) (simp_all add: login_header_def)
  ultimately show "reach server_init (server_step pipe_deps) login_world"
    using accepted_world_reachable by (blast intro: reach_step)
qed

lemma only_authenticated_served_witness: "ConnectionAuthenticated 0 \<in> set (log login_world)"
proof -
  obtain s where "sessions login_world 0 = Some s" "reads (base s) = [HeaderRead HandleRead BUFFER_SIZE_t]"
    using login_world_session(2) by blast
  with only_authenticated_served [OF login_world_session(1)] show ?thesis
    by fastforce
qed

end
