(* ===== verification/Login_Session.thy ===== *)
theory Login_Session
  imports Server_Protocol Client_Socket
begin

text \<open>
  A login from end to end: what \<open>ClientSocket::login\<close> writes, what the two reads of an
  \<open>AuthenticatedSession\<close> make of it, and what the client makes of the answer.
\<close>

definition login_json :: "'j json_writer \<Rightarrow> cstring \<Rightarrow> cstring \<Rightarrow> cstring + cstring" where
  "login_json W email password =
     json_to_string W (json_assign W ''password'' password (json_assign W ''email'' email (json_null W)))"

text \<open>The documented law of \<open>nlohmann::json\<close>: what one side writes the other side reads.\<close>

definition json_agree :: "'j json_writer \<Rightarrow> 'k json \<Rightarrow> cstring \<Rightarrow> cstring \<Rightarrow> bool" where
  "json_agree W J email password \<longleftrightarrow> (\<forall>text. login_json W email password = Inr text \<longrightarrow>
     (\<exists>j. json_parse J text = Inr j \<and> json_at J ''email'' j = Inr email \<and> json_at J ''password'' j = Inr password))"

text \<open>
  The bytes of a login arrive at a session that waits for its first message: the header, then
  the text, after which the session has written \<open>answer\<close>.
\<close>

definition session_answers ::
  "('s, 'j, 'r) deps \<Rightarrow> ('s \<Rightarrow> byte list) \<Rightarrow> inputs \<Rightarrow> nat \<Rightarrow> cstring \<Rightarrow> 's world \<Rightarrow> 's session \<Rightarrow> byte list \<Rightarrow> 's session \<Rightarrow> bool" where
  "session_answers D sent I i text w s answer s' \<longleftrightarrow> (\<exists>w1 w2.
     read_done D I i None (header_bytes \<lparr>message_size = of_nat (length text), hdr_type = LOGIN\<rparr>) w = (Inr (), w1)
   \<and> read_done D I i None text w1 = (Inr (), w2) \<and> sessions w2 i = Some s'
   \<and> sent (socket (base s')) = sent (socket (base s)) @ answer)"

lemma session_answers_login:
  assumes contract: "stream_contract (the_asio D) sent avail live"
    and s: "sessions w i = Some s" "live (socket (base s))" "reads (base s) = [HeaderRead AuthenticateCallback FIRST_MESSAGE_MAX_SIZE]"
    and json: "json_parse (the_json D) text = Inr j" "json_at (the_json D) ''email'' j = Inr email"
      "json_at (the_json D) ''password'' j = Inr password"
    and db: "db_fault I = None" and short: "length text \<le> 1000"
  shows "\<exists>s'. session_answers D sent I i text w s (frame (if credentials_ok D w email password then ACK else NACK) []) s'
    \<and> reads (base s') = (if credentials_ok D w email password then [HeaderRead HandleRead BUFFER_SIZE_t] else [])"
proof -
  let ?h = "\<lparr>message_size = of_nat (length text), hdr_type = LOGIN\<rparr> :: MessageHeader" and ?ok = "credentials_ok D w email password"
  let ?b1 = "(base s)\<lparr>data_buffer := overwrite (data_buffer (base s)) (header_bytes ?h), reads := [BodyRead AuthenticateCallback ?h]\<rparr>"
  let ?w1 = "set_base i s ?b1 w"
  have "message_size ?h \<le> FIRST_MESSAGE_MAX_SIZE"
    using short by (simp add: FIRST_MESSAGE_MAX_SIZE_def word_le_nat_alt unat_of_nat)
  note first = header_arrives [OF s(1,3) this, of D I]
  let ?s1 = "s\<lparr>base := ?b1\<rparr>"
  have s1: "sessions ?w1 i = Some ?s1" "reads (base ?s1) = [BodyRead AuthenticateCallback ?h]"
    by simp_all
  let ?b2 = "(base ?s1)\<lparr>reads := [], data_buffer := overwrite (data_buffer (base ?s1)) text\<rparr>"
  let ?s2 = "?s1\<lparr>base := ?b2\<rparr>" and ?w2 = "set_base i ?s1 ?b2 ?w1" and ?m = "\<lparr>msg_type = LOGIN, content = text\<rparr>"
  have s2: "sessions ?w2 i = Some ?s2" "live (socket (base ?s2))" "reads (base ?s2) = []"
    using s(2) by simp_all
  have ok: "credentials_ok D ?w2 email password = ?ok"
    by (simp add: credentials_ok_def)
  have json': "json_parse (the_json D) (content ?m) = Inr j"
    using json(1) by simp
  obtain t where t: "sent t = sent (socket (base ?s2)) @ frame (if ?ok then ACK else NACK) []"
    "authenticateCallback D I i ?m ?w2 = (Inr (), (set_base i ?s2 ((base ?s2)\<lparr>socket := t,
      reads := (if ?ok then [HeaderRead HandleRead BUFFER_SIZE_t] else [])\<rparr>) ?w2)
      \<lparr>log := log ?w2 @ [if ?ok then ConnectionAuthenticated i else AuthenticationFailed i]\<rparr>)"
    using login_step [OF contract s2 _ json' json(2,3) db] unfolding ok by auto
  let ?w3 = "(set_base i ?s2 ((base ?s2)\<lparr>socket := t,
      reads := (if ?ok then [HeaderRead HandleRead BUFFER_SIZE_t] else [])\<rparr>) ?w2)
      \<lparr>log := log ?w2 @ [if ?ok then ConnectionAuthenticated i else AuthenticationFailed i]\<rparr>"
  define s3 where "s3 = ?s2\<lparr>base := (base ?s2)\<lparr>socket := t, reads := (if ?ok then [HeaderRead HandleRead BUFFER_SIZE_t] else [])\<rparr>\<rparr>"
  have "read_done D I i None text ?w1 = (Inr (), ?w3)"
    unfolding body_arrives [OF s1] using t(2) by (simp add: run_handler_def catchE_def)
  moreover have "sessions ?w3 i = Some s3"
    by (simp add: s3_def)
  moreover have "sent (socket (base s3)) = sent (socket (base s)) @ frame (if ?ok then ACK else NACK) []"
    using t(1) by (simp add: s3_def)
  ultimately have "session_answers D sent I i text w s (frame (if ?ok then ACK else NACK) []) s3"
    unfolding session_answers_def using first by blast
  then show ?thesis
    by (intro exI [of _ s3]) (simp add: s3_def)
qed

text \<open>
  C8. Logging in works, from end to end. A client with an email and a password that fit one first
  message writes a login; a fresh session of the server that reads these bytes writes an answer;
  and a client that reads this answer returns from \<open>login\<close> without an exception exactly when the
  password is the one of the account with that email. Exactly then the session stays, waiting
  for the next message.
\<close>

theorem login_end_to_end:
  fixes sb :: "('c, 'h) SocketBase"
  assumes client: "stream_contract ops csent cavail clive" "clive (socket sb)"
      "cavail (socket sb) = frame (if credentials_ok D w email password then ACK else NACK) [] @ rest"
    and server: "stream_contract (the_asio D) sent avail live"
    and s: "sessions w i = Some s" "live (socket (base s))" "reads (base s) = [HeaderRead AuthenticateCallback FIRST_MESSAGE_MAX_SIZE]"
    and json: "login_json W email password = Inr text" "json_agree W (the_json D) email password"
    and db: "db_fault I = None" and short: "length text \<le> 1000"
  shows "\<exists>s'. session_answers D sent I i text w s (frame (if credentials_ok D w email password then ACK else NACK) []) s'
    \<and> (reads (base s') = [HeaderRead HandleRead BUFFER_SIZE_t] \<longleftrightarrow> credentials_ok D w email password)
    \<and> (fst (login W ops email password sb) = Inr () \<longleftrightarrow> credentials_ok D w email password)
    \<and> csent (socket (snd (login W ops email password sb))) = csent (socket sb)
        @ header_bytes \<lparr>message_size = of_nat (length text), hdr_type = LOGIN\<rparr> @ text
    \<and> cavail (socket (snd (login W ops email password sb))) = rest"
proof -
  let ?answer = "frame (if credentials_ok D w email password then ACK else NACK) []"
  obtain j where j: "json_parse (the_json D) text = Inr j" "json_at (the_json D) ''email'' j = Inr email"
    "json_at (the_json D) ''password'' j = Inr password"
    using json unfolding json_agree_def by blast
  obtain s' where s': "session_answers D sent I i text w s ?answer s'"
    "reads (base s') = (if credentials_ok D w email password then [HeaderRead HandleRead BUFFER_SIZE_t] else [])"
    using session_answers_login [OF server s j db short] by blast
  have "length text \<le> BUFFER_SIZE"
    using short by (simp add: BUFFER_SIZE_def)
  then have "concat (frames \<lparr>msg_type = LOGIN, content = text\<rparr>) = frame LOGIN text"
    by (rule frames_short)
  with login_answer [OF client empty_short json(1) [unfolded login_json_def]]
  have "csent (socket (snd (login W ops email password sb))) = csent (socket sb) @ frame LOGIN text
     \<and> cavail (socket (snd (login W ops email password sb))) = rest
     \<and> (fst (login W ops email password sb) = Inr () \<longleftrightarrow> credentials_ok D w email password)"
    by (auto split: if_splits)
  with s' show ?thesis
    by (intro exI [of _ s']) (simp add: frame_def)
qed

text \<open>A client with the only account of a server writes its password twice over.\<close>

definition plain_writer :: "cstring json_writer" where
  "plain_writer = \<lparr>json_null = [], json_assign = (\<lambda>key v j. v), json_to_string = Inr\<rparr>"

definition answered_client :: "(pipe, nat) SocketBase" where
  "answered_client = idle_pipe\<lparr>socket := \<lparr>incoming = frame ACK [], outgoing = [], opened = True\<rparr>\<rparr>"

lemma login_end_to_end_witness:
  "fst (login plain_writer pipe_ops [1] [1] answered_client) = Inr ()"
proof -
  obtain s where s: "sessions accepted_world 0 = Some s" "reads (base s) = [HeaderRead AuthenticateCallback 1000]"
    "opened (socket (base s))" "users accepted_world = [[1] \<mapsto> [9, 1]]" "users_manager_alive accepted_world"
    by (rule accepted_session)
  have ok: "credentials_ok pipe_deps accepted_world [1] [1]"
    using s(4,5) by (simp add: credentials_ok_def pipe_deps_def plain_bcrypt_def)
  have first: "reads (base s) = [HeaderRead AuthenticateCallback FIRST_MESSAGE_MAX_SIZE]"
    using s(2) by (simp add: FIRST_MESSAGE_MAX_SIZE_def)
  have client: "opened (socket answered_client)" "incoming (socket answered_client)
      = frame (if credentials_ok pipe_deps accepted_world [1] [1] then ACK else NACK) [] @ []"
    using ok by (simp_all add: answered_client_def)
  have server: "stream_contract (the_asio pipe_deps) outgoing incoming opened"
    by (simp add: pipe_contract)
  have json: "login_json plain_writer [1] [1] = Inr [1]" "json_agree plain_writer (the_json pipe_deps) [1] [1]"
    by (simp_all add: json_agree_def login_json_def plain_writer_def pipe_deps_def plain_json_def)
  have "db_fault quiet_inputs = None" "length [1 :: byte] \<le> 1000"
    by (simp_all add: quiet_inputs_def)
  from login_end_to_end [OF pipe_contract client server s(1,3) first json this] ok show ?thesis
    by blast
qed

end
