(* ===== verification/Server_Exceptions.thy ===== *)
theory Server_Exceptions
  imports Server_Safety
begin

text \<open>
  What leaves the handlers of the servers. The handlers of a session are run under a
  \<open>catch (const std::exception &)\<close>; the accept loop has one too; a bridge has none. So no
  session can bring a server down, whatever its peer sends, and a broken bridge does.
\<close>

section \<open>Operations that throw standard exceptions only\<close>

definition std_only :: "('s \<Rightarrow> (exn + 'a) \<times> 's) \<Rightarrow> bool" where
  "std_only m \<longleftrightarrow> (\<forall>s e t. m s = (Inl e, t) \<longrightarrow> is_std_exception e)"

named_theorems std_onlys "operations that throw standard exceptions only"

lemma std_onlyD: "std_only m \<Longrightarrow> m s = (Inl e, t) \<Longrightarrow> is_std_exception e"
  by (auto simp: std_only_def)

lemma std_only_system: "(\<And>s e t. m s = (Inl e, t) \<Longrightarrow> \<exists>ec. e = SystemError ec) \<Longrightarrow> std_only m"
  by (fastforce simp: std_only_def)

lemma std_only_socket [std_onlys]:
  "std_only (send ops m)" "std_only (disconnect ops d)" "std_only (sendACK ops)" "std_only (sendNACK ops)"
  using send_error disconnect_error unfolding sendACK_def sendNACK_def
  by (intro std_only_system; blast)+

lemma std_only_asyncReadMessage [std_onlys]: "std_only (asyncReadMessage h mx)"
  by (simp add: std_only_def asyncReadMessage_def throw_def asyncReadHeader_def modify_def)

lemma std_only_handshake [std_onlys]: "std_only (on_stream (or_throw SystemError call))"
  by (auto simp: std_only_def zoom_def or_throw_def split: prod.splits option.splits)

lemma safeDisconnect_returns: "\<exists>t. safeDisconnect ops d sb = (Inr (), t)"
  using safeDisconnect_result [of ops d sb] by (metis prod.collapse)

section \<open>Handlers on sessions that exist\<close>

text \<open>
  The sessions a handler works on are there, and so is every registered one. A handler is
  benign when it keeps them there and throws standard exceptions only.
\<close>

definition present :: "nat set \<Rightarrow> 's world \<Rightarrow> bool" where
  "present A w \<longleftrightarrow> (\<forall>k \<in> A \<union> registered w. sessions w k \<noteq> None)"

definition refused :: "nat set \<Rightarrow> exn \<Rightarrow> 's world \<Rightarrow> bool" where
  "refused A e w \<longleftrightarrow> is_std_exception e \<and> present A w"

definition benign :: "nat set \<Rightarrow> (exn, 's world, 'a) eff \<Rightarrow> bool" where
  "benign A m \<longleftrightarrow> valid (present A) m (\<lambda>_. present A) (refused A)"

named_theorems benigns "benign handlers"

lemma present_mono: "present A w \<Longrightarrow> B \<subseteq> A \<Longrightarrow> present B w"
  by (auto simp: present_def)

lemma benignD: "benign A m \<Longrightarrow> valid (present A) m (\<lambda>_. present A) (refused A)"
  by (simp add: benign_def)

lemma benign_on_session [benigns]:
  assumes "i \<in> A" and "std_only m"
  shows "benign A (on_session i m)"
proof -
  have kept: "present A (w\<lparr>sessions := (sessions w)(i \<mapsto> s)\<rparr>)" if "present A w" for w :: "'a world" and s
    using that by (auto simp: present_def registered_update)
  have "case on_session i m w of (Inr a, t) \<Rightarrow> present A t | (Inl e, t) \<Rightarrow> refused A e t"
    if w: "present A w" for w
  proof -
    obtain s where s: "sessions w i = Some s"
      using w assms(1) by (auto simp: present_def)
    obtain r b where m: "m (base s) = (r, b)"
      by fastforce
    have "is_std_exception e" if "r = Inl e" for e
      using std_onlyD [OF assms(2)] m that by blast
    with s m kept [OF w] show ?thesis
      by (simp add: on_session_def refused_def split: sum.splits)
  qed
  then show ?thesis
    by (simp add: benign_def valid_def)
qed

lemma benign_bindE [benigns]: "benign A m \<Longrightarrow> (\<And>a. benign A (f a)) \<Longrightarrow> benign A (bindE m f)"
  unfolding benign_def by (rule valid_bindE)

lemma benign_seqE [benigns]: "benign A m \<Longrightarrow> benign A k \<Longrightarrow> benign A (seqE m k)"
  unfolding benign_def by (rule valid_seqE)

lemma benign_if [benigns]: "benign A m \<Longrightarrow> benign A k \<Longrightarrow> benign A (if b then m else k)"
  by simp

lemma benign_simple [benigns]:
  "benign A (ret a)" "benign A (gets f)" "benign A (log_info l)"
  by (auto simp: benign_def valid_def ret_def gets_def log_info_def modify_def present_def registered_update)

lemma benign_lift_sum [benigns]:
  "(\<And>e. r = Inl e \<Longrightarrow> is_std_exception e) \<Longrightarrow> benign A (lift_sum r)"
  by (auto simp: benign_def valid_def lift_sum_def refused_def split: sum.splits)

lemma benign_json [benigns]: "benign A (lift_sum (or_json r))"
  by (rule benign_lift_sum) (auto simp: or_json_def split: sum.splits)

lemma benign_users [benigns]:
  assumes "std_only k"
  shows "benign A (zoom users (\<lambda>t w. w\<lparr>users := t\<rparr>) k)"
  using std_onlyD [OF assms]
  by (auto simp: benign_def valid_def zoom_def refused_def present_def registered_update split: prod.splits sum.splits)

lemma std_only_authenticate_user [std_onlys]: "std_only (authenticate_user B fault email password)"
  by (auto simp: std_only_def authenticate_user_def split: prod.splits sum.splits list.splits sql_error.splits)

lemma benign_schedule [benigns]: "i \<in> A \<Longrightarrow> benign A (scheduleNewAsyncRead i)"
  unfolding scheduleNewAsyncRead_def by (intro benigns std_onlys)

lemma benign_authenticate [benigns]: "benign A (authenticate D I m)"
  unfolding authenticate_def by (intro benigns std_onlys)

lemma benign_authenticateCallback [benigns]: "i \<in> A \<Longrightarrow> benign A (authenticateCallback D I i m)"
  unfolding authenticateCallback_def by (intro benigns std_onlys)

lemma valid_extract_present:
  "valid (present {i})
     (zoom registry (\<lambda>m w. w\<lparr>registry := m\<rparr>)
        (\<lambda>m. let (r, m') = extract_session code m in (Inr r, m')))
     (\<lambda>r. present (insert i (set_option r))) E"
proof (rule validI)
  fix w :: "'a world" and r t
  assume w: "present {i} w" and "zoom registry (\<lambda>m w. w\<lparr>registry := m\<rparr>)
      (\<lambda>m. let (r, m') = extract_session code m in (Inr r, m')) w = (Inr r, t)"
  then have t: "t = w\<lparr>registry := snd (extract_session code (registry w))\<rparr>"
    and r: "r = fst (extract_session code (registry w))"
    by (auto simp: zoom_def split: prod.splits)
  have "j \<in> registered w" if "r = Some j" for j
    using that by (force simp: r registered_def extract_session_def split: option.splits dest: map_of_SomeD)
  moreover have "registered t \<subseteq> registered w"
    unfolding t by (rule registered_extract)
  ultimately show "present (insert i (set_option r)) t"
    using w by (cases r) (auto simp: present_def t)
qed (auto simp: zoom_def split: prod.splits)

definition endpoints_known :: "'s asio \<Rightarrow> bool" where
  "endpoints_known ops \<longleftrightarrow> (\<forall>st. \<exists>a. op_remote_endpoint ops st = Inr a)"

lemma valid_make_bridge_present:
  assumes "endpoints_known ops"
  shows "valid (present {i, j}) (make_bridge ops j i) (\<lambda>_ _. True) (\<lambda>_ _. False)"
proof -
  have "\<exists>b. new_bridge ops s t = Inr b" for s t
  proof -
    obtain a a' where "op_remote_endpoint ops s = Inr a" "op_remote_endpoint ops t = Inr a'"
      using assms by (metis endpoints_known_def)
    then show ?thesis
      by (simp add: new_bridge_def)
  qed
  then have "\<exists>t. make_bridge ops j i w = (Inr (), t)" if "present {i, j} w" for w
  proof -
    obtain v s where vs: "sessions w i = Some v" "sessions w j = Some s"
      using \<open>present {i, j} w\<close> by (auto simp: present_def)
    obtain b where "new_bridge ops (socket (base s)) (socket (base v)) = Inr b"
      using \<open>\<And>s t. \<exists>b. new_bridge ops s t = Inr b\<close> by blast
    with vs show ?thesis
      by (simp add: make_bridge_def Let_def)
  qed
  then show ?thesis
    by (intro validI) (metis, metis Inl_Inr_False fst_conv)
qed

lemma valid_createBridge_present:
  assumes "endpoints_known ops"
  shows "valid (present {i}) (createBridgeWithStreamer ops i code)
     (\<lambda>found w. \<not> found \<longrightarrow> present {i} w) (refused {i})"
  unfolding createBridgeWithStreamer_def
proof (rule valid_bindE [OF valid_extract_present])
  fix r
  show "valid (present (insert i (set_option r)))
      (case r of None \<Rightarrow> ret False
       | Some j \<Rightarrow> seqE (on_session i (sendACK ops))
           (seqE (on_session j (send ops \<lparr>msg_type = START_STREAM, content = []\<rparr>))
             (seqE (make_bridge ops j i) (ret True))))
      (\<lambda>found w. \<not> found \<longrightarrow> present {i} w) (refused {i})"
  proof (cases r)
    case None
    then show ?thesis
      by (auto intro: valid_ret)
  next
    case (Some j)
    let ?A = "{i, j}"
    have step: "valid (present ?A) (on_session k m) (\<lambda>_. present ?A) (refused {i})"
      if "k \<in> ?A" "std_only m" for k and m :: "(exn, ('a, handler) SocketBase, unit) eff"
      by (rule valid_conseq [OF benignD [OF benign_on_session [OF that]]])
        (auto simp: refused_def intro: present_mono)
    have "valid (present ?A) (seqE (make_bridge ops j i) (ret True))
        (\<lambda>found w. \<not> found \<longrightarrow> present {i} w) (refused {i})"
      by (rule valid_seqE [where R = "\<lambda>_. True",
            OF valid_conseq [OF valid_make_bridge_present [OF assms]] valid_ret]) simp_all
    then have "valid (present ?A) (seqE (on_session i (sendACK ops))
           (seqE (on_session j (send ops \<lparr>msg_type = START_STREAM, content = []\<rparr>))
             (seqE (make_bridge ops j i) (ret True))))
        (\<lambda>found w. \<not> found \<longrightarrow> present {i} w) (refused {i})"
      by (intro valid_seqE [OF step] std_onlys) simp_all
    with Some show ?thesis
      by simp
  qed
qed

lemma set_AList_update: "set (AList.update k v xs) \<subseteq> insert (k, v) (set xs)"
  by (induction xs) auto

lemma benign_register:
  assumes "i \<in> A"
  shows "benign A (zoom registry (\<lambda>m w. w\<lparr>registry := m\<rparr>) (registerStreamer i t))"
proof -
  let ?n = "\<lparr>client_session = i, time_point = t\<rparr>"
  have "registered (w\<lparr>registry := snd (registerStreamer i t (registry w))\<rparr>) \<subseteq> insert i (registered w)" for w :: "'a world"
  proof -
    let ?xs = "senders_sessions (registry w)"
    have "set (AList.update (str ''test'') ?n ys) \<subseteq> insert (str ''test'', ?n) (set ?xs)" if "set ys \<subseteq> set ?xs" for ys
      using set_AList_update [of "str ''test''" ?n ys] that by blast
    then have "client_session ` snd ` set (AList.update (str ''test'') ?n ys)
        \<subseteq> client_session ` snd ` insert (str ''test'', ?n) (set ?xs)" if "set ys \<subseteq> set ?xs" for ys
      using that by (intro image_mono)
    then show ?thesis
      by (simp add: registered_def registerStreamer_eq AList.delete_eq del: str_simps)
  qed
  then have "present A (w\<lparr>registry := snd (registerStreamer i t (registry w))\<rparr>)" if "present A w" for w :: "'a world"
    using that assms by (fastforce simp: present_def)
  moreover have "fst (registerStreamer i t m) = Inr (str ''test'')" for m :: "nat manager"
    by (simp add: registerStreamer_eq)
  ultimately show ?thesis
    by (auto simp: benign_def valid_def zoom_def split: prod.splits sum.splits) (metis Inl_Inr_False fst_conv, metis snd_conv)
qed

lemma valid_proxy_present:
  assumes "endpoints_known (the_asio D)"
  shows "valid (present {i}) (ProxySession_handleRead D I i m) (\<lambda>_ _. True) (refused {i})"
proof -
  have weak: "valid (present {i}) k (\<lambda>_ _. True) (refused {i})" if "benign {i} k"
    for k :: "(exn, 'a world, unit) eff"
    by (rule valid_conseq [OF benignD [OF that]]) simp_all
  have find: "valid (present {i})
      (bindE (createBridgeWithStreamer (the_asio D) i (content m)) (\<lambda>is_found.
         whenE (\<not> is_found) (seqE (on_session i (sendNACK (the_asio D))) (scheduleNewAsyncRead i))))
      (\<lambda>_ _. True) (refused {i})"
  proof (rule valid_bindE [OF valid_createBridge_present [OF assms]])
    fix found
    have "benign {i} (seqE (on_session i (sendNACK (the_asio D))) (scheduleNewAsyncRead i))"
      by (intro benigns std_onlys) simp_all
    then show "valid (\<lambda>w. \<not> found \<longrightarrow> present {i} w)
        (whenE (\<not> found) (seqE (on_session i (sendNACK (the_asio D))) (scheduleNewAsyncRead i)))
        (\<lambda>_ _. True) (refused {i})"
      using weak by (cases found) (simp_all add: whenE_def valid_ret)
  qed
  have register: "benign {i}
      (bindE (zoom registry (\<lambda>m w. w\<lparr>registry := m\<rparr>) (registerStreamer i (now I))) (\<lambda>id.
         seqE (log_info (RegisteredStreamer i id))
              (on_session i (send (the_asio D) \<lparr>msg_type = ID, content = id\<rparr>))))"
    by (intro benigns benign_register std_onlys) simp_all
  have other: "benign {i}
      (bindE (lift_sum (type_to_str_at (msg_type m))) (\<lambda>name.
         seqE (on_session i (send (the_asio D) \<lparr>msg_type = RESPONSE,
                  content = str (''Did not expect '' @ name @ '' message.'')\<rparr>))
              (scheduleNewAsyncRead i)))"
    by (intro benigns std_onlys) simp_all
  show ?thesis
    unfolding ProxySession_handleRead_eq using weak [OF register] find weak [OF other]
    by (cases "msg_type m") (simp_all only: MessageType.case)
qed

lemma valid_run_handler_present:
  assumes "endpoints_known (the_asio D)"
  shows "valid (present {i}) (run_handler D I i c h m) (\<lambda>_ _. True) (refused {i})"
proof -
  have weak: "valid (present {i}) k (\<lambda>_ _. True) (refused {i})" if "benign {i} k"
    for k :: "(exn, 'a world, unit) eff"
    by (rule valid_conseq [OF benignD [OF that]]) simp_all
  have "benign {i} (authenticateCallback D I i m)" "benign {i} (AuthenticatedSession_handleRead D i m)"
    unfolding AuthenticatedSession_handleRead_def by (intro benigns std_onlys; simp)+
  then show ?thesis
    using valid_proxy_present [OF assms] weak unfolding run_handler_def by (cases h; cases c) simp_all
qed

section \<open>The completions\<close>

lemma world_inv_present: "world_inv w \<Longrightarrow> sessions w i \<noteq> None \<Longrightarrow> present {i} w"
  using world_invD(3) unfolding present_def by fastforce

lemma disconnect_present:
  assumes "present {i} w"
  shows "\<exists>t. on_session i (safeDisconnect ops d) w = (Inr (), t)"
proof -
  obtain s where "sessions w i = Some s"
    using assms by (auto simp: present_def)
  moreover obtain b where "safeDisconnect ops d (base s) = (Inr (), b)"
    using safeDisconnect_returns by blast
  ultimately show ?thesis
    by (simp add: on_session_def)
qed

lemma header_handler_returns: "\<exists>t. asyncReadHeader_handler L ops h mx ec bytes sb = (Inr (), t)"
proof -
  have "\<exists>t. safeDisconnect ops d u = (Inr (), t)" for d u
    by (rule safeDisconnect_returns)
  then show ?thesis
    using deserialize_error
    by (auto simp: asyncReadHeader_handler_def seqE_def bindE_def modify_def ret_def catchE_def gets_def lift_sum_def
      split: option.splits sum.splits)
qed

lemma read_done_returns:
  assumes inv: "world_inv w" and known: "endpoints_known (the_asio D)"
  shows "\<exists>t. read_done D I i ec bytes w = (Inr (), t)"
proof (cases "sessions w i")
  case None
  then show ?thesis
    by (simp add: read_done_def)
next
  case (Some s)
  show ?thesis
  proof (cases "reads (base s)")
    case Nil
    with Some show ?thesis
      by (simp add: read_done_def)
  next
    case (Cons r rs)
    show ?thesis
    proof (cases r)
      case (HeaderRead h mx)
      obtain t where "asyncReadHeader_handler (the_lib D) (the_asio D) h mx ec bytes ((base s)\<lparr>reads := rs\<rparr>) = (Inr (), t)"
        using header_handler_returns [of "the_lib D" "the_asio D" h mx ec bytes "(base s)\<lparr>reads := rs\<rparr>"] by (elim exE)
      with Some Cons HeaderRead show ?thesis
        by (simp add: read_done_def on_session_def pop_read_def seqE_step modify_def)
    next
      case (BodyRead h hr)
      let ?w = "w\<lparr>sessions := (sessions w)(i \<mapsto> s\<lparr>base := (base s)\<lparr>reads := rs,
          data_buffer := overwrite (data_buffer (base s)) bytes\<rparr>\<rparr>)\<rparr>"
      have there: "present {i} ?w"
        using world_inv_present [OF inv, of i] Some by (auto simp: present_def registered_update)
      have "\<exists>t. catchE (run_handler D I i (session_class s) h m)
          (\<lambda>e. if is_std_exception e then on_session i (safeDisconnect (the_asio D) (Some (what (the_lib D) e))) else throw e)
          ?w = (Inr (), t)" for m
        using valid_run_handler_present [OF known, unfolded valid_def, rule_format, OF there]
          disconnect_present by (fastforce simp: catchE_def refused_def split: sum.splits prod.splits)
      with Some Cons BodyRead show ?thesis
        by (cases ec) (auto simp: read_done_def seqE_def bindE_def on_session_def pop_read_def modify_def
          asyncReadMessageImpl_handler_def catchE_def gets_def ret_def)
    qed
  qed
qed

lemma create_and_start_std:
  assumes "world_inv w" and "create_and_start ops c s w = (Inl e, t)"
  shows "is_std_exception e"
proof (cases "op_remote_endpoint ops s")
  case (Inl ec)
  with assms(2) show ?thesis
    by (auto simp: create_and_start_def)
next
  case (Inr address)
  let ?i = "next_session w"
  let ?u = "w\<lparr>sessions := (sessions w)(?i \<mapsto> new_session c address s), next_session := Suc ?i\<rparr>"
  have "benign {?i} (start_session ops ?i :: (exn, 'a world, unit) eff)"
    unfolding start_session_def by (intro benigns std_onlys) simp_all
  moreover have "present {?i} ?u"
    using world_invD(3) [OF assms(1)] by (fastforce simp: present_def registered_def)
  moreover have "start_session ops ?i ?u = (Inl e, t)"
    using assms(2) Inr by (simp add: create_and_start_def Let_def)
  ultimately show ?thesis
    unfolding benign_def using validD(2) by (fastforce simp: refused_def)
qed

lemma accept_done_returns:
  assumes "world_inv w"
  shows "\<exists>t. accept_done ops c error s w = (Inr (), t)"
proof -
  let ?w = "w\<lparr>accepting := (accepting w)(c := False)\<rparr>"
  obtain r t where made: "create_and_start ops c s ?w = (r, t)"
    by fastforce
  have "is_std_exception e" if "r = Inl e" for e
    using create_and_start_std [OF world_inv_accepting [OF assms]] made that by blast
  with made show ?thesis
    by (cases error; cases r) (simp_all add: accept_done_def acceptNewConnection_def seqE_def bindE_def modify_def
      ret_def catchE_def)
qed

lemma close_bridge_error:
  fixes b :: "'a bridge"
  assumes "close_bridge ops b = (Inl e, b')"
  shows "\<exists>ec. e = SystemError ec"
proof -
  have zoomed: "\<exists>ec. e = SystemError ec" if "zoom get put (or_throw SystemError call) u = (Inl e, t)"
    for get :: "'a bridge \<Rightarrow> 'a" and put call u t
    using that by (auto simp: zoom_def or_throw_def split: prod.splits option.splits)
  have branch: "\<exists>ec. e = SystemError ec"
    if "whenE c (seqE (on_one (or_throw SystemError x)) (zoom get put (or_throw SystemError y))) u = (Inl e, t)"
    for c x and get :: "'a bridge \<Rightarrow> 'a" and put y and u t :: "'a bridge"
    using that by (auto simp: whenE_def seqE_def bindE_Inl_iff ret_def split: if_splits dest: zoomed)
  from assms show ?thesis
    unfolding close_bridge_def seqE_def [of "\<lambda>b. whenE (op_is_open ops (peer_one b)) _ b"] bindE_Inl_iff
    using branch by blast
qed

lemma bridge_event_error: "bridge_event_handler ops ev b = (Inl e, b') \<Longrightarrow> \<exists>ec. e = SystemError ec"
  by (induction ops ev b rule: bridge_event_handler.induct)
    (auto simp: handle_upstream_read_def handle_downstream_read_def handle_upstream_write_def
      handle_downstream_write_def start_read_def modify_def split: if_splits option.splits prod.splits
      dest: close_bridge_error)


end
