(* ===== verification/Pairing.thy ===== *)
theory Pairing
  imports Login_Session Server_Exceptions
begin

text \<open>
  How a viewer comes to its streamer, from the first connection to the bridge: both connect and
  log in, the streamer registers, the viewer asks for the code, and each side is told to go on.
  The server takes the steps of \<open>server_step\<close>; the clients run the operations of \<open>ClientSocket\<close> on
  the bytes the server wrote.
\<close>

section \<open>Messages as steps of the server\<close>

text \<open>The two reads of a message that fits one frame.\<close>

definition reads_message :: "nat \<Rightarrow> MessageType \<Rightarrow> cstring \<Rightarrow> event_label list" where
  "reads_message i t c =
     [SessionReads i None (header_bytes \<lparr>message_size = of_nat (length c), hdr_type = t\<rparr>), SessionReads i None c]"

lemma session_input_message [simp]:
  "session_input k (reads_message i t c) = (if k = i then frame t c else [])"
  by (simp add: reads_message_def frame_def)

text \<open>Worlds in which nothing is left to be destroyed, as they are after every handler.\<close>

definition settled :: "'s world \<Rightarrow> bool" where
  "settled w \<longleftrightarrow> (\<forall>i s. sessions w i = Some s \<longrightarrow> reads (base s) \<noteq> [] \<or> i \<in> registered w)"

lemma settled_collect [simp]: "settled w \<Longrightarrow> collect w = w"
  by (cases w) (auto simp: settled_def collect_def fun_eq_iff registered_def split: option.splits)

lemma settled_set_base: "settled w \<Longrightarrow> reads b \<noteq> [] \<Longrightarrow> settled (set_base i s b w)"
  by (auto simp: settled_def registered_update)

lemma settled_log: "settled (w\<lparr>log := l\<rparr>) = settled w"
  by (simp add: settled_def registered_update)

text \<open>The session with the message taken in and no read in flight.\<close>

definition took :: "MessageType \<Rightarrow> cstring \<Rightarrow> 's session \<Rightarrow> ('s, handler) SocketBase" where
  "took t c s = (base s)\<lparr>reads := [],
     data_buffer := overwrite (overwrite (data_buffer (base s))
       (header_bytes \<lparr>message_size = of_nat (length c), hdr_type = t\<rparr>)) c\<rparr>"

lemma took_simps [simp]: "socket (took t c s) = socket (base s)" "reads (took t c s) = []"
  by (simp_all add: took_def)

lemma message_handled:
  assumes "settled w" and s: "sessions w i = Some s" "reads (base s) = [HeaderRead h mx]"
    and size: "(of_nat (length c) :: size_t) \<le> mx" "length c \<le> BUFFER_SIZE"
    and run: "run_handler D I i (session_class s) h \<lparr>msg_type = t, content = c\<rparr> (set_base i s (took t c s) w) = (Inr (), w')"
  shows "server_trace D w (reads_message i t c) (collect w')"
proof -
  let ?h = "\<lparr>message_size = of_nat (length c), hdr_type = t\<rparr> :: MessageHeader"
  let ?b = "(base s)\<lparr>data_buffer := overwrite (data_buffer (base s)) (header_bytes ?h), reads := [BodyRead h ?h]\<rparr>"
  let ?w = "set_base i s ?b w"
  have "message_size ?h \<le> mx"
    using size(1) by simp
  note header = header_arrives [OF s this, of D I]
  have "settled ?w"
    using assms(1) by (intro settled_set_base) simp_all
  then have first: "server_event D w (SessionReads i None (header_bytes ?h)) (Inr ()) ?w"
    using event_read [OF s _ _ header] by simp
  have s1: "sessions ?w i = Some (s\<lparr>base := ?b\<rparr>)" "reads (base (s\<lparr>base := ?b\<rparr>)) = [BodyRead h ?h]"
    by simp_all
  have unat: "unat (of_nat (length c) :: size_t) = length c"
    by (rule deserialize_frame(2) [OF size(2)])
  have "set_base i (s\<lparr>base := ?b\<rparr>) (?b\<lparr>reads := [], data_buffer := overwrite (data_buffer ?b) c\<rparr>) ?w
      = set_base i s (took t c s) w"
    by (simp add: took_def)
  then have "read_done D I i None c ?w = (Inr (), w')"
    using run unfolding body_arrives [OF s1] by (simp add: catchE_def)
  then have "server_event D ?w (SessionReads i None c) (Inr ()) (collect w')"
    by (intro event_read [OF s1]) (simp_all add: unat)
  with first show ?thesis
    unfolding reads_message_def by (rule trace_cons [OF _ trace_one])
qed

section \<open>Connecting and logging in\<close>

text \<open>
  What is documented of a fresh connection: it has an address, and the handshake with a working
  peer succeeds and is no part of the application's bytes.
\<close>

definition connection_contract :: "'s asio \<Rightarrow> ('s \<Rightarrow> byte list) \<Rightarrow> ('s \<Rightarrow> bool) \<Rightarrow> bool" where
  "connection_contract ops sent live \<longleftrightarrow> (\<forall>s. live s \<longrightarrow>
     (\<exists>a. op_remote_endpoint ops s = Inr a) \<and> (\<exists>t. op_handshake ops s = (None, t) \<and> live t \<and> sent t = sent s))"

lemma pipe_connection: "connection_contract pipe_ops outgoing opened"
  by (simp add: connection_contract_def)

lemma client_connects:
  assumes contract: "connection_contract (the_asio D) sent live" and "live st"
    and w: "settled w" "accepting w c"
  obtains s where "server_event D w (ConnectionAccepted c) (Inr ()) (w\<lparr>sessions := (sessions w)(next_session w \<mapsto> s), next_session := Suc (next_session w)\<rparr>)"
    "session_class s = c" "live (socket (base s))" "sent (socket (base s)) = sent st"
    "reads (base s) = [HeaderRead AuthenticateCallback FIRST_MESSAGE_MAX_SIZE]"
proof -
  obtain a t where st: "op_remote_endpoint (the_asio D) st = Inr a" "op_handshake (the_asio D) st = (None, t)"
    "live t" "sent t = sent st"
    using contract assms(2) by (auto simp: connection_contract_def)
  let ?s = "new_session c a st"
  let ?s' = "?s\<lparr>base := (base ?s)\<lparr>socket := t, reads := [HeaderRead AuthenticateCallback 1000]\<rparr>\<rparr>"
  let ?w = "w\<lparr>sessions := (sessions w)(next_session w \<mapsto> ?s'), next_session := Suc (next_session w)\<rparr>"
  have "accept_done (the_asio D) c None st w = (Inr (), ?w)"
    using st(1,2) w(2)
    by (cases w) (simp add: accept_done_def acceptNewConnection_def seqE_def bindE_def modify_def catchE_def
      create_and_start_def Let_def start_session_state new_session_def new_SocketBase_def fun_upd_idem)
  moreover have "settled ?w"
    using w(1) by (auto simp: settled_def registered_def)
  ultimately have "server_event D w (ConnectionAccepted c) (Inr ()) ?w"
    using event_accept [OF w(2), of D None st] by fastforce
  with st show ?thesis
    by (intro that [of ?s']) (simp_all add: new_session_def new_SocketBase_def FIRST_MESSAGE_MAX_SIZE_def)
qed

lemma client_logs_in:
  assumes contract: "stream_contract (the_asio D) sent avail live" and w: "settled w"
    and s: "sessions w i = Some s" "live (socket (base s))"
      "reads (base s) = [HeaderRead AuthenticateCallback FIRST_MESSAGE_MAX_SIZE]"
    and json: "json_parse (the_json D) text = Inr j" "json_at (the_json D) ''email'' j = Inr email"
      "json_at (the_json D) ''password'' j = Inr password"
    and ok: "credentials_ok D w email password" and short: "length text \<le> 1000"
  obtains s' where "server_trace D w (reads_message i LOGIN text)
      (w\<lparr>sessions := (sessions w)(i \<mapsto> s'), log := log w @ [ConnectionAuthenticated i]\<rparr>)"
    "session_class s' = session_class s" "live (socket (base s'))"
    "sent (socket (base s')) = sent (socket (base s)) @ frame ACK []" "reads (base s') = [HeaderRead HandleRead BUFFER_SIZE_t]"
proof -
  let ?m = "\<lparr>msg_type = LOGIN, content = text\<rparr>" and ?b = "took LOGIN text s"
  let ?s = "s\<lparr>base := ?b\<rparr>" and ?w = "set_base i s ?b w"
  have s1: "sessions ?w i = Some ?s" "live (socket (base ?s))" "reads (base ?s) = []"
    using s(2) by simp_all
  have ok1: "credentials_ok D ?w email password"
    using ok by (simp add: credentials_ok_def)
  have parsed: "json_parse (the_json D) (content ?m) = Inr j"
    using json(1) by simp
  obtain t where t: "live t" "sent t = sent (socket (base ?s)) @ frame ACK []"
    "authenticateCallback D quiet_inputs i ?m ?w = (Inr (), (set_base i ?s ((base ?s)\<lparr>socket := t,
      reads := [HeaderRead HandleRead BUFFER_SIZE_t]\<rparr>) ?w)\<lparr>log := log ?w @ [ConnectionAuthenticated i]\<rparr>)"
    using login_step_live [OF contract s1 _ parsed json(2,3), of quiet_inputs] ok1 by (auto simp: quiet_inputs_def)
  let ?s' = "?s\<lparr>base := (base ?s)\<lparr>socket := t, reads := [HeaderRead HandleRead BUFFER_SIZE_t]\<rparr>\<rparr>"
  let ?w' = "w\<lparr>sessions := (sessions w)(i \<mapsto> ?s'), log := log w @ [ConnectionAuthenticated i]\<rparr>"
  have run: "run_handler D quiet_inputs i (session_class s) AuthenticateCallback ?m ?w = (Inr (), ?w')"
    using t(3) by (simp add: run_handler_def)
  have "settled ?w'"
    using w by (simp add: settled_def registered_update)
  moreover have "(of_nat (length text) :: size_t) \<le> FIRST_MESSAGE_MAX_SIZE" "length text \<le> BUFFER_SIZE"
    using short by (simp_all add: FIRST_MESSAGE_MAX_SIZE_def word_le_nat_alt unat_of_nat BUFFER_SIZE_def)
  ultimately have "server_trace D w (reads_message i LOGIN text) ?w'"
    using message_handled [OF w s(1,3) _ _ run] by simp
  with t show ?thesis
    by (intro that [of ?s']) simp_all
qed

text \<open>A connection of a client that has an account.\<close>

lemma client_arrives:
  assumes contract: "stream_contract (the_asio D) sent avail live" "connection_contract (the_asio D) sent live"
    and "live st" and w: "settled w" "accepting w c"
    and json: "json_parse (the_json D) text = Inr j" "json_at (the_json D) ''email'' j = Inr email"
      "json_at (the_json D) ''password'' j = Inr password"
    and ok: "credentials_ok D w email password" and short: "length text \<le> 1000"
  obtains s where "server_trace D w (ConnectionAccepted c # reads_message (next_session w) LOGIN text)
      (w\<lparr>sessions := (sessions w)(next_session w \<mapsto> s), next_session := Suc (next_session w),
      log := log w @ [ConnectionAuthenticated (next_session w)]\<rparr>)"
    "session_class s = c" "live (socket (base s))" "sent (socket (base s)) = sent st @ frame ACK []"
    "reads (base s) = [HeaderRead HandleRead BUFFER_SIZE_t]"
proof -
  let ?i = "next_session w"
  obtain s where s: "server_event D w (ConnectionAccepted c) (Inr ()) (w\<lparr>sessions := (sessions w)(?i \<mapsto> s), next_session := Suc ?i\<rparr>)" (is "server_event D w _ _ ?w")
    "session_class s = c" "live (socket (base s))" "sent (socket (base s)) = sent st"
    "reads (base s) = [HeaderRead AuthenticateCallback FIRST_MESSAGE_MAX_SIZE]"
    by (rule client_connects [OF contract(2) assms(3) w])
  have w1: "settled ?w"
    using w(1) s(5) by (auto simp: settled_def registered_def)
  have s1: "sessions ?w ?i = Some s"
    by simp
  have ok1: "credentials_ok D ?w email password"
    using ok by (simp add: credentials_ok_def)
  obtain s' where s': "server_trace D ?w (reads_message ?i LOGIN text) (?w\<lparr>sessions := (sessions ?w)(?i \<mapsto> s'), log := log ?w @ [ConnectionAuthenticated ?i]\<rparr>)"
    "session_class s' = session_class s" "live (socket (base s'))"
    "sent (socket (base s')) = sent (socket (base s)) @ frame ACK []" "reads (base s') = [HeaderRead HandleRead BUFFER_SIZE_t]"
    by (rule client_logs_in [OF contract(1) w1 s1 s(3,5) json ok1 short])
  have steps: "server_trace D w (ConnectionAccepted c # reads_message ?i LOGIN text) (?w\<lparr>sessions := (sessions ?w)(?i \<mapsto> s'), log := log ?w @ [ConnectionAuthenticated ?i]\<rparr>)"
    using s(1) s'(1) by (rule trace_cons)
  have eq: "?w\<lparr>sessions := (sessions ?w)(?i \<mapsto> s'), log := log ?w @ l\<rparr> = w\<lparr>sessions := (sessions w)(?i \<mapsto> s'),
      next_session := Suc ?i, log := log w @ l\<rparr>" for l
    by (cases w) simp
  show ?thesis
    using s s' by (intro that [OF steps [unfolded eq]]) simp_all
qed

section \<open>Registering and finding\<close>

lemma streamer_registers:
  assumes contract: "stream_contract (the_asio D) sent avail live" and w: "settled w" "senders_sessions (registry w) = []"
    and s: "sessions w i = Some s" "live (socket (base s))" "session_class s = ProxySession"
      "reads (base s) = [HeaderRead HandleRead BUFFER_SIZE_t]"
  obtains s' where "server_trace D w (reads_message i REGISTER_STREAMER []) (w\<lparr>sessions := (sessions w)(i \<mapsto> s'),
      registry := (registry w)\<lparr>senders_sessions := [(str ''test'', \<lparr>client_session = i, time_point = time\<rparr>)]\<rparr>,
      log := log w @ [RegisteredStreamer i (str ''test'')]\<rparr>)"
    "live (socket (base s'))" "sent (socket (base s')) = sent (socket (base s)) @ frame ID (str ''test'')"
proof -
  let ?m = "\<lparr>msg_type = REGISTER_STREAMER, content = []\<rparr>" and ?b = "took REGISTER_STREAMER [] s"
  let ?I = "\<lparr>now = time, db_fault = None\<rparr>" and ?reg = "(registry w)\<lparr>senders_sessions := [(str ''test'', \<lparr>client_session = i, time_point = time\<rparr>)]\<rparr>"
  let ?w = "set_base i s ?b w"
  let ?u = "?w\<lparr>registry := ?reg, log := log w @ [RegisteredStreamer i (str ''test'')]\<rparr>"
  have known: "sessions ?u i = Some (s\<lparr>base := ?b\<rparr>)" "live (socket (base (s\<lparr>base := ?b\<rparr>)))"
    using s(2) by simp_all
  have short: "length (str ''test'') \<le> BUFFER_SIZE"
    by (simp add: BUFFER_SIZE_def)
  obtain t where t: "on_session i (send (the_asio D) \<lparr>msg_type = ID, content = str ''test''\<rparr>) ?u
      = (Inr (), set_base i (s\<lparr>base := ?b\<rparr>) (?b\<lparr>socket := t\<rparr>) ?u)" "live t"
    "sent t = sent (socket (base s)) @ frame ID (str ''test'')"
    using session_answer [OF contract known short, of ID] by auto
  let ?s' = "s\<lparr>base := ?b\<lparr>socket := t\<rparr>\<rparr>"
  let ?w' = "w\<lparr>sessions := (sessions w)(i \<mapsto> ?s'), registry := ?reg, log := log w @ [RegisteredStreamer i (str ''test'')]\<rparr>"
  have "registerStreamer i time (registry w) = (Inr (str ''test''), ?reg)"
    using w(2) by (simp add: registerStreamer_eq map_contains_def del: str_simps)
  then have run: "run_handler D ?I i (session_class s) HandleRead ?m ?w = (Inr (), ?w')"
    using t(1) s(3) by (simp add: run_handler_def ProxySession_handleRead_eq bindE_def seqE_def zoom_def
      log_info_def modify_def del: str_simps)
  have "settled ?w'"
    using w s(4) by (auto simp: settled_def registered_def)
  moreover have "(of_nat (length ([] :: cstring)) :: size_t) \<le> BUFFER_SIZE_t"
    by simp
  ultimately have "server_trace D w (reads_message i REGISTER_STREAMER []) ?w'"
    using message_handled [OF w(1) s(1,4) _ empty_short run] by simp
  with t show ?thesis
    by (intro that [of ?s']) simp_all
qed

lemma viewer_finds:
  assumes contract: "stream_contract (the_asio D) sent avail live" "connection_contract (the_asio D) sent live"
    and w: "settled w" "senders_sessions (registry w) = [(code, \<lparr>client_session = j, time_point = time\<rparr>)]"
    and v: "sessions w i = Some v" "live (socket (base v))" "session_class v = ProxySession"
      "reads (base v) = [HeaderRead HandleRead BUFFER_SIZE_t]"
    and s: "sessions w j = Some s" "live (socket (base s))" and "i \<noteq> j" and short: "length code \<le> BUFFER_SIZE"
  obtains b where "server_trace D w (reads_message i FIND_STREAMER code) (w\<lparr>sessions := (sessions w)(j := None, i := None),
      registry := (registry w)\<lparr>senders_sessions := []\<rparr>, bridges := bridges w @ [b], log := log w @ [BridgeCreated j i]\<rparr>)"
    "live (peer_one b)" "sent (peer_one b) = sent (socket (base s)) @ frame START_STREAM []"
    "live (peer_two b)" "sent (peer_two b) = sent (socket (base v)) @ frame ACK []" "in_flight b = [Upstream, Downstream]"
proof -
  let ?m = "\<lparr>msg_type = FIND_STREAMER, content = code\<rparr>" and ?b = "took FIND_STREAMER code v"
  let ?w = "set_base i v ?b w"
  have v1: "sessions ?w i = Some (v\<lparr>base := ?b\<rparr>)" "live (socket (base (v\<lparr>base := ?b\<rparr>)))"
    using v(2) by simp_all
  have s1: "found_session (registry ?w) (content ?m) = Some j" "sessions ?w j = Some s"
    using w(2) s(1) \<open>i \<noteq> j\<close> by (simp_all add: found_session_def)
  have address: "\<exists>a. op_remote_endpoint (the_asio D) st = Inr a" if "live st" for st
    using contract(2) that by (auto simp: connection_contract_def)
  have "msg_type ?m = FIND_STREAMER"
    by simp
  from viewer_meets_step [OF contract(1) v1 s1 s(2) \<open>i \<noteq> j\<close> this address, of quiet_inputs]
  obtain tv ts b where step: "ProxySession_handleRead D quiet_inputs i ?m ?w =
      (Inr (), ?w\<lparr>sessions := (sessions ?w)(j := None, i := None),
         registry := (registry ?w)\<lparr>senders_sessions := AList.delete (content ?m) (senders_sessions (registry ?w))\<rparr>,
         bridges := bridges ?w @ [b], log := log ?w @ [BridgeCreated j i]\<rparr>)"
    and b: "peer_one b = ts" "peer_two b = tv" "in_flight b = [Upstream, Downstream]" "live tv" "live ts"
      "sent tv = sent (socket (base v)) @ frame ACK []" "sent ts = sent (socket (base s)) @ frame START_STREAM []"
    by auto
  let ?w' = "w\<lparr>sessions := (sessions w)(j := None, i := None),
      registry := (registry w)\<lparr>senders_sessions := []\<rparr>, bridges := bridges w @ [b], log := log w @ [BridgeCreated j i]\<rparr>"
  have run: "run_handler D quiet_inputs i (session_class v) HandleRead ?m ?w = (Inr (), ?w')"
    using step w(2) v(3) by (simp add: run_handler_def fun_upd_twist fun_upd_idem)
  have "settled ?w'"
    using w by (auto simp: settled_def registered_def)
  moreover have "(of_nat (length code) :: size_t) \<le> BUFFER_SIZE_t"
    using short deserialize_frame(2) [OF short] by (simp add: word_le_nat_alt)
  ultimately have "server_trace D w (reads_message i FIND_STREAMER code) ?w'"
    using message_handled [OF w(1) v(1,4) _ short run] by simp
  with b show ?thesis
    by (intro that [of b]) simp_all
qed

section \<open>The server brings them together\<close>

lemma new_world_simps [simp]:
  "sessions (new_world t n m) = Map.empty" "next_session (new_world t n m) = 0" "bridges (new_world t n m) = []"
  "accepting (new_world t n m) c" "senders_sessions (registry (new_world t n m)) = []" "log (new_world t n m) = []"
  "settled (new_world t n m)" "users_manager_alive (new_world t n m)" "users (new_world t n m) = t"
  by (simp_all add: new_world_def initCleanerThread_def new_manager_def settled_def)

lemma server_pairs:
  assumes contract: "stream_contract (the_asio D) sent avail live" "connection_contract (the_asio D) sent live"
    and live: "live st1" "live st2" and start: "server_init w"
    and json1: "json_parse (the_json D) t1 = Inr j1" "json_at (the_json D) ''email'' j1 = Inr e1"
      "json_at (the_json D) ''password'' j1 = Inr p1" "credentials_ok D w e1 p1" "length t1 \<le> 1000"
    and json2: "json_parse (the_json D) t2 = Inr j2" "json_at (the_json D) ''email'' j2 = Inr e2"
      "json_at (the_json D) ''password'' j2 = Inr p2" "credentials_ok D w e2 p2" "length t2 \<le> 1000"
  obtains ls w' b where "server_trace D w ls w'" "bridges w' = [b]" "sessions w' = Map.empty"
    "live (peer_one b)" "sent (peer_one b) = sent st1 @ frame ACK [] @ frame ID (str ''test'') @ frame START_STREAM []"
    "live (peer_two b)" "sent (peer_two b) = sent st2 @ frame ACK [] @ frame ACK []"
    "in_flight b = [Upstream, Downstream]"
    "session_input 0 ls = frame LOGIN t1 @ frame REGISTER_STREAMER []"
    "session_input 1 ls = frame LOGIN t2 @ frame FIND_STREAMER (str ''test'')"
proof -
  obtain table n m where w: "w = new_world table n m"
    using start by (auto simp: server_init_def)
  have w0: "settled w" "accepting w ProxySession" "next_session w = 0" "sessions w = Map.empty"
    "senders_sessions (registry w) = []" "bridges w = []"
    by (simp_all add: w)
  obtain s where s: "server_trace D w (ConnectionAccepted ProxySession # reads_message 0 LOGIN t1)
      (w\<lparr>sessions := [0 \<mapsto> s], next_session := 1, log := log w @ [ConnectionAuthenticated 0]\<rparr>)" (is "server_trace D w _ ?w1")
    "session_class s = ProxySession" "live (socket (base s))" "sent (socket (base s)) = sent st1 @ frame ACK []"
    "reads (base s) = [HeaderRead HandleRead BUFFER_SIZE_t]"
    using client_arrives [OF contract live(1) w0(1,2) json1, unfolded w0(3,4)] by (metis One_nat_def)
  have w1: "settled ?w1" "senders_sessions (registry ?w1) = []" "sessions ?w1 0 = Some s"
    using w0(5) s(5) by (auto simp: settled_def registered_def)
  obtain s' where s': "server_trace D ?w1 (reads_message 0 REGISTER_STREAMER [])
      (?w1\<lparr>sessions := (sessions ?w1)(0 \<mapsto> s'),
        registry := (registry ?w1)\<lparr>senders_sessions := [(str ''test'', \<lparr>client_session = 0, time_point = 0\<rparr>)]\<rparr>,
        log := log ?w1 @ [RegisteredStreamer 0 (str ''test'')]\<rparr>)" (is "server_trace D ?w1 _ ?w2")
    "live (socket (base s'))" "sent (socket (base s')) = sent (socket (base s)) @ frame ID (str ''test'')"
    by (rule streamer_registers [OF contract(1) w1 s(3,2,5), of 0])
  have w2: "settled ?w2" "accepting ?w2 ProxySession" "next_session ?w2 = 1"
    using w0(2) by (auto simp: settled_def registered_def)
  have ok2: "credentials_ok D ?w2 e2 p2"
    using json2(4) by (simp add: credentials_ok_def)
  obtain v where v: "server_trace D ?w2 (ConnectionAccepted ProxySession # reads_message 1 LOGIN t2)
      (?w2\<lparr>sessions := (sessions ?w2)(1 \<mapsto> v), next_session := Suc 1, log := log ?w2 @ [ConnectionAuthenticated 1]\<rparr>)"
      (is "server_trace D ?w2 _ ?w3")
    "session_class v = ProxySession" "live (socket (base v))" "sent (socket (base v)) = sent st2 @ frame ACK []"
    "reads (base v) = [HeaderRead HandleRead BUFFER_SIZE_t]"
    by (rule client_arrives [OF contract live(2) w2(1,2) json2(1-3) ok2 json2(5), unfolded w2(3)])
  have w3: "settled ?w3" "senders_sessions (registry ?w3) = [(str ''test'', \<lparr>client_session = 0, time_point = 0\<rparr>)]"
    "sessions ?w3 1 = Some v" "sessions ?w3 0 = Some s'"
    using v(5) by (auto simp: settled_def registered_def)
  have short: "length (str ''test'') \<le> BUFFER_SIZE" and neq: "(1 :: nat) \<noteq> 0"
    by (simp_all add: BUFFER_SIZE_def)
  obtain b where b: "server_trace D ?w3 (reads_message 1 FIND_STREAMER (str ''test''))
      (?w3\<lparr>sessions := (sessions ?w3)(0 := None, 1 := None), registry := (registry ?w3)\<lparr>senders_sessions := []\<rparr>,
        bridges := bridges ?w3 @ [b], log := log ?w3 @ [BridgeCreated 0 1]\<rparr>)" (is "server_trace D ?w3 _ ?w4")
    "live (peer_one b)" "sent (peer_one b) = sent (socket (base s')) @ frame START_STREAM []"
    "live (peer_two b)" "sent (peer_two b) = sent (socket (base v)) @ frame ACK []" "in_flight b = [Upstream, Downstream]"
    by (rule viewer_finds [OF contract w3(1,2,3) v(3,2,5) w3(4) s'(2) neq short])
  let ?ls = "(ConnectionAccepted ProxySession # reads_message 0 LOGIN t1) @ reads_message 0 REGISTER_STREAMER []
    @ (ConnectionAccepted ProxySession # reads_message 1 LOGIN t2) @ reads_message 1 FIND_STREAMER (str ''test'')"
  have "server_trace D w ?ls ?w4"
    by (intro trace_append [OF s(1)] trace_append [OF s'(1)] trace_append [OF v(1)] b(1))
  moreover have "bridges ?w4 = [b]" "sessions ?w4 = Map.empty"
    using w0(6) by (simp_all add: fun_eq_iff)
  ultimately show ?thesis
    using b s(4) s'(3) v(4) by (intro that [of ?ls ?w4 b]) simp_all
qed

section \<open>Relaying as steps of the server\<close>

text \<open>A read that brought something and fits the buffer of the bridge.\<close>

definition relayable :: "bridge_event \<Rightarrow> bool" where
  "relayable ev = (case ev of ReadDone d ec bytes \<Rightarrow> ec = None \<and> bytes \<noteq> [] \<and> length bytes \<le> MAX_DATA_LENGTH)"

lemma relay_step:
  assumes contract: "stream_contract (the_asio D) sent avail live" and "relayable ev"
    and b: "bridges w = [b]" "live (peer_one b)" "live (peer_two b)" "bridge_ready b"
  shows "\<exists>b'. server_event D w (BridgeReads 0 ev) (Inr ()) (w\<lparr>bridges := [b']\<rparr>) \<and> live (peer_one b') \<and> live (peer_two b')
    \<and> bridge_ready b' \<and> sent (peer_one b') = sent (peer_one b) @ arrived Upstream [ev]
    \<and> sent (peer_two b') = sent (peer_two b) @ arrived Downstream [ev]"
proof -
  obtain d bytes where ev: "ev = ReadDone d None bytes" "bytes \<noteq> []" "length bytes \<le> MAX_DATA_LENGTH"
    using assms(2) by (cases ev) (simp add: relayable_def)
  obtain b' where b': "bridge_run (the_asio D) [ev] b = (Inr (), b')" "live (peer_one b')" "live (peer_two b')" "bridge_ready b'"
    "sent (peer_one b') = sent (peer_one b) @ arrived Upstream [ev]"
    "sent (peer_two b') = sent (peer_two b) @ arrived Downstream [ev]"
    using bridge_run_relays [OF contract b(2-4), of "[ev]"] ev(1) by (auto simp: no_error_def)
  then have "bridge_event_handler (the_asio D) ev b = (Inr (), b')"
    by (auto simp: seqE_def bindE_def ret_def split: prod.splits sum.splits)
  then have "bridge_done (the_asio D) 0 ev w = (Inr (), w\<lparr>bridges := [b']\<rparr>)"
    using b(1) by (simp add: bridge_done_def)
  moreover have "d \<in> set (in_flight b)"
    using b(4) by (cases d) (simp_all add: bridge_ready_def)
  ultimately have "server_event D w (BridgeReads 0 ev) (Inr ()) (w\<lparr>bridges := [b']\<rparr>)"
    using b(1) ev by (simp only: ev(1)) (intro event_bridge; simp)
  with b' show ?thesis
    by blast
qed

lemma server_relays:
  assumes contract: "stream_contract (the_asio D) sent avail live"
  shows "list_all relayable evs \<Longrightarrow> bridges w = [b] \<Longrightarrow> live (peer_one b) \<Longrightarrow> live (peer_two b) \<Longrightarrow> bridge_ready b \<Longrightarrow>
    \<exists>w' b'. server_trace D w (map (BridgeReads 0) evs) w' \<and> bridges w' = [b']
      \<and> sent (peer_one b') = sent (peer_one b) @ arrived Upstream evs
      \<and> sent (peer_two b') = sent (peer_two b) @ arrived Downstream evs"
proof (induction evs arbitrary: w b)
  case Nil
  then show ?case
    by (auto intro: trace_nil)
next
  case (Cons ev evs)
  obtain b1 where b1: "server_event D w (BridgeReads 0 ev) (Inr ()) (w\<lparr>bridges := [b1]\<rparr>)" "live (peer_one b1)" "live (peer_two b1)"
    "bridge_ready b1" "sent (peer_one b1) = sent (peer_one b) @ arrived Upstream [ev]"
    "sent (peer_two b1) = sent (peer_two b) @ arrived Downstream [ev]"
    using relay_step [OF contract _ Cons.prems(2-5), of ev] Cons.prems(1) by auto
  have "list_all relayable evs" "bridges (w\<lparr>bridges := [b1]\<rparr>) = [b1]"
    using Cons.prems(1) by simp_all
  from Cons.IH [OF this b1(2-4)] obtain w' b' where
    w': "server_trace D (w\<lparr>bridges := [b1]\<rparr>) (map (BridgeReads 0) evs) w'" "bridges w' = [b']"
      "sent (peer_one b') = sent (peer_one b1) @ arrived Upstream evs"
      "sent (peer_two b') = sent (peer_two b1) @ arrived Downstream evs"
    by blast
  have "arrived d (ev # evs) = arrived d [ev] @ arrived d evs" for d
    by (cases ev) simp
  with w' b1(5,6) trace_cons [OF b1(1) w'(1)] show ?case
    by auto
qed

section \<open>The clients\<close>

text \<open>What the streaming and the viewing program ask for before they start to work.\<close>

lemma streamer_asks:
  fixes sb :: "('s, 'h) SocketBase"
  assumes contract: "stream_contract ops sent avail live" and "live (socket sb)"
    and "avail (socket sb) = frame ACK [] @ frame ID code @ frame START_STREAM [] @ rest"
    and json: "login_json W email password = Inr text" and "length text \<le> BUFFER_SIZE" "length code \<le> BUFFER_SIZE"
    and "in_time clock timeout 1"
  obtains sb1 sb2 where "seqE (login W ops email password) (requestStreamerID ops) sb = (Inr code, sb1)"
    "waitForStartStreamMessage ops clock timeout sb1 = Some (Inr True, sb2)" "live (socket sb2)" "avail (socket sb2) = rest"
    "sent (socket sb2) = sent (socket sb) @ frame LOGIN text @ frame REGISTER_STREAMER []"
    "sb2 = sb\<lparr>socket := socket sb2, data_buffer := overwrite (overwrite (data_buffer sb) []) []\<rparr>"
proof -
  obtain s where s: "snd (login W ops email password sb) = sb\<lparr>socket := s, data_buffer := overwrite (data_buffer sb) []\<rparr>"
    "fst (login W ops email password sb) = Inr ()" "live s" "avail s = frame ID code @ frame START_STREAM [] @ rest"
    "sent s = sent (socket sb) @ frame LOGIN text"
    using login_answer [OF assms(1-3) empty_short json [unfolded login_json_def]] frames_short [OF assms(5)] by auto
  let ?b = "sb\<lparr>socket := s, data_buffer := overwrite (data_buffer sb) []\<rparr>"
  have "live (socket ?b)" "avail (socket ?b) = frame ID code @ frame START_STREAM [] @ rest"
    using s(3,4) by simp_all
  from registration_answer [OF contract this assms(6)] obtain t where
    t: "requestStreamerID ops ?b = (Inr code, ?b\<lparr>socket := t\<rparr>)" "sent t = sent s @ frame REGISTER_STREAMER []"
      "avail t = frame START_STREAM [] @ rest" "live t"
    by auto
  have "live (socket (?b\<lparr>socket := t\<rparr>))" "avail (socket (?b\<lparr>socket := t\<rparr>)) = frame START_STREAM [] @ rest"
    using t(3,4) by simp_all
  from wait_now [OF contract this empty_short assms(7)] obtain u where
    u: "waitForStartStreamMessage ops clock timeout (?b\<lparr>socket := t\<rparr>) = Some (Inr True,
          ?b\<lparr>socket := t\<rparr>\<lparr>socket := u, data_buffer := overwrite (data_buffer (?b\<lparr>socket := t\<rparr>)) []\<rparr>)"
      "live u" "avail u = rest" "sent u = sent (socket (?b\<lparr>socket := t\<rparr>))"
    by blast
  have "login W ops email password sb = (Inr (), ?b)"
    using s(1,2) by (metis prod.collapse)
  then have asked: "seqE (login W ops email password) (requestStreamerID ops) sb = (Inr code, ?b\<lparr>socket := t\<rparr>)"
    using t(1) by (simp only: seqE_step(1))
  show ?thesis
    using u(2-4) s(5) t(2) by (intro that [OF asked u(1)]) simp_all
qed

lemma viewer_asks:
  fixes sb :: "('s, 'h) SocketBase"
  assumes contract: "stream_contract ops sent avail live" and "live (socket sb)"
    and "avail (socket sb) = frame ACK [] @ frame ACK [] @ rest"
    and json: "login_json W email password = Inr text" and "length text \<le> BUFFER_SIZE" "length code \<le> BUFFER_SIZE"
  obtains sb' where "seqE (login W ops email password) (findOtherClient ops code) sb = (Inr True, sb')"
    "live (socket sb')" "avail (socket sb') = rest"
    "sent (socket sb') = sent (socket sb) @ frame LOGIN text @ frame FIND_STREAMER code"
proof -
  obtain s where s: "snd (login W ops email password sb) = sb\<lparr>socket := s, data_buffer := overwrite (data_buffer sb) []\<rparr>"
    "fst (login W ops email password sb) = Inr ()" "live s" "avail s = frame ACK [] @ rest"
    "sent s = sent (socket sb) @ frame LOGIN text"
    using login_answer [OF assms(1-3) empty_short json [unfolded login_json_def]] frames_short [OF assms(5)] by auto
  let ?b = "sb\<lparr>socket := s, data_buffer := overwrite (data_buffer sb) []\<rparr>"
  have front: "live (socket ?b)" "avail (socket ?b) = frame ACK [] @ rest"
    using s(3,4) by simp_all
  obtain u where u: "findOtherClient ops code ?b = (Inr True, ?b\<lparr>socket := u, data_buffer := overwrite (data_buffer ?b) []\<rparr>)"
    "live u" "avail u = rest" "sent u = sent s @ frame FIND_STREAMER code"
    using find_answer [OF contract front empty_short, of code] frames_short [OF assms(6)] by auto
  have "login W ops email password sb = (Inr (), ?b)"
    using s(1,2) by (metis prod.collapse)
  then have "seqE (login W ops email password) (findOtherClient ops code) sb
      = (Inr True, ?b\<lparr>socket := u, data_buffer := overwrite (data_buffer ?b) []\<rparr>)"
    using u(1) by (simp only: seqE_step(1))
  then show ?thesis
    using u(2-4) s(5) by (intro that [of "?b\<lparr>socket := u, data_buffer := overwrite (data_buffer ?b) []\<rparr>"]) simp_all
qed

text \<open>
  C6. A viewer and a streamer meet. A server that has just been started, with accounts for both,
  accepts two connections and takes steps without an exception until the only bridge joins them.
  The bytes that it reads from each are those the client sends, and on the bytes that it
  writes to each the streamer logs in, is given its code and is told to start, and the viewer
  logs in and finds the streamer under this code. From then on nothing but the bridge is left,
  and the server goes on taking steps that relay whatever arrives from either side to the other.
\<close>

theorem pairing_end_to_end:
  fixes ssb :: "('c, 'h) SocketBase" and vsb :: "('c, 'k) SocketBase"
  assumes server: "stream_contract (the_asio D) sent avail live" "connection_contract (the_asio D) sent live"
      "live st1" "live st2" "server_init w"
    and accounts: "credentials_ok D w e1 p1" "credentials_ok D w e2 p2"
    and json: "login_json W e1 p1 = Inr t1" "json_agree W (the_json D) e1 p1" "length t1 \<le> 1000"
      "login_json W e2 p2 = Inr t2" "json_agree W (the_json D) e2 p2" "length t2 \<le> 1000"
    and clients: "stream_contract ops csent cavail clive" "clive (socket ssb)" "clive (socket vsb)"
      "in_time clock timeout 1"
    and wired: "cavail (socket ssb) = frame ACK [] @ frame ID (str ''test'') @ frame START_STREAM [] @ rest1"
      "cavail (socket vsb) = frame ACK [] @ frame ACK [] @ rest2"
  shows "\<exists>ls w' b ssb1 ssb2 vsb'. server_trace D w ls w' \<and> sessions w' = Map.empty \<and> bridges w' = [b]
    \<and> in_flight b = [Upstream, Downstream]
    \<and> sent (peer_one b) = sent st1 @ frame ACK [] @ frame ID (str ''test'') @ frame START_STREAM []
    \<and> sent (peer_two b) = sent st2 @ frame ACK [] @ frame ACK []
    \<and> seqE (login W ops e1 p1) (requestStreamerID ops) ssb = (Inr (str ''test''), ssb1)
    \<and> waitForStartStreamMessage ops clock timeout ssb1 = Some (Inr True, ssb2)
    \<and> csent (socket ssb2) = csent (socket ssb) @ session_input 0 ls \<and> cavail (socket ssb2) = rest1
    \<and> seqE (login W ops e2 p2) (findOtherClient ops (str ''test'')) vsb = (Inr True, vsb')
    \<and> csent (socket vsb') = csent (socket vsb) @ session_input 1 ls \<and> cavail (socket vsb') = rest2
    \<and> (\<forall>evs. list_all relayable evs \<longrightarrow> (\<exists>w'' b'. server_trace D w (ls @ map (BridgeReads 0) evs) w'' \<and> bridges w'' = [b']
        \<and> sent (peer_one b') = sent (peer_one b) @ arrived Upstream evs
        \<and> sent (peer_two b') = sent (peer_two b) @ arrived Downstream evs))"
proof -
  obtain j1 where j1: "json_parse (the_json D) t1 = Inr j1" "json_at (the_json D) ''email'' j1 = Inr e1"
    "json_at (the_json D) ''password'' j1 = Inr p1"
    using json(1,2) unfolding json_agree_def by blast
  obtain j2 where j2: "json_parse (the_json D) t2 = Inr j2" "json_at (the_json D) ''email'' j2 = Inr e2"
    "json_at (the_json D) ''password'' j2 = Inr p2"
    using json(4,5) unfolding json_agree_def by blast
  have short: "length t1 \<le> BUFFER_SIZE" "length t2 \<le> BUFFER_SIZE" "length (str ''test'') \<le> BUFFER_SIZE"
    using json(3,6) by (simp_all add: BUFFER_SIZE_def)
  obtain ls w' b where met: "server_trace D w ls w'" "bridges w' = [b]" "sessions w' = Map.empty"
    "sent (peer_one b) = sent st1 @ frame ACK [] @ frame ID (str ''test'') @ frame START_STREAM []"
    "sent (peer_two b) = sent st2 @ frame ACK [] @ frame ACK []" "in_flight b = [Upstream, Downstream]"
    and live: "live (peer_one b)" "live (peer_two b)"
    and input: "session_input 0 ls = frame LOGIN t1 @ frame REGISTER_STREAMER []"
    "session_input 1 ls = frame LOGIN t2 @ frame FIND_STREAMER (str ''test'')"
    by (rule server_pairs [OF server j1 accounts(1) json(3) j2 accounts(2) json(6)]) iprover
  obtain ssb1 ssb2 where streamer: "seqE (login W ops e1 p1) (requestStreamerID ops) ssb = (Inr (str ''test''), ssb1)"
    "waitForStartStreamMessage ops clock timeout ssb1 = Some (Inr True, ssb2)" "cavail (socket ssb2) = rest1"
    "csent (socket ssb2) = csent (socket ssb) @ session_input 0 ls"
    unfolding input by (rule streamer_asks [OF clients(1,2) wired(1) json(1) short(1,3) clients(4)]) iprover
  obtain vsb' where viewer: "seqE (login W ops e2 p2) (findOtherClient ops (str ''test'')) vsb = (Inr True, vsb')"
    "cavail (socket vsb') = rest2" "csent (socket vsb') = csent (socket vsb) @ session_input 1 ls"
    unfolding input by (rule viewer_asks [OF clients(1,3) wired(2) json(4) short(2,3)]) iprover
  have "bridge_ready b"
    using met(6) by (simp add: bridge_ready_def)
  note relays = server_relays [OF server(1) _ met(2) live this]
  have "\<forall>evs. list_all relayable evs \<longrightarrow> (\<exists>w'' b'. server_trace D w (ls @ map (BridgeReads 0) evs) w'' \<and> bridges w'' = [b']
      \<and> sent (peer_one b') = sent (peer_one b) @ arrived Upstream evs
      \<and> sent (peer_two b') = sent (peer_two b) @ arrived Downstream evs)"
    using relays trace_append [OF met(1)] by blast
  with met streamer viewer show ?thesis
    by (intro exI conjI)
qed

text \<open>The server with one account, shared by both clients, on streams in memory.\<close>

definition one_account :: "pipe world" where
  "one_account = new_world [[1] \<mapsto> [9, 1]] 30 60"

lemma one_account_init: "server_init one_account"
  by (auto simp: one_account_def server_init_def)

lemma one_account_credentials: "credentials_ok pipe_deps one_account [1] [1]"
  by (simp add: credentials_ok_def one_account_def pipe_deps_def plain_bcrypt_def)

lemma one_account_json:
  "login_json plain_writer [1] [1] = Inr [1]" "json_agree plain_writer (the_json pipe_deps) [1] [1]"
  "length [1 :: byte] \<le> 1000" "json_parse (the_json pipe_deps) [1] = Inr [1]"
  "json_at (the_json pipe_deps) ''email'' [1] = Inr [1]" "json_at (the_json pipe_deps) ''password'' [1] = Inr [1]"
  by (simp_all add: json_agree_def login_json_def plain_writer_def pipe_deps_def plain_json_def)

lemma pipe_deps_contracts:
  "stream_contract (the_asio pipe_deps) outgoing incoming opened" "connection_contract (the_asio pipe_deps) outgoing opened"
  using pipe_contract pipe_connection by simp_all

definition waiting_client :: "byte list \<Rightarrow> (pipe, nat) SocketBase" where
  "waiting_client bs = idle_pipe\<lparr>socket := \<lparr>incoming = bs, outgoing = [], opened = True\<rparr>\<rparr>"

lemma pairing_end_to_end_witness:
  "\<exists>ls w' b. server_trace pipe_deps one_account ls w' \<and> bridges w' = [b]
    \<and> outgoing (peer_two b) = frame ACK [] @ frame ACK []
    \<and> session_input 1 ls = outgoing (socket (snd (seqE (login plain_writer pipe_ops [1] [1])
        (findOtherClient pipe_ops (str ''test'')) (waiting_client (frame ACK [] @ frame ACK [])))))"
proof -
  let ?s = "waiting_client (frame ACK [] @ frame ID (str ''test'') @ frame START_STREAM [] @ [])"
    and ?v = "waiting_client (frame ACK [] @ frame ACK [] @ [])"
  have clients: "opened (socket ?s)" "opened (socket ?v)" "in_time (\<lambda>i. 0) 5 1"
    "incoming (socket ?s) = frame ACK [] @ frame ID (str ''test'') @ frame START_STREAM [] @ []"
    "incoming (socket ?v) = frame ACK [] @ frame ACK [] @ []"
    by (simp_all add: waiting_client_def in_time_def ns_per_second_def signed_divide_int_def del: str_simps)
  have idle: "opened idle_stream" "outgoing idle_stream = []" "outgoing (socket ?v) = []"
    by (simp_all add: idle_stream_def waiting_client_def)
  from pairing_end_to_end [OF pipe_deps_contracts idle(1,1) one_account_init one_account_credentials one_account_credentials
      one_account_json(1-3,1-3) pipe_contract clients(1-5)]
  obtain ls w' b vsb' where "server_trace pipe_deps one_account ls w'" "bridges w' = [b]"
    "outgoing (peer_two b) = outgoing idle_stream @ frame ACK [] @ frame ACK []"
    "seqE (login plain_writer pipe_ops [1] [1]) (findOtherClient pipe_ops (str ''test'')) ?v = (Inr True, vsb')"
    "outgoing (socket vsb') = outgoing (socket ?v) @ session_input 1 ls"
    by blast
  with idle(2,3) show ?thesis
    by (intro exI [of _ ls] exI [of _ w'] exI [of _ b]) (simp del: str_simps)
qed

text \<open>The world after these steps: one bridge between two open streams.\<close>

lemma bridged_world:
  obtains w b where "reach server_init (server_step pipe_deps) w" "bridges w = [b]" "in_flight b = [Upstream, Downstream]"
    "opened (peer_one b)" "opened (peer_two b)"
proof -
  have idle: "opened idle_stream"
    by (simp add: idle_stream_def)
  obtain ls w b where "server_trace pipe_deps one_account ls w" "bridges w = [b]" "opened (peer_one b)" "opened (peer_two b)"
    "in_flight b = [Upstream, Downstream]"
    by (rule server_pairs [OF pipe_deps_contracts idle idle one_account_init one_account_json(4-6) one_account_credentials
        one_account_json(3-6) one_account_credentials one_account_json(3)]) iprover
  moreover from this(1) have "reach server_init (server_step pipe_deps) w"
    by (rule trace_reach) (intro reach_init one_account_init)
  ultimately show ?thesis
    by (intro that)
qed


end
