(* ===== verification/Handler_Invariants.thy ===== *)
theory Handler_Invariants
  imports Server_Safety
begin

text \<open>
  The invariance rule for predicates that look at little of the world: the locales below have
  the updates that handlers make as assumptions, and show once for all that every operation
  of the sessions, every completion of a read and the accept handler keep such a predicate.
\<close>

section \<open>Predicates kept by the requests\<close>

text \<open>What the accept handler does between clearing and setting the flag.\<close>

definition try_start :: "'s asio \<Rightarrow> session_class \<Rightarrow> error_code option \<Rightarrow> 's \<Rightarrow> (exn, 's world, unit) eff" where
  "try_start ops c error s = (case error of Some _ \<Rightarrow> ret () | None \<Rightarrow> catchE (create_and_start ops c s)
     (\<lambda>e. if is_std_exception e then ret () else throw e))"

lemma accept_done_try:
  "accept_done ops c error s w = bindE (try_start ops c error s) (\<lambda>_. acceptNewConnection c)
     (w\<lparr>accepting := (accepting w)(c := False)\<rparr>)"
  by (simp add: accept_done_def try_start_def seqE_def bindE_def modify_def)

text \<open>A predicate on worlds that looks at no session, except that it may count on one being gone.\<close>

locale kept_by_sockets =
  fixes P :: "'s world \<Rightarrow> bool"
  assumes sessions_free: "P w \<Longrightarrow> dom S \<subseteq> dom (sessions w) \<Longrightarrow> P (w\<lparr>sessions := S\<rparr>)"
begin

lemma kept_session: "keeps P (on_session i m)"
  by (rule keepsI) (auto simp: on_session_def intro!: sessions_free split: option.splits prod.splits if_splits)

text \<open>A completion keeps the predicate if the handler does on the message that was read.\<close>

lemma kept_read_done_if:
  assumes w: "P w" and run: "\<And>s h hr rs. sessions w i = Some s \<Longrightarrow> reads (base s) = BodyRead h hr # rs \<Longrightarrow> ec = None \<Longrightarrow>
    P (snd (run_handler D I i (session_class s) h
        \<lparr>msg_type = hdr_type hr, content = take (length bytes) (overwrite (data_buffer (base s)) bytes)\<rparr>
        (w\<lparr>sessions := (sessions w)(i \<mapsto> s\<lparr>base := (base s)\<lparr>reads := rs,
           data_buffer := overwrite (data_buffer (base s)) bytes\<rparr>\<rparr>)\<rparr>)))"
  shows "P (snd (read_done D I i ec bytes w))"
proof (cases "sessions w i")
  case None
  with w show ?thesis
    by (simp add: read_done_def)
next
  case (Some s)
  show ?thesis
  proof (cases "reads (base s)")
    case Nil
    with w Some show ?thesis
      by (simp add: read_done_def)
  next
    case (Cons r rs)
    show ?thesis
    proof (cases r)
      case (HeaderRead h mx)
      with w Some Cons show ?thesis
        by (auto simp: read_done_def intro!: keepsD [OF kept_session])
    next
      case (BodyRead h hr)
      let ?data = "overwrite (data_buffer (base s)) bytes"
      let ?w = "w\<lparr>sessions := (sessions w)(i \<mapsto> s\<lparr>base := (base s)\<lparr>reads := rs, data_buffer := ?data\<rparr>\<rparr>)\<rparr>"
      let ?k = "run_handler D I i (session_class s) h \<lparr>msg_type = hdr_type hr, content = take (length bytes) ?data\<rparr>"
      have "P (snd (catchE ?k (\<lambda>e. if is_std_exception e
          then on_session i (safeDisconnect (the_asio D) (Some (what (the_lib D) e))) else throw e) ?w))" if "ec = None"
      proof -
        obtain r t where k: "?k ?w = (r, t)"
          by fastforce
        then have "P t"
          using run [OF Some Cons [unfolded BodyRead] that] by simp
        with k show ?thesis
          by (cases r) (auto simp: catchE_def throw_def intro!: keepsD [OF kept_session])
      qed
      moreover have "P ?w"
        by (rule sessions_free [OF w]) (use Some in auto)
      ultimately show ?thesis
        using Some Cons BodyRead
        by (cases ec) (simp_all add: read_done_def seqE_def bindE_def on_session_def pop_read_def modify_def
          asyncReadMessageImpl_handler_def catchE_def gets_def ret_def session_buffer_def)
    qed
  qed
qed

end

fun request_line :: "log_line \<Rightarrow> bool" where
  "request_line (AuthenticationFailed i) \<longleftrightarrow> True"
| "request_line (RegisteredStreamer i code) \<longleftrightarrow> True"
| "request_line line \<longleftrightarrow> False"

text \<open>
  A predicate on worlds that does not look at the registry or the accounts either, nor at the
  lines of refused logins and registrations, and allows a new bridge with its line.
\<close>

locale kept_by_requests = kept_by_sockets P for P :: "'s world \<Rightarrow> bool" +
  assumes new_session_free: "P w \<Longrightarrow>
      P (w\<lparr>sessions := (sessions w)(next_session w \<mapsto> s), next_session := Suc (next_session w)\<rparr>)"
    and registry_free: "P w \<Longrightarrow> P (w\<lparr>registry := m\<rparr>)"
    and users_free: "P w \<Longrightarrow> P (w\<lparr>users := t\<rparr>)"
    and log_free: "P w \<Longrightarrow> request_line line \<Longrightarrow> P (w\<lparr>log := log w @ [line]\<rparr>)"
    and new_bridge_ok: "P w \<Longrightarrow> sessions w j = Some s \<Longrightarrow> sessions w i = Some v \<Longrightarrow> new_bridge ops one two = Inr b \<Longrightarrow>
      P (w\<lparr>sessions := (sessions w)(j := None, i := None), bridges := bridges w @ [snd (start_bridge b)],
           log := log w @ [BridgeCreated j i]\<rparr>)"
begin

lemma kept_zoom:
  "keeps P (zoom registry (\<lambda>m w. w\<lparr>registry := m\<rparr>) k)"
  "keeps P (zoom users (\<lambda>t w. w\<lparr>users := t\<rparr>) k')"
  by (auto simp: keeps_def zoom_def intro: registry_free users_free split: prod.splits)

lemma kept_log: "request_line line \<Longrightarrow> keeps P (log_info line)"
  by (simp add: keeps_def log_info_def modify_def log_free)

lemma kept_make_bridge: "keeps P (make_bridge ops j i)"
proof (rule keepsI)
  have "P (w\<lparr>sessions := (sessions w)(j := None, i := None)\<rparr>)" if "P w" for w
    by (rule sessions_free [OF that]) auto
  then show "P w \<Longrightarrow> P (snd (make_bridge ops j i w))" for w
    by (auto simp: make_bridge_def Let_def intro: new_bridge_ok split: option.splits sum.splits)
qed

lemmas kept_intros = keeps_intros kept_session kept_zoom kept_log kept_make_bridge

lemma kept_schedule: "keeps P (scheduleNewAsyncRead i)"
  unfolding scheduleNewAsyncRead_def by (rule kept_session)

lemma kept_createBridge: "keeps P (createBridgeWithStreamer ops i code)"
proof -
  have "keeps P (case r of None \<Rightarrow> ret False
      | Some j \<Rightarrow> seqE (on_session i (sendACK ops))
          (seqE (on_session j (send ops \<lparr>msg_type = START_STREAM, content = []\<rparr>))
            (seqE (make_bridge ops j i) (ret True))))" for r
    by (cases r) (simp_all, (intro kept_intros)+)
  then show ?thesis
    unfolding createBridgeWithStreamer_def by (intro kept_intros)
qed

lemma kept_answer: "keeps P (AuthenticatedSession_handleRead D i m)"
  unfolding AuthenticatedSession_handleRead_def by (intro kept_intros kept_schedule)

lemma kept_proxy: "keeps P (ProxySession_handleRead D I i m)"
  unfolding ProxySession_handleRead_eq
  by (cases "msg_type m") (simp_all only: MessageType.case, (intro kept_intros kept_schedule kept_createBridge; simp)+)

lemma kept_handleRead: "keeps P (run_handler D I i c HandleRead m)"
  by (cases c) (simp_all add: run_handler_def kept_answer kept_proxy)

lemma kept_authenticate: "keeps P (authenticate D I m)"
  unfolding authenticate_def by (intro kept_intros)

lemma kept_create_and_start: "keeps P (create_and_start ops c s)"
proof -
  have "keeps P (start_session ops i)" for i
    unfolding start_session_def by (intro kept_intros)
  then show ?thesis
    using new_session_free by (auto simp: create_and_start_def Let_def keeps_def split: sum.splits)
qed

lemma kept_try_start: "keeps P (try_start ops c error s)"
  unfolding try_start_def by (cases error) (simp_all, (intro keeps_intros kept_create_and_start)+)

end

section \<open>Predicates kept by logins too\<close>

locale kept_by_handlers = kept_by_requests P for P :: "'s world \<Rightarrow> bool" +
  assumes login_free: "P w \<Longrightarrow> P (w\<lparr>log := log w @ [ConnectionAuthenticated i]\<rparr>)"
begin

lemma kept_run_handler: "keeps P (run_handler D I i c h m)"
proof (cases h)
  case AuthenticateCallback
  have "keeps P (log_info (ConnectionAuthenticated i))"
    by (simp add: keeps_def log_info_def modify_def login_free)
  moreover have "keeps P (log_info (AuthenticationFailed i))"
    by (simp add: kept_log)
  ultimately have "keeps P (authenticateCallback D I i m)"
    unfolding authenticateCallback_def by (intro keeps_intros kept_session kept_schedule kept_authenticate)
  with AuthenticateCallback show ?thesis
    by (simp add: run_handler_def)
qed (simp add: kept_handleRead)

lemma kept_read_done: "keeps P (read_done D I i ec bytes)"
  by (intro keepsI kept_read_done_if keepsD [OF kept_run_handler] sessions_free) auto

end

end
