(* ===== verification/Authorization.thy ===== *)
theory Authorization
  imports Pairing Handler_Invariants
begin

text \<open>
  Who counts as authenticated: only a session that sent, as its first message, the email of an
  account and a password that BCrypt validates against the stored hash. Together with the
  invariant of \<open>Server_Safety\<close> this says who can be served, registered or bridged at all.
\<close>

section \<open>What a session has to send\<close>

definition presents_credentials :: "('s, 'j, 'r) deps \<Rightarrow> 's world \<Rightarrow> cstring \<Rightarrow> bool" where
  "presents_credentials D w payload \<longleftrightarrow> (\<exists>j email password.
     json_parse (the_json D) payload = Inr j \<and> json_at (the_json D) ''email'' j = Inr email
     \<and> json_at (the_json D) ''password'' j = Inr password \<and> credentials_ok D w email password)"

lemma presents_credentials_cong:
  "users w' = users w \<Longrightarrow> users_manager_alive w' = users_manager_alive w \<Longrightarrow>
     presents_credentials D w' payload = presents_credentials D w payload"
  by (simp add: presents_credentials_def credentials_ok_def)

lemma authenticate_true:
  assumes "authenticate D I m w = (Inr True, t)"
  shows "presents_credentials D w (content m)"
proof -
  obtain j email password where json: "json_parse (the_json D) (content m) = Inr j"
    "json_at (the_json D) ''email'' j = Inr email" "json_at (the_json D) ''password'' j = Inr password"
    using assms by (auto simp: authenticate_def or_json_def bindE_def lift_sum_def split: sum.splits)
  with assms have "users_manager_alive w" "fst (authenticate_user (the_bcrypt D) (db_fault I) email password (users w)) = Inr True"
    by (auto simp: authenticate_def or_json_def bindE_def lift_sum_def gets_def zoom_def ret_def split: prod.splits if_splits)
  moreover from this(2) have "\<exists>hash. users w email = Some hash \<and> validatePassword (the_bcrypt D) password hash"
    by (cases "users w email"; cases "db_fault I") (auto simp: authenticate_user_def GET_PASSWORD_HASH_def)
  ultimately show ?thesis
    using json by (auto simp: presents_credentials_def credentials_ok_def)
qed

section \<open>Who becomes authenticated\<close>

text \<open>No request, no accepted connection, no bridge and no sweep authenticates anybody.\<close>

definition authenticated_within :: "nat set \<Rightarrow> 's world \<Rightarrow> bool" where
  "authenticated_within A w \<longleftrightarrow> (\<forall>k. authenticated w k \<longrightarrow> k \<in> A)"

lemma authenticated_simps [simp]:
  "authenticated (w\<lparr>sessions := S\<rparr>) k = authenticated w k" "authenticated (w\<lparr>registry := m\<rparr>) k = authenticated w k"
  "authenticated (w\<lparr>users := t\<rparr>) k = authenticated w k" "authenticated (w\<lparr>accepting := a\<rparr>) k = authenticated w k"
  "authenticated (w\<lparr>next_session := n\<rparr>) k = authenticated w k" "authenticated (w\<lparr>bridges := bs\<rparr>) k = authenticated w k"
  "authenticated (collect w) k = authenticated w k"
  "authenticated (w\<lparr>log := log w @ [l]\<rparr>) k \<longleftrightarrow> authenticated w k \<or> l = ConnectionAuthenticated k"
  by (auto simp: authenticated_def collect_def)

interpretation within: kept_by_requests "authenticated_within A" for A
proof unfold_locales
  show "authenticated_within A (w\<lparr>log := log w @ [line]\<rparr>)"
    if "authenticated_within A w" "request_line line" for w :: "'a world" and line
    using that by (cases line) (simp_all add: authenticated_within_def)
  show "authenticated_within A (w\<lparr>sessions := (sessions w)(j := None, i := None),
      bridges := bridges w @ [snd (start_bridge b)], log := log w @ [BridgeCreated j i]\<rparr>)"
    if "authenticated_within A w" for w :: "'a world" and b j i
    using that by (auto simp: authenticated_within_def authenticated_def)
qed (simp_all add: authenticated_within_def)

lemma login_authenticates:
  assumes w: "authenticated_within A w" and ok: "msg_type m = LOGIN \<Longrightarrow> presents_credentials D w (content m) \<Longrightarrow> i \<in> A"
  shows "authenticated_within A (snd (authenticateCallback D I i m w))"
proof (cases "msg_type m = LOGIN")
  case False
  then show ?thesis
    using keepsD [OF within.kept_session w] by (simp add: authenticateCallback_def)
next
  case True
  obtain r t where asked: "authenticate D I m w = (r, t)"
    by fastforce
  have t: "authenticated_within A t"
    using keepsD [OF within.kept_authenticate w, of D I m] asked by simp
  have refuse: "keeps (authenticated_within A) (seqE (log_info (AuthenticationFailed i)) (on_session i (sendNACK (the_asio D))))"
    by (intro keeps_intros within.kept_session within.kept_log) simp
  have answer: "keeps (authenticated_within A) (seqE (on_session i (sendACK (the_asio D))) (scheduleNewAsyncRead i))"
    by (intro keeps_intros within.kept_session within.kept_schedule)
  have logged: "log_info (ConnectionAuthenticated i) t = (Inr (), t\<lparr>log := log t @ [ConnectionAuthenticated i]\<rparr>)"
    by (simp add: log_info_def modify_def)
  have "authenticated_within A (t\<lparr>log := log t @ [ConnectionAuthenticated i]\<rparr>)" if "i \<in> A"
    using t that by (simp add: authenticated_within_def)
  then have accept: "authenticated_within A (snd (seqE (log_info (ConnectionAuthenticated i))
      (seqE (on_session i (sendACK (the_asio D))) (scheduleNewAsyncRead i)) t))" if "i \<in> A"
    using that keepsD [OF answer] by (simp only: seqE_step(1) [of "log_info (ConnectionAuthenticated i)" t, OF logged])
  show ?thesis
  proof (cases r)
    case (Inl e)
    with asked t True show ?thesis
      by (simp add: authenticateCallback_def bindE_step(2))
  next
    case (Inr accepted)
    show ?thesis
    proof (cases accepted)
      case True
      then have "i \<in> A"
        using ok [OF \<open>msg_type m = LOGIN\<close>] asked Inr authenticate_true [of D I m w t] by simp
      with accept asked Inr True \<open>msg_type m = LOGIN\<close> show ?thesis
        by (simp only: authenticateCallback_def bindE_step(1) if_True if_False simp_thms)
    next
      case False
      with keepsD [OF refuse t] asked Inr \<open>msg_type m = LOGIN\<close> show ?thesis
        by (simp only: authenticateCallback_def bindE_step(1) if_True if_False simp_thms)
    qed
  qed
qed

text \<open>The event that authenticates session \<open>i\<close>: the content of a login arrives.\<close>

definition login_arrives :: "('s, 'j, 'r) deps \<Rightarrow> 's world \<Rightarrow> nat \<Rightarrow> cstring \<Rightarrow> bool" where
  "login_arrives D w i payload \<longleftrightarrow> (\<exists>s hr rs. sessions w i = Some s \<and> reads (base s) = BodyRead AuthenticateCallback hr # rs
     \<and> hdr_type hr = LOGIN) \<and> presents_credentials D w payload"

lemma read_authenticates:
  assumes w: "authenticated_within A w" and ok: "ec = None \<Longrightarrow> login_arrives D w i bytes \<Longrightarrow> i \<in> A"
  shows "authenticated_within A (snd (read_done D I i ec bytes w))"
proof (rule within.kept_read_done_if [OF w])
  fix s h hr rs
  assume s: "sessions w i = Some s" "reads (base s) = BodyRead h hr # rs" "ec = None"
  let ?data = "overwrite (data_buffer (base s)) bytes"
  let ?w = "w\<lparr>sessions := (sessions w)(i \<mapsto> s\<lparr>base := (base s)\<lparr>reads := rs, data_buffer := ?data\<rparr>\<rparr>)\<rparr>"
  let ?m = "\<lparr>msg_type = hdr_type hr, content = take (length bytes) ?data\<rparr>"
  have w1: "authenticated_within A ?w"
    using w by (simp add: authenticated_within_def)
  show "authenticated_within A (snd (run_handler D I i (session_class s) h ?m ?w))"
  proof (cases h)
    case HandleRead
    then show ?thesis
      using keepsD [OF within.kept_handleRead w1] by simp
  next
    case AuthenticateCallback
    have "i \<in> A" if "msg_type ?m = LOGIN" "presents_credentials D ?w (content ?m)"
      using ok that s AuthenticateCallback presents_credentials_cong [of ?w w D bytes] by (auto simp: login_arrives_def)
    from login_authenticates [OF w1 this] AuthenticateCallback show ?thesis
      by (simp only: run_handler_def handler.case)
  qed
qed

lemma accept_authenticates:
  assumes "authenticated_within A w"
  shows "authenticated_within A (snd (accept_done ops c error s w))"
proof -
  have "keeps (authenticated_within A) (bindE (try_start ops c error s) (\<lambda>_. acceptNewConnection c))"
  proof (rule keeps_bindE [OF within.kept_try_start])
    show "keeps (authenticated_within A) (acceptNewConnection c)"
      by (simp add: keeps_def acceptNewConnection_def modify_def authenticated_within_def)
  qed
  then show ?thesis
    unfolding accept_done_try by (rule keepsD) (use assms in \<open>simp add: authenticated_within_def\<close>)
qed

lemma event_authenticates:
  assumes event: "server_event D w l r w'" and new: "authenticated w' i" "\<not> authenticated w i"
  shows "\<exists>payload. l = SessionReads i None payload \<and> login_arrives D w i payload"
proof -
  let ?A = "{k. authenticated w k}"
  have w: "authenticated_within A w" if "?A \<subseteq> A" for A
    using that by (auto simp: authenticated_within_def)
  from event show ?thesis
  proof (cases rule: server_event.cases)
    case (event_read k s rd rs bytes ec I w1)
    let ?B = "?A \<union> (if ec = None \<and> login_arrives D w k bytes then {k} else {})"
    have "authenticated_within ?B (snd (read_done D I k ec bytes w))"
      by (rule read_authenticates) (auto intro: w)
    then have "i \<in> ?B"
      using event_read new(1) by (simp add: authenticated_within_def)
    with new(2) event_read(1) show ?thesis
      by (auto split: if_splits)
  next
    case (event_accept c ec s w1)
    then have "authenticated_within ?A w1"
      using accept_authenticates [OF w [OF subset_refl], of "the_asio D" c ec s] by simp
    with event_accept new show ?thesis
      by (simp add: authenticated_within_def)
  qed (use new in \<open>auto simp: bridge_done_def split: prod.splits\<close>)
qed

lemma trace_authenticates:
  assumes "server_trace D w ls w'" and "authenticated w' i" and "\<not> authenticated w i"
  shows "\<exists>pre payload post u. ls = pre @ SessionReads i None payload # post \<and> server_trace D w pre u \<and> login_arrives D u i payload"
  using assms
proof (induction rule: server_trace.induct)
  case (trace_cons w l w1 ls w2)
  show ?case
  proof (cases "authenticated w1 i")
    case True
    from event_authenticates [OF trace_cons.hyps(1) this trace_cons.prems(2)] obtain payload where
      "l = SessionReads i None payload" "login_arrives D w i payload"
      by blast
    then have "l # ls = [] @ SessionReads i None payload # ls \<and> server_trace D w [] w \<and> login_arrives D w i payload"
      by (simp add: trace_nil)
    then show ?thesis
      by blast
  next
    case False
    from trace_cons.IH [OF trace_cons.prems(1) this] obtain pre payload post u where
      "ls = pre @ SessionReads i None payload # post" "server_trace D w1 pre u" "login_arrives D u i payload"
      by blast
    then have "l # ls = (l # pre) @ SessionReads i None payload # post \<and> server_trace D w (l # pre) u \<and> login_arrives D u i payload"
      using server_trace.trace_cons [OF trace_cons.hyps(1)] by simp
    then show ?thesis
      by blast
  qed
qed simp

section \<open>Property\<close>

text \<open>
  C3. Nobody passes for somebody without the password. Whoever is served, waits in the registry
  or sits at an end of a bridge after a run of the servers sent, earlier in this run, a login
  as the first message of the session, and when it arrived there was an account of that
  email whose stored hash the password validates against.
\<close>

theorem authenticated_by_password:
  assumes "server_init w0" and run: "server_trace D w0 ls w"
    and "i \<in> registered w \<or> BridgeCreated i k \<in> set (log w) \<or> BridgeCreated k i \<in> set (log w)
      \<or> (\<exists>s. sessions w i = Some s \<and> HandleRead \<in> handler_of ` set (reads (base s)))"
  shows "\<exists>pre payload post u j email password hash. ls = pre @ SessionReads i None payload # post
    \<and> server_trace D w0 pre u
    \<and> (\<exists>s hr. sessions u i = Some s \<and> reads (base s) = [BodyRead AuthenticateCallback hr] \<and> hdr_type hr = LOGIN)
    \<and> json_parse (the_json D) payload = Inr j \<and> json_at (the_json D) ''email'' j = Inr email
    \<and> json_at (the_json D) ''password'' j = Inr password
    \<and> users u email = Some hash \<and> validatePassword (the_bcrypt D) password hash"
proof -
  have reach: "reach server_init (server_step D) w0"
    by (rule reach_init) (rule assms(1))
  note inv = server.holds_reachable [OF trace_reach [OF _ this]]
  have "authenticated w i"
    using assms(3) world_invD(2,5) [OF inv [OF run]] world_invD(1) [OF inv [OF run], of i] by (auto simp: session_ok_def)
  moreover have "\<not> authenticated w0 i"
    using assms(1) by (auto simp: server_init_def new_world_def authenticated_def)
  ultimately obtain pre payload post u where pre: "ls = pre @ SessionReads i None payload # post" "server_trace D w0 pre u"
    and login: "login_arrives D u i payload"
    using trace_authenticates [OF run] by blast
  obtain s hr rs where s: "sessions u i = Some s" "reads (base s) = BodyRead AuthenticateCallback hr # rs" "hdr_type hr = LOGIN"
    using login unfolding login_arrives_def by blast
  have "rs = []"
    using world_invD(1) [OF inv [OF pre(2)] s(1)] s(2) by (simp add: session_ok_def object_ok_def)
  with pre s login show ?thesis
    unfolding login_arrives_def presents_credentials_def credentials_ok_def by blast
qed

lemma authenticated_by_password_witness:
  "\<exists>ls w pre payload post u hash. server_trace pipe_deps one_account ls w \<and> ls = pre @ SessionReads 0 None payload # post
     \<and> server_trace pipe_deps one_account pre u \<and> users u payload = Some hash
     \<and> validatePassword plain_bcrypt payload hash"
proof -
  have w0: "settled one_account" "accepting one_account ProxySession" "next_session one_account = 0" "opened idle_stream"
    by (simp_all add: one_account_def new_world_def settled_def idle_stream_def)
  obtain s :: "pipe session" where run: "server_trace pipe_deps one_account (ConnectionAccepted ProxySession # reads_message 0 LOGIN [1])
      (one_account\<lparr>sessions := (sessions one_account)(0 \<mapsto> s), next_session := Suc 0,
        log := log one_account @ [ConnectionAuthenticated 0]\<rparr>)" (is "server_trace _ _ ?ls ?w")
    and s: "reads (base s) = [HeaderRead HandleRead BUFFER_SIZE_t]"
    by (rule client_arrives [OF pipe_deps_contracts w0(4,1,2) one_account_json(4-6) one_account_credentials
        one_account_json(3), unfolded w0(3)])
  have "0 \<in> registered ?w \<or> BridgeCreated 0 k \<in> set (log ?w) \<or> BridgeCreated k 0 \<in> set (log ?w)
      \<or> (\<exists>s. sessions ?w 0 = Some s \<and> HandleRead \<in> handler_of ` set (reads (base s)))" for k
    using s by simp
  from authenticated_by_password [OF one_account_init run this]
  obtain pre payload post u j email password hash where pre: "?ls = pre @ SessionReads 0 None payload # post"
    "server_trace pipe_deps one_account pre u" "json_parse (the_json pipe_deps) payload = Inr j"
    "json_at (the_json pipe_deps) ''email'' j = Inr email" "json_at (the_json pipe_deps) ''password'' j = Inr password"
    "users u email = Some hash" "validatePassword (the_bcrypt pipe_deps) password hash"
    by blast
  then have "users u payload = Some hash" "validatePassword plain_bcrypt payload hash"
    by (simp_all add: pipe_deps_def plain_json_def)
  with run pre(1,2) show ?thesis
    by blast
qed

end
