(* ===== verification/Server_Process.thy ===== *)
theory Server_Process
  imports Pairing Handler_Invariants
begin

text \<open>
  The serving program as a process: the constructors of \<open>ScreenViewerSessionsServer\<close>
  (\<open>include/ScreenViewerSessionsServer.hpp\<close>) and the \<open>main\<close> of \<open>apps/ScreenViewerServer.cpp\<close>. Two
  servers run the events of their \<open>io_context\<close> until they are stopped; the cleaner and the
  accounts are shared. An exception that leaves a handler leaves \<open>run\<close> too: from the main
  thread it ends \<open>main\<close>, from the \<open>jthread\<close> it is \<open>std::terminate\<close>, so the process ends.
\<close>

section \<open>Construction\<close>

text \<open>What the constructor sets on the TLS context. The last flag is no option but a verify mode.\<close>

datatype tls_option = default_workarounds | no_sslv2 | verify_fail_flag

record server_object =
  listening_port :: "16 word"
  tls_options :: "tls_option list"
  certificate_chain :: cstring
  private_key :: cstring

text \<open>The calls that open the listening socket and load the two files, and their failures.\<close>

record server_setup =
  op_listen :: "16 word \<Rightarrow> error_code option"
  op_use_certificate_chain :: "cstring \<Rightarrow> error_code option"
  op_use_private_key :: "cstring \<Rightarrow> error_code option"

record 's server_process =
  the_world :: "'s world"
  server_objects :: "session_class \<rightharpoonup> server_object"
  stopped_servers :: "session_class \<Rightarrow> bool"
  terminated_by :: "exn option"

text \<open>\<open>operator/\<close> of \<open>std::filesystem::path\<close> with a relative name.\<close>

definition path_append :: "cstring \<Rightarrow> string \<Rightarrow> cstring" where
  "path_append dir name =
     (if dir = [] \<or> last dir = of_char CHR 0x2F then dir @ str name else dir @ str (CHR 0x2F # name))"

definition fails_with :: "error_code option \<Rightarrow> (exn, 's, unit) eff" where
  "fails_with r = (case r of None \<Rightarrow> ret () | Some ec \<Rightarrow> throw (SystemError ec))"

definition new_SessionsServer ::
  "server_setup \<Rightarrow> session_class \<Rightarrow> 16 word \<Rightarrow> cstring \<Rightarrow> (exn, 's server_process, unit) eff" where
  "new_SessionsServer S c port key_cert_dir =
     seqE (fails_with (op_listen S port))
    (seqE (fails_with (op_use_certificate_chain S (path_append key_cert_dir ''cert.pem'')))
    (seqE (fails_with (op_use_private_key S (path_append key_cert_dir ''key.pem'')))
    (seqE (modify (\<lambda>p. p\<lparr>server_objects := (server_objects p)(c \<mapsto>
             \<lparr>listening_port = port, tls_options = [default_workarounds, no_sslv2, verify_fail_flag],
              certificate_chain = path_append key_cert_dir ''cert.pem'',
              private_key = path_append key_cert_dir ''key.pem''\<rparr>)\<rparr>))
          (zoom the_world (\<lambda>w p. p\<lparr>the_world := w\<rparr>) (acceptNewConnection c)))))"

definition stop_server :: "session_class \<Rightarrow> 's server_process \<Rightarrow> 's server_process" where
  "stop_server c p = p\<lparr>stopped_servers := (stopped_servers p)(c := True)\<rparr>"

text \<open>Before the servers are constructed: nobody waits for a connection, no cleaner runs.\<close>

definition blank_process :: "user_table \<Rightarrow> 's server_process" where
  "blank_process table =
     \<lparr>the_world = \<lparr>sessions = Map.empty, next_session = 0, users = table, users_manager_alive = True,
        registry = new_manager, bridges = [], accepting = (\<lambda>c. False), log = []\<rparr>,
      server_objects = Map.empty, stopped_servers = (\<lambda>c. False), terminated_by = None\<rparr>"

definition server_main ::
  "lib \<Rightarrow> db_calls \<Rightarrow> server_setup \<Rightarrow> cstring \<Rightarrow> user_table \<Rightarrow> exn + 's server_process" where
  "server_main L C S certs_dir table =
     (case seqE (lift_sum (new_UsersManager L C (str ''localhost'') (str ''postgres'') (str ''root'') (str ''screen-viewer'') 5432))
          (seqE (new_SessionsServer S AuthenticatedSession 4321 certs_dir)
          (seqE (new_SessionsServer S ProxySession 44321 certs_dir)
                (modify (\<lambda>p. p\<lparr>the_world := (the_world p)\<lparr>registry := initCleanerThread 120 1 (registry (the_world p))\<rparr>\<rparr>))))
          (blank_process table) of
        (Inl e, p) \<Rightarrow> Inl e
      | (Inr u, p) \<Rightarrow> Inr p)"

section \<open>Running\<close>

text \<open>The server whose \<open>io_context\<close> an event belongs to; sweeps and accounts belong to none.\<close>

fun owner :: "'s world \<Rightarrow> event_label \<Rightarrow> session_class option" where
  "owner w (SessionReads i ec bytes) = map_option session_class (sessions w i)"
| "owner w (ConnectionAccepted c) = Some c"
| "owner w (BridgeReads k ev) = Some ProxySession"
| "owner w CleanerSweeps = None"
| "owner w UserAdded = None"

definition is_stopped :: "'s server_process \<Rightarrow> event_label \<Rightarrow> bool" where
  "is_stopped p l = (case owner (the_world p) l of None \<Rightarrow> False | Some c \<Rightarrow> stopped_servers p c)"

definition outcome :: "exn + unit \<Rightarrow> exn option" where
  "outcome r = (case r of Inl e \<Rightarrow> Some e | Inr u \<Rightarrow> None)"

inductive server_runs :: "('s, 'j, 'r) deps \<Rightarrow> 's server_process \<Rightarrow> event_label \<Rightarrow> 's server_process \<Rightarrow> bool" for D where
  runs: "terminated_by p = None \<Longrightarrow> \<not> is_stopped p l \<Longrightarrow> server_event D (the_world p) l r w' \<Longrightarrow>
    server_runs D p l (p\<lparr>the_world := w', terminated_by := outcome r\<rparr>)"

inductive_simps server_runs_iff: "server_runs D p l p'"

definition serving :: "'s server_process \<Rightarrow> bool" where
  "serving p \<longleftrightarrow> (\<exists>L C S dir table. server_main L C S dir table = Inr p)"

definition process_event :: "('s, 'j, 'r) deps \<Rightarrow> 's server_process \<Rightarrow> 's server_process \<Rightarrow> bool" where
  "process_event D p p' \<longleftrightarrow> (\<exists>l. server_runs D p l p')"

section \<open>What \<open>main\<close> sets up\<close>

lemma new_SessionsServer_eq:
  "new_SessionsServer S c port dir p =
     (case (op_listen S port, op_use_certificate_chain S (path_append dir ''cert.pem''),
            op_use_private_key S (path_append dir ''key.pem'')) of
        (None, None, None) \<Rightarrow> (Inr (), p\<lparr>server_objects := (server_objects p)(c \<mapsto>
             \<lparr>listening_port = port, tls_options = [default_workarounds, no_sslv2, verify_fail_flag],
              certificate_chain = path_append dir ''cert.pem'', private_key = path_append dir ''key.pem''\<rparr>),
            the_world := (the_world p)\<lparr>accepting := (accepting (the_world p))(c := True)\<rparr>\<rparr>)
      | (Some ec, _, _) \<Rightarrow> (Inl (SystemError ec), p)
      | (None, Some ec, _) \<Rightarrow> (Inl (SystemError ec), p)
      | (None, None, Some ec) \<Rightarrow> (Inl (SystemError ec), p))"
  by (simp add: new_SessionsServer_def fails_with_def seqE_def bindE_def ret_def throw_def modify_def zoom_def
    acceptNewConnection_def split: option.splits)

lemma server_main_world:
  assumes "server_main L C S dir table = Inr p"
  shows "the_world p = new_world table 120 1" "terminated_by p = None" "stopped_servers p = (\<lambda>c. False)"
proof -
  have "the_world p = new_world table 120 1 \<and> terminated_by p = None \<and> stopped_servers p = (\<lambda>c. False)"
    using assms by (auto simp: server_main_def seqE_def bindE_def lift_sum_def modify_def new_SessionsServer_eq blank_process_def
      new_world_def fun_eq_iff split: sum.splits option.splits prod.splits) (metis session_class.exhaust)+
  then show "the_world p = new_world table 120 1" "terminated_by p = None" "stopped_servers p = (\<lambda>c. False)"
    by simp_all
qed

lemma serving_world:
  assumes "serving p"
  shows "server_init (the_world p)" "terminated_by p = None" "stopped_servers p = (\<lambda>c. False)"
  using assms server_main_world unfolding serving_def server_init_def by blast+

lemma process_event_world: "process_event D p p' \<Longrightarrow> server_step D (the_world p) (the_world p')"
  unfolding process_event_def server_runs_iff server_step_def by fastforce

lemma process_world_reachable:
  "reach serving (process_event D) p \<Longrightarrow> reach server_init (server_step D) (the_world p)"
proof (induction rule: reach.induct)
  case (reach_init p)
  then show ?case
    by (intro reach.reach_init serving_world)
next
  case (reach_step p p')
  from reach_step.IH process_event_world [OF reach_step.hyps(2)] show ?case
    by (rule reach.reach_step)
qed

section \<open>Bridges in every reachable state\<close>

text \<open>One read per direction, both buffers at full size, one line of the log for each bridge.\<close>

fun is_bridge_line :: "log_line \<Rightarrow> bool" where
  "is_bridge_line (BridgeCreated j i) \<longleftrightarrow> True"
| "is_bridge_line line \<longleftrightarrow> False"

definition bridge_sound :: "'s bridge \<Rightarrow> bool" where
  "bridge_sound b \<longleftrightarrow> distinct (in_flight b) \<and> length (server_buffer b) = MAX_DATA_LENGTH
     \<and> length (client_buffer b) = MAX_DATA_LENGTH"

definition bridges_sound :: "'s world \<Rightarrow> bool" where
  "bridges_sound w \<longleftrightarrow> (\<forall>b \<in> set (bridges w). bridge_sound b)
     \<and> length (bridges w) = length (filter is_bridge_line (log w))"

lemma bridges_sound_updates [simp]:
  "bridges_sound (w\<lparr>sessions := S\<rparr>) = bridges_sound w" "bridges_sound (w\<lparr>registry := m\<rparr>) = bridges_sound w"
  "bridges_sound (w\<lparr>users := t\<rparr>) = bridges_sound w" "bridges_sound (w\<lparr>accepting := a\<rparr>) = bridges_sound w"
  "bridges_sound (w\<lparr>next_session := n\<rparr>) = bridges_sound w" "bridges_sound (collect w) = bridges_sound w"
  by (simp_all add: bridges_sound_def collect_def)

lemma new_bridge_sound: "new_bridge ops s t = Inr b \<Longrightarrow> bridge_sound (snd (start_bridge b))"
  by (auto simp: new_bridge_def start_bridge_def start_read_def eff bridge_sound_def split: sum.splits)

interpretation bridges_kept: kept_by_handlers bridges_sound
  by unfold_locales (auto simp: bridges_sound_def new_bridge_sound elim: request_line.elims)

text \<open>The accept loop sets and clears its flag, the rest does not look at it.\<close>

interpretation accepting_kept: kept_by_handlers "\<lambda>w. accepting w = a" for a
  by unfold_locales auto

lemma accept_done_bridges:
  assumes "bridges_sound w"
  shows "bridges_sound (snd (accept_done ops c error s w))"
proof -
  have "keeps bridges_sound (bindE (try_start ops c error s) (\<lambda>_. acceptNewConnection c))"
  proof (rule keeps_bindE)
    show "keeps bridges_sound (try_start ops c error s)"
      by (rule bridges_kept.kept_try_start)
    show "keeps bridges_sound (acceptNewConnection c)"
      by (simp add: keeps_def acceptNewConnection_def modify_def)
  qed
  then show ?thesis
    unfolding accept_done_try by (rule keepsD) (simp add: assms)
qed

lemma accept_done_accepting:
  assumes "accept_done ops c error s w = (Inr (), w')"
  shows "accepting w' = (accepting w)(c := True)"
proof -
  let ?a = "(accepting w)(c := False)"
  have "keeps (\<lambda>w. accepting w = ?a) (try_start ops c error s)"
    by (rule accepting_kept.kept_try_start)
  then have "accepting (snd (try_start ops c error s (w\<lparr>accepting := ?a\<rparr>))) = ?a"
    by (rule keepsD) simp
  with assms show ?thesis
    by (auto simp: accept_done_try acceptNewConnection_def bindE_def modify_def split: prod.splits sum.splits)
qed

lemma bridge_event_sound:
  assumes "bridge_sound b" and "bridge_event_handler ops (ReadDone d ec bytes) b = (r, b')"
    and "length bytes \<le> MAX_DATA_LENGTH"
  shows "bridge_sound b'"
proof -
  have "distinct (in_flight b')"
    using assms bridge_event_distinct [of b ops "ReadDone d ec bytes"] by (simp add: bridge_sound_def)
  moreover have "length (server_buffer b') = MAX_DATA_LENGTH \<and> length (client_buffer b') = MAX_DATA_LENGTH"
  proof (cases d)
    case Upstream
    with assms handlers_buffers(1,2) [of ops ec "length bytes"
        "b\<lparr>in_flight := remove1 d (in_flight b), client_buffer := overwrite (client_buffer b) bytes\<rparr>"]
    show ?thesis
      by (auto simp: bridge_sound_def split: if_splits)
  next
    case Downstream
    with assms handlers_buffers(3,4) [of ops ec "length bytes"
        "b\<lparr>in_flight := remove1 d (in_flight b), server_buffer := overwrite (server_buffer b) bytes\<rparr>"]
    show ?thesis
      by (auto simp: bridge_sound_def split: if_splits)
  qed
  ultimately show ?thesis
    by (simp add: bridge_sound_def)
qed

lemma bridges_sound_event:
  assumes "bridges_sound w" and "server_event D w l r w'"
  shows "bridges_sound w'"
  using assms(2)
proof (cases rule: server_event.cases)
  case (event_read i s rd rs bytes ec I w1)
  then show ?thesis
    using keepsD [OF bridges_kept.kept_read_done assms(1), of D I i ec bytes] by simp
next
  case (event_accept c ec s w1)
  then show ?thesis
    using accept_done_bridges [OF assms(1), of "the_asio D" c ec s] by simp
next
  case (event_bridge k d bytes ec)
  then obtain b' where b': "bridge_event_handler (the_asio D) (ReadDone d ec bytes) (bridges w ! k) = (r, b')"
    "w' = w\<lparr>bridges := (bridges w)[k := b']\<rparr>"
    by (auto simp: bridge_done_def split: prod.splits)
  have "bridge_sound (bridges w ! k)"
    using assms(1) event_bridge by (simp add: bridges_sound_def)
  then have "bridge_sound b'"
    by (rule bridge_event_sound [OF _ b'(1)]) (use event_bridge in simp)
  then show ?thesis
    using assms(1) b'(2) set_update_subset_insert [of "bridges w" k b'] by (auto simp: bridges_sound_def)
next
  case event_cleaner
  with assms(1) show ?thesis
    by simp
next
  case event_user
  with assms(1) show ?thesis
    by simp
qed

interpretation bridges: inductive_invariant server_init "server_step D" bridges_sound for D
proof unfold_locales
  show "bridges_sound w" if "server_init w" for w :: "'a world"
    using that by (auto simp: server_init_def bridges_sound_def)
  show "bridges_sound w'" if "bridges_sound w" "server_step D w w'" for w w' :: "'a world"
    using that bridges_sound_event unfolding server_step_def by blast
qed

text \<open>Both servers wait for connections, as no exception leaves the accept handler.\<close>

definition all_accept :: "'s world \<Rightarrow> bool" where
  "all_accept w \<longleftrightarrow> world_inv w \<and> accepting w = (\<lambda>c. True)"

interpretation accepts: inductive_invariant server_init "server_step D" all_accept for D
proof unfold_locales
  show "all_accept w" if "server_init w" for w :: "'a world"
    using that inv_init [OF that] by (auto simp: server_init_def all_accept_def new_world_def)
  show "all_accept w'" if w: "all_accept w" and step: "server_step D w w'" for w w' :: "'a world"
  proof -
    obtain l r where event: "server_event D w l r w'"
      using step by (auto simp: server_step_def)
    have same: "accepting (collect u) = accepting u" for u :: "'a world"
      by (simp add: collect_def)
    from event have "accepting w' = (\<lambda>c. True)"
    proof (cases rule: server_event.cases)
      case (event_read i s rd rs bytes ec I w1)
      then show ?thesis
        using keepsD [OF accepting_kept.kept_read_done, of w _ D I i ec bytes] w by (simp add: all_accept_def same)
    next
      case (event_accept c ec s w1)
      moreover from w have "\<exists>t. accept_done (the_asio D) c ec s w = (Inr (), t)"
        by (intro accept_done_returns) (simp add: all_accept_def)
      ultimately show ?thesis
        using accept_done_accepting [of "the_asio D" c ec s w w1] w by (auto simp: all_accept_def same)
    qed (use w in \<open>auto simp: all_accept_def same bridge_done_def split: prod.splits\<close>)
    with inv_event [OF _ event] w show ?thesis
      by (simp add: all_accept_def)
  qed
qed

section \<open>Properties\<close>

text \<open>
  C17. The bridges of a running server are sound in every reachable state of the process: each
  has both buffers at full size, so that no read overruns them, and at most one read in flight
  in each direction, so that nothing overwrites what is being relayed; and there is one
  bridge for each pairing, whose two sessions were authenticated.
\<close>

theorem process_bridges_sound:
  assumes "reach serving (process_event D) p"
  shows "(\<forall>b \<in> set (bridges (the_world p)). distinct (in_flight b)
      \<and> length (server_buffer b) = MAX_DATA_LENGTH \<and> length (client_buffer b) = MAX_DATA_LENGTH)
    \<and> length (bridges (the_world p)) = length (filter is_bridge_line (log (the_world p)))
    \<and> (\<forall>i j. BridgeCreated j i \<in> set (log (the_world p)) \<longrightarrow> i \<noteq> j
         \<and> ConnectionAuthenticated i \<in> set (log (the_world p)) \<and> ConnectionAuthenticated j \<in> set (log (the_world p)))"
proof -
  have w: "reach server_init (server_step D) (the_world p)"
    by (rule process_world_reachable [OF assms])
  have "bridges_sound (the_world p)" and inv: "world_inv (the_world p)"
    using bridges.holds_reachable [OF w] server.holds_reachable [OF w] by blast+
  then show ?thesis
    using world_invD(5) [OF inv] by (simp add: bridges_sound_def bridge_sound_def authenticated_def)
qed

text \<open>A database and a set of files in order.\<close>

definition good_db :: db_calls where
  "good_db = \<lparr>connect_db = (\<lambda>s. None), prepare = (\<lambda>n sql. None)\<rparr>"

definition good_files :: server_setup where
  "good_files = \<lparr>op_listen = (\<lambda>port. None), op_use_certificate_chain = (\<lambda>f. None), op_use_private_key = (\<lambda>f. None)\<rparr>"

lemma good_server:
  obtains p :: "'s server_process" where "server_main L good_db good_files dir table = Inr p" "serving p"
    "the_world p = new_world table 120 1"
    "map_option listening_port (server_objects p ProxySession) = Some 44321"
proof -
  obtain p :: "'s server_process" where p: "server_main L good_db good_files dir table = Inr p"
    "map_option listening_port (server_objects p ProxySession) = Some 44321" "the_world p = new_world table 120 1"
  proof -
    have "(\<lambda>c. False)(AuthenticatedSession := True, ProxySession := True) = (\<lambda>c. True)"
      by (auto simp: fun_eq_iff) (metis session_class.exhaust)
    then show ?thesis
      using that by (auto simp: server_main_def new_UsersManager_def good_db_def good_files_def new_SessionsServer_eq
        seqE_def bindE_def lift_sum_def modify_def blank_process_def new_world_def simp del: str_simps)
  qed
  moreover from this(1) have "serving p"
    unfolding serving_def by blast
  ultimately show ?thesis
    by (intro that)
qed

text \<open>Two clients after whose steps the process has a bridge.\<close>

lemma trace_process:
  assumes "server_trace D w ls w'" and "reach serving (process_event D) p" and "the_world p = w"
    and "terminated_by p = None" and "stopped_servers p = (\<lambda>c. False)"
  shows "\<exists>p'. reach serving (process_event D) p' \<and> the_world p' = w' \<and> terminated_by p' = None
    \<and> stopped_servers p' = (\<lambda>c. False)"
  using assms
proof (induction arbitrary: p rule: server_trace.induct)
  case (trace_nil w)
  then show ?case
    by blast
next
  case (trace_cons w l w' ls w'')
  let ?p = "p\<lparr>the_world := w', terminated_by := outcome (Inr ())\<rparr>"
  have "\<not> is_stopped p l"
    using trace_cons.prems(4) by (simp add: is_stopped_def split: option.splits)
  then have "server_runs D p l ?p"
    using trace_cons.hyps(1) trace_cons.prems by (intro runs) simp_all
  then have "process_event D p ?p"
    by (auto simp: process_event_def)
  with trace_cons.prems(1) have "reach serving (process_event D) ?p"
    by (rule reach_step)
  with trace_cons.IH [of ?p] trace_cons.prems(4) show ?case
    by (simp add: outcome_def)
qed

lemma bridged_process:
  obtains p b where "reach serving (process_event pipe_deps) p" "terminated_by p = None" "stopped_servers p = (\<lambda>c. False)"
    "bridges (the_world p) = [b]" "in_flight b = [Upstream, Downstream]" "opened (peer_one b)" "opened (peer_two b)"
proof -
  obtain p0 :: "pipe server_process" where p0: "serving p0" "the_world p0 = new_world [[1] \<mapsto> [9, 1]] 120 1"
    by (rule good_server)
  let ?w = "new_world [[1] \<mapsto> [9, 1]] 120 1 :: pipe world"
  have ok: "server_init ?w" "credentials_ok pipe_deps ?w [1] [1]" "opened idle_stream"
    by (auto simp: server_init_def credentials_ok_def pipe_deps_def plain_bcrypt_def idle_stream_def)
  obtain ls w b where run: "server_trace pipe_deps ?w ls w" and b: "bridges w = [b]" "opened (peer_one b)" "opened (peer_two b)"
    "in_flight b = [Upstream, Downstream]"
    by (rule server_pairs [OF pipe_deps_contracts ok(3,3,1) one_account_json(4-6) ok(2)
        one_account_json(3-6) ok(2) one_account_json(3)]) iprover
  have "reach serving (process_event pipe_deps) p0"
    by (rule reach_init) (rule p0(1))
  from trace_process [OF run this p0(2) serving_world(2,3) [OF p0(1)]] b show ?thesis
    by (elim exE conjE) (rule that, auto)
qed

lemma process_bridges_sound_witness:
  "\<exists>p b. reach serving (process_event pipe_deps) p \<and> bridges (the_world p) = [b]
     \<and> length (client_buffer b) = MAX_DATA_LENGTH \<and> length (filter is_bridge_line (log (the_world p))) = 1"
proof -
  obtain p b where p: "reach serving (process_event pipe_deps) p" "bridges (the_world p) = [b]"
    by (rule bridged_process)
  from process_bridges_sound [OF p(1)] p show ?thesis
    by (intro exI [of _ p] exI [of _ b]) simp
qed

text \<open>
  C16. A viewer that hangs up takes the whole server down. When a read of a bridge fails while
  its \<open>peer_two\<close> is open, \<open>close\<close> throws out of the handler, whatever the state of \<open>peer_one\<close>, and
  no handler of the bridge catches; the exception leaves \<open>run\<close> and ends the process, with all
  sessions and all other bridges, and no event happens any more. \<open>peer_two\<close> was never closed.
\<close>

theorem broken_bridge_ends_server:
  assumes "closing_contract (the_asio D)" and "terminated_by p = None" and "\<not> stopped_servers p ProxySession"
    and "k < length (bridges (the_world p))" and "d \<in> set (in_flight (bridges (the_world p) ! k))"
    and "op_is_open (the_asio D) (peer_two (bridges (the_world p) ! k))"
  shows "\<exists>p' ec'. server_runs D p (BridgeReads k (ReadDone d (Some ec) [])) p'
    \<and> terminated_by p' = Some (SystemError ec') \<and> (\<forall>l p''. \<not> server_runs D p' l p'')
    \<and> peer_two (bridges (the_world p') ! k) = peer_two (bridges (the_world p) ! k)"
proof -
  let ?b = "bridges (the_world p) ! k" and ?ev = "ReadDone d (Some ec) []"
  obtain ec' b' where hung: "bridge_event_handler (the_asio D) ?ev ?b = (Inl (SystemError ec'), b')" "peer_two b' = peer_two ?b"
    using failed_read_throws [OF assms(1,6,5)] by blast
  let ?w = "(the_world p)\<lparr>bridges := (bridges (the_world p))[k := b']\<rparr>"
  have "bridge_done (the_asio D) k ?ev (the_world p) = (Inl (SystemError ec'), ?w)"
    using hung(1) by (simp add: bridge_done_def)
  then have "server_event D (the_world p) (BridgeReads k ?ev) (Inl (SystemError ec')) ?w"
    using assms(4,5) by (intro event_bridge) simp_all
  moreover have "\<not> is_stopped p (BridgeReads k ?ev)"
    using assms(3) by (simp add: is_stopped_def)
  ultimately have "server_runs D p (BridgeReads k ?ev) (p\<lparr>the_world := ?w, terminated_by := outcome (Inl (SystemError ec'))\<rparr>)"
    using assms(2) by (intro runs)
  then show ?thesis
    using hung(2) assms(4) by (fastforce simp: outcome_def server_runs_iff)
qed

lemma broken_bridge_ends_server_witness:
  "\<exists>p p' ec'. reach serving (process_event pipe_deps) p
     \<and> server_runs pipe_deps p (BridgeReads 0 (ReadDone Upstream (Some 2) [])) p'
     \<and> terminated_by p = None \<and> terminated_by p' = Some (SystemError ec')"
proof -
  obtain p b where p: "reach serving (process_event pipe_deps) p" "terminated_by p = None" "stopped_servers p = (\<lambda>c. False)"
    "bridges (the_world p) = [b]" "in_flight b = [Upstream, Downstream]" "opened (peer_one b)" "opened (peer_two b)"
    by (rule bridged_process)
  have "closing_contract (the_asio pipe_deps)" "\<not> stopped_servers p ProxySession" "0 < length (bridges (the_world p))"
    "Upstream \<in> set (in_flight (bridges (the_world p) ! 0))" "op_is_open (the_asio pipe_deps) (peer_two (bridges (the_world p) ! 0))"
    using pipe_closing_contract p by simp_all
  from broken_bridge_ends_server [OF this(1) p(2) this(2-5), of 2] p(1,2) show ?thesis
    by blast
qed



text \<open>After \<open>stop\<close> the events of that server do not happen any more; the others are not affected.\<close>

theorem stopped_server_idle:
  "(owner (the_world p) l = Some c \<longrightarrow> \<not> server_runs D (stop_server c p) l p')
   \<and> (owner (the_world p) l \<noteq> Some c \<longrightarrow>
        server_runs D (stop_server c p) l p' \<longleftrightarrow> (\<exists>p1. server_runs D p l p1 \<and> p' = stop_server c p1))"
proof (intro conjI impI)
  assume "owner (the_world p) l = Some c"
  then show "\<not> server_runs D (stop_server c p) l p'"
    by (simp add: server_runs_iff is_stopped_def stop_server_def)
next
  assume other: "owner (the_world p) l \<noteq> Some c"
  have same: "is_stopped (stop_server c p) l = is_stopped p l"
    using other by (simp add: is_stopped_def stop_server_def split: option.splits)
  have update: "stop_server c (p\<lparr>the_world := w', terminated_by := r\<rparr>) = (stop_server c p)\<lparr>the_world := w', terminated_by := r\<rparr>" for w' r
    by (cases p) (simp add: stop_server_def)
  have kept: "terminated_by (stop_server c p) = terminated_by p" "the_world (stop_server c p) = the_world p"
    by (simp_all add: stop_server_def)
  show "server_runs D (stop_server c p) l p' \<longleftrightarrow> (\<exists>p1. server_runs D p l p1 \<and> p' = stop_server c p1)"
    unfolding server_runs_iff same kept update [symmetric] by blast
qed

end
