(* ===== verification/Rendezvous.thy ===== *)
theory Rendezvous
  imports Server_Process
begin

text \<open>
  What the servers promise, without sessions, buffers and messages: a meeting point. Clients are
  let in, at most one of them waits to be found, and another one is paired with it. Every
  event of the servers is one step of this specification or none, whatever arrives and
  whatever fails.
\<close>

section \<open>The specification\<close>

record rendezvous =
  admitted :: "nat set"
  waiting :: "nat option"
  pairs :: "(nat \<times> nat) list"     \<comment> \<open>streamer, viewer\<close>

definition taken :: "rendezvous \<Rightarrow> nat list" where
  "taken a = concat (map (\<lambda>(j, i). [j, i]) (pairs a))"

text \<open>
  A step, with the client that causes it; the one who waits can also be dropped by nobody. A
  client that was paired takes no further step.
\<close>

inductive rendezvous_step :: "nat option \<Rightarrow> rendezvous \<Rightarrow> rendezvous \<Rightarrow> bool" where
  admit: "i \<notin> set (taken a) \<Longrightarrow> rendezvous_step (Some i) a (a\<lparr>admitted := insert i (admitted a)\<rparr>)"
| wait: "i \<in> admitted a \<Longrightarrow> i \<notin> set (taken a) \<Longrightarrow> rendezvous_step (Some i) a (a\<lparr>waiting := Some i\<rparr>)"
| pair: "waiting a = Some j \<Longrightarrow> i \<in> admitted a \<Longrightarrow> i \<notin> set (taken a) \<Longrightarrow> i \<noteq> j \<Longrightarrow>
    rendezvous_step (Some i) a (a\<lparr>waiting := None, pairs := pairs a @ [(j, i)]\<rparr>)"
| lose: "waiting a = Some j \<Longrightarrow> i \<in> admitted a \<Longrightarrow> i \<notin> set (taken a) \<Longrightarrow> i \<noteq> j \<Longrightarrow>
    rendezvous_step (Some i) a (a\<lparr>waiting := None\<rparr>)"
| expire: "rendezvous_step None a (a\<lparr>waiting := None\<rparr>)"

definition rendezvous_init :: "rendezvous \<Rightarrow> bool" where
  "rendezvous_init a \<longleftrightarrow> a = \<lparr>admitted = {}, waiting = None, pairs = []\<rparr>"

definition rendezvous_next :: "rendezvous \<Rightarrow> rendezvous \<Rightarrow> bool" where
  "rendezvous_next a a' \<longleftrightarrow> (\<exists>actor. rendezvous_step actor a a')"

text \<open>Already the specification keeps the pairs apart.\<close>

definition well_matched :: "rendezvous \<Rightarrow> bool" where
  "well_matched a \<longleftrightarrow> distinct (taken a) \<and> set (taken a) \<subseteq> admitted a
     \<and> (\<forall>j. waiting a = Some j \<longrightarrow> j \<in> admitted a \<and> j \<notin> set (taken a))"

lemma taken_simps [simp]:
  "taken (a\<lparr>admitted := A\<rparr>) = taken a" "taken (a\<lparr>waiting := x\<rparr>) = taken a"
  "taken (a\<lparr>waiting := x, pairs := pairs a @ [(j, i)]\<rparr>) = taken a @ [j, i]"
  by (simp_all add: taken_def)

interpretation meeting: inductive_invariant rendezvous_init rendezvous_next well_matched
proof unfold_locales
  show "well_matched a" if "rendezvous_init a" for a
    using that by (simp add: rendezvous_init_def well_matched_def taken_def)
  show "well_matched a'" if "well_matched a" "rendezvous_next a a'" for a a'
    using that unfolding rendezvous_next_def
    by (auto simp: well_matched_def elim!: rendezvous_step.cases)
qed

section \<open>The servers as a meeting point\<close>

definition waits :: "nat manager \<Rightarrow> nat option" where
  "waits m = (case senders_sessions m of [] \<Rightarrow> None | (code, n) # _ \<Rightarrow> Some (client_session n))"

fun paired_by :: "log_line \<Rightarrow> (nat \<times> nat) list" where
  "paired_by (BridgeCreated j i) = [(j, i)]"
| "paired_by line = []"

text \<open>What the specification sees of a world is its registry and its log.\<close>

definition core :: "'s world \<Rightarrow> nat manager \<times> log_line list" where
  "core w = (registry w, log w)"

definition view :: "nat manager \<times> log_line list \<Rightarrow> rendezvous" where
  "view c = \<lparr>admitted = {i. ConnectionAuthenticated i \<in> set (snd c)}, waiting = waits (fst c),
     pairs = concat (map paired_by (snd c))\<rparr>"

definition abs_world :: "'s world \<Rightarrow> rendezvous" where
  "abs_world w = view (core w)"

fun actor :: "event_label \<Rightarrow> nat option" where
  "actor (SessionReads i ec bytes) = Some i"
| "actor l = None"

lemma core_simps [simp]:
  "core (w\<lparr>sessions := S\<rparr>) = core w" "core (w\<lparr>users := t\<rparr>) = core w" "core (w\<lparr>accepting := a\<rparr>) = core w"
  "core (w\<lparr>next_session := n\<rparr>) = core w" "core (w\<lparr>bridges := bs\<rparr>) = core w" "core (collect w) = core w"
  "core (w\<lparr>log := log w @ [l]\<rparr>) = (registry w, log w @ [l])" "core (w\<lparr>registry := m\<rparr>) = (m, log w)"
  by (simp_all add: core_def collect_def)

interpretation core_kept: kept_by_sockets "\<lambda>w. core w \<in> C" for C
  by unfold_locales simp

lemma core_on_session [simp]: "core (snd (on_session i m w)) = core w"
  by (simp add: on_session_def split: option.split prod.split)

lemma view_log:
  "view (m, l @ [ConnectionAuthenticated i]) = (view (m, l))\<lparr>admitted := insert i (admitted (view (m, l)))\<rparr>"
  "view (m, l @ [AuthenticationFailed i]) = view (m, l)"
  "view (m, l @ [RegisteredStreamer i code]) = view (m, l)"
  "view (m, l @ [BridgeCreated j i]) = (view (m, l))\<lparr>pairs := pairs (view (m, l)) @ [(j, i)]\<rparr>"
  by (auto simp: view_def)

lemma view_registry: "view (m', l) = (view (m, l))\<lparr>waiting := waits m'\<rparr>"
  by (simp add: view_def)

lemma registry_cases:
  assumes "registry_ok m"
  obtains "senders_sessions m = []" | n where "senders_sessions m = [(str ''test'', n)]"
proof (cases "senders_sessions m")
  case (Cons x xs)
  have "xs = []"
    using registry_ok_at_most_one [OF assms] Cons by (simp add: currentSessions_def)
  moreover have "fst x \<in> {str ''test''}"
    using assms Cons unfolding registry_ok_def by (metis image_subset_iff list.set_intros(1))
  ultimately show ?thesis
    using that(2) [of "snd x"] Cons by (cases x) (simp del: str_simps)
qed (rule that(1))

section \<open>What the handlers do to registry and log\<close>

text \<open>A login adds a line about its session.\<close>

lemma login_core:
  "core (snd (authenticateCallback D I i m w))
     \<in> {core w, (registry w, log w @ [ConnectionAuthenticated i]), (registry w, log w @ [AuthenticationFailed i])}"
proof -
  let ?C = "\<lambda>l. {(registry w, log w @ [l])}"
  have log: "core (snd (log_info l t)) \<in> ?C l" "fst (log_info l t) = Inr ()" if "core t \<in> {core w}" for l t
    using that by (simp_all add: core_def log_info_def modify_def)
  have after: "core (snd (seqE (log_info l) k t)) \<in> ?C l" if "core t \<in> {core w}" "keeps (\<lambda>w. core w \<in> ?C l) k"
    for l t and k :: "(exn, 'a world, unit) eff"
    using log [OF that(1), of l] keepsD [OF that(2), of "snd (log_info l t)"]
    by (simp add: seqE_step(1) [of "log_info l" t, OF prod_eqI])
  have zoomed: "keeps (\<lambda>u. core u \<in> {core w}) (zoom users (\<lambda>t w. w\<lparr>users := t\<rparr>) k)" for k :: "(exn, user_table, bool) eff"
    by (auto simp: keeps_def zoom_def split: prod.splits)
  have asked: "keeps (\<lambda>u. core u \<in> {core w}) (authenticate D I m :: (exn, 'a world, bool) eff)"
    unfolding authenticate_def by (intro keeps_intros zoomed)
  have answers: "keeps (\<lambda>w. core w \<in> C) (seqE (on_session i (sendACK (the_asio D))) (scheduleNewAsyncRead i))"
    "keeps (\<lambda>w. core w \<in> C) (on_session i (sendNACK (the_asio D)))" for C
    unfolding scheduleNewAsyncRead_def by (intro keeps_intros core_kept.kept_session)+
  show ?thesis
  proof (cases "msg_type m = LOGIN")
    case False
    then show ?thesis
      by (simp add: authenticateCallback_def)
  next
    case True
    obtain r t where rt: "authenticate D I m w = (r, t)"
      by fastforce
    then have t: "core t \<in> {core w}"
      using keepsD [OF asked, of w] by simp
    show ?thesis
      using True rt t after [OF t answers(1)] after [OF t answers(2)]
      by (cases r) (auto simp: authenticateCallback_def bindE_step)
  qed
qed

text \<open>A registration puts the session into the registry, a search takes at most the streamer out.\<close>

definition request_effects :: "nat \<Rightarrow> 's world \<Rightarrow> (nat manager \<times> log_line list) set" where
  "request_effects i w =
     {core w}
   \<union> {(snd (registerStreamer i t (registry w)), log w @ [RegisteredStreamer i code]) | t code. True}
   \<union> {c. \<exists>code j. fst (extract_session code (registry w)) = Some j
        \<and> c \<in> {(snd (extract_session code (registry w)), log w),
                (snd (extract_session code (registry w)), log w @ [BridgeCreated j i])}}"

lemma bindE_snd:
  assumes "m w = (Inr a, t)"
  shows "bindE m f w = f a t"
  using assms by (simp add: bindE_def)

lemma seq_session_core:
  assumes "keeps (\<lambda>w. core w \<in> C) k" and "core w \<in> C"
  shows "core (snd (seqE (on_session i m) k w)) \<in> C"
  by (rule keepsD [OF keeps_seqE [OF core_kept.kept_session assms(1)] assms(2)])

lemma bridge_core:
  fixes ops :: "'s asio"
  assumes "core w = c"
  shows "core (snd (make_bridge ops j i w)) \<in> {c, (fst c, snd c @ [BridgeCreated j i])}"
  using assms by (auto simp: make_bridge_def Let_def core_def split: option.split sum.split)

lemma joined_core:
  fixes ops :: "'s asio"
  defines "C \<equiv> \<lambda>c j i. {c, (fst c, snd c @ [BridgeCreated j i])}"
  shows "valid (\<lambda>u. core u \<in> {c}) (seqE (on_session i (sendACK ops))
      (seqE (on_session j (send ops \<lparr>msg_type = START_STREAM, content = []\<rparr>)) (seqE (make_bridge ops j i) (ret True))))
    (\<lambda>r u. core u \<in> C c j i \<and> r) (\<lambda>e u. core u \<in> C c j i)"
proof -
  have "valid (\<lambda>u. core u \<in> {c}) (make_bridge ops j i) (\<lambda>_ u. core u \<in> C c j i) (\<lambda>e u. core u \<in> C c j i)"
  proof (rule validI)
    show "core t \<in> C c j i" if "core u \<in> {c}" "make_bridge ops j i u = (Inr a, t)" for u t a
      using bridge_core [of u c ops j i] that by (simp add: C_def)
    show "core t \<in> C c j i" if "core u \<in> {c}" "make_bridge ops j i u = (Inl e, t)" for u t e
      using bridge_core [of u c ops j i] that by (simp add: C_def)
  qed
  then have bridged: "valid (\<lambda>u. core u \<in> {c}) (seqE (make_bridge ops j i) (ret True)) (\<lambda>r u. core u \<in> C c j i \<and> r) (\<lambda>e u. core u \<in> C c j i)"
    by (rule valid_seqE) (simp add: valid_ret)
  have kept: "valid (\<lambda>u. core u \<in> {c}) (on_session k n) (\<lambda>_ u. core u \<in> {c}) (\<lambda>e u. core u \<in> C c j i)"
    for k and n :: "(exn, ('s, handler) SocketBase, unit) eff"
    by (rule valid_conseq [OF valid_keeps [OF core_kept.kept_session [where C = "{c}"]]]) (auto simp: C_def)
  show ?thesis
    by (intro valid_seqE [OF kept] bridged)
qed

lemma createBridge_core:
  "core (snd (createBridgeWithStreamer ops i code w)) \<in> request_effects i w
     \<and> (fst (createBridgeWithStreamer ops i code w) = Inr False \<longrightarrow> core (snd (createBridgeWithStreamer ops i code w)) = core w)"
proof -
  let ?m = "snd (extract_session code (registry w))" and ?w = "w\<lparr>registry := snd (extract_session code (registry w))\<rparr>"
  have taken: "zoom registry (\<lambda>m w. w\<lparr>registry := m\<rparr>) (\<lambda>m. let (r, m') = extract_session code m in (Inr r, m')) w
      = (Inr (fst (extract_session code (registry w))), ?w)"
    by (simp add: zoom_def split: prod.split)
  have run: "createBridgeWithStreamer ops i code w = (case fst (extract_session code (registry w)) of
      None \<Rightarrow> ret False
    | Some j \<Rightarrow> seqE (on_session i (sendACK ops)) (seqE (on_session j (send ops \<lparr>msg_type = START_STREAM, content = []\<rparr>))
        (seqE (make_bridge ops j i) (ret True)))) ?w"
    unfolding createBridgeWithStreamer_def by (rule bindE_snd, rule taken)
  show ?thesis
  proof (cases "fst (extract_session code (registry w))")
    case None
    then have "?w = w"
      by (cases w) (auto simp: extract_session_def split: option.splits)
    with None run show ?thesis
      by (simp add: ret_def request_effects_def)
  next
    case (Some j)
    let ?C = "{(?m, log w), (?m, log w @ [BridgeCreated j i])}"
    let ?rest = "seqE (on_session i (sendACK ops)) (seqE (on_session j (send ops \<lparr>msg_type = START_STREAM, content = []\<rparr>))
        (seqE (make_bridge ops j i) (ret True)))"
    have "valid (\<lambda>u. core u \<in> {(?m, log w)}) ?rest (\<lambda>r u. core u \<in> ?C \<and> r) (\<lambda>e u. core u \<in> ?C)"
      using joined_core [where c = "(?m, log w)" and ops = ops and i = i and j = j] by simp
    moreover have "createBridgeWithStreamer ops i code w = ?rest ?w"
      using Some run by simp
    moreover have "core ?w \<in> {(?m, log w)}"
      by simp
    ultimately have "core (snd (createBridgeWithStreamer ops i code w)) \<in> ?C"
      "fst (createBridgeWithStreamer ops i code w) \<noteq> Inr False"
      by (cases "?rest ?w"; cases "fst (?rest ?w)"; fastforce dest: validD)+
    with Some show ?thesis
      by (auto simp: request_effects_def)
  qed
qed

lemma unexpected_core: "core (snd (bindE (lift_sum (type_to_str_at (msg_type m))) (\<lambda>name.
    seqE (on_session i (send (the_asio D) \<lparr>msg_type = RESPONSE, content = str (''Did not expect '' @ name @ '' message.'')\<rparr>))
         (scheduleNewAsyncRead i)) w)) \<in> request_effects i w"
proof -
  have "keeps (\<lambda>u. core u \<in> {core w}) (bindE (lift_sum (type_to_str_at (msg_type m))) (\<lambda>name.
    seqE (on_session i (send (the_asio D) \<lparr>msg_type = RESPONSE, content = str (''Did not expect '' @ name @ '' message.'')\<rparr>))
         (scheduleNewAsyncRead i)))"
    unfolding scheduleNewAsyncRead_def by (intro keeps_intros core_kept.kept_session)
  from keepsD [OF this, of w] show ?thesis
    by (simp add: request_effects_def)
qed

lemma register_core: "core (snd (bindE (zoom registry (\<lambda>m w. w\<lparr>registry := m\<rparr>) (registerStreamer i (now I))) (\<lambda>id.
    seqE (log_info (RegisteredStreamer i id))
         (on_session i (send (the_asio D) \<lparr>msg_type = ID, content = id\<rparr>))) w)) \<in> request_effects i w"
proof -
  obtain m' where m': "registerStreamer i (now I) (registry w) = (Inr (str ''test''), m')"
    by (simp add: registerStreamer_eq)
  have "core (w\<lparr>registry := m', log := log w @ [RegisteredStreamer i (str ''test'')]\<rparr>)
      = (m', log w @ [RegisteredStreamer i (str ''test'')])"
    by (simp add: core_def)
  then have "core (snd (bindE (zoom registry (\<lambda>m w. w\<lparr>registry := m\<rparr>) (registerStreamer i (now I))) (\<lambda>id.
      seqE (log_info (RegisteredStreamer i id))
         (on_session i (send (the_asio D) \<lparr>msg_type = ID, content = id\<rparr>))) w))
      = (snd (registerStreamer i (now I) (registry w)), log w @ [RegisteredStreamer i (str ''test'')])"
    using m' by (simp add: bindE_def zoom_def seqE_def log_info_def modify_def del: str_simps)
  then show ?thesis
    unfolding request_effects_def by blast
qed

lemma find_core: "core (snd (bindE (createBridgeWithStreamer (the_asio D) i (content m)) (\<lambda>is_found.
    whenE (\<not> is_found) (seqE (on_session i (sendNACK (the_asio D))) (scheduleNewAsyncRead i))) w)) \<in> request_effects i w"
proof -
  obtain r t where rt: "createBridgeWithStreamer (the_asio D) i (content m) w = (r, t)"
    by fastforce
  have again: "core (snd (seqE (on_session i (sendNACK (the_asio D))) (scheduleNewAsyncRead i) t)) \<in> {core t}"
    unfolding scheduleNewAsyncRead_def
    by (rule keepsD [of "\<lambda>u. core u \<in> {core t}"]) (intro keeps_intros core_kept.kept_session, simp)
  show ?thesis
    using createBridge_core [of "the_asio D" i "content m" w] rt again
    by (cases r) (auto simp: bindE_def whenE_def ret_def request_effects_def)
qed

lemma proxy_core: "core (snd (ProxySession_handleRead D I i m w)) \<in> request_effects i w"
  unfolding ProxySession_handleRead_eq
  using register_core [where D = D and I = I and i = i and w = w] find_core [where D = D and i = i and m = m and w = w]
    unexpected_core [where D = D and i = i and m = m and w = w]
  by (cases "msg_type m") (simp_all only: MessageType.case)

lemma served_core: "core (snd (run_handler D I i c HandleRead m w)) \<in> request_effects i w"
proof (cases c)
  case ProxySession
  with proxy_core [of D I i m w] show ?thesis
    by (simp only: run_handler_def handler.case session_class.case)
next
  case AuthenticatedSession
  have "keeps (\<lambda>u. core u \<in> {core w}) (AuthenticatedSession_handleRead D i m)"
    unfolding AuthenticatedSession_handleRead_def scheduleNewAsyncRead_def
    by (intro keeps_intros core_kept.kept_session)
  from keepsD [OF this, of w] have "core (snd (AuthenticatedSession_handleRead D i m w)) = core w"
    by simp
  with AuthenticatedSession show ?thesis
    by (simp add: run_handler_def request_effects_def)
qed

section \<open>Whose session is gone\<close>

text \<open>The sessions of a bridge do not exist any more, and their numbers are not used again.\<close>

definition bridged_gone :: "'s world \<Rightarrow> bool" where
  "bridged_gone w \<longleftrightarrow> (\<forall>i \<in> dom (sessions w). i < next_session w)
     \<and> (\<forall>i j. BridgeCreated j i \<in> set (log w) \<longrightarrow> i < next_session w \<and> j < next_session w
           \<and> i \<notin> dom (sessions w) \<and> j \<notin> dom (sessions w))"

interpretation gone_kept: kept_by_handlers bridged_gone
  by unfold_locales (fastforce simp: bridged_gone_def less_Suc_eq elim: request_line.elims)+

lemma bridged_gone_updates [simp]:
  "bridged_gone (w\<lparr>registry := m\<rparr>) = bridged_gone w" "bridged_gone (w\<lparr>users := t\<rparr>) = bridged_gone w"
  "bridged_gone (w\<lparr>accepting := a\<rparr>) = bridged_gone w" "bridged_gone (w\<lparr>bridges := bs\<rparr>) = bridged_gone w"
  by (simp_all add: bridged_gone_def)

lemma bridged_gone_collect: "bridged_gone w \<Longrightarrow> bridged_gone (collect w)"
  unfolding collect_def by (rule gone_kept.sessions_free) (auto split: option.splits if_splits)

lemma bridged_gone_accept:
  assumes "bridged_gone w"
  shows "bridged_gone (snd (accept_done ops c error s w))"
proof -
  have "keeps bridged_gone (acceptNewConnection c)"
    by (simp add: keeps_def acceptNewConnection_def modify_def)
  then have "keeps bridged_gone (bindE (try_start ops c error s) (\<lambda>_. acceptNewConnection c))"
    by (intro keeps_bindE gone_kept.kept_try_start)
  then show ?thesis
    unfolding accept_done_try by (rule keepsD) (simp add: assms)
qed

lemma bridged_gone_event:
  assumes "bridged_gone w" and "server_event D w l r w'"
  shows "bridged_gone w'"
  using assms(2)
proof (cases rule: server_event.cases)
  case (event_read i s rd rs bytes ec I w1)
  then show ?thesis
    using keepsD [OF gone_kept.kept_read_done assms(1), of D I i ec bytes] by (simp add: bridged_gone_collect)
next
  case (event_accept c ec s w1)
  then show ?thesis
    using bridged_gone_accept [OF assms(1), of "the_asio D" c ec s] by (simp add: bridged_gone_collect)
next
  case event_cleaner
  with assms(1) show ?thesis
    by (simp add: bridged_gone_collect)
qed (use assms(1) in \<open>auto simp: bridge_done_def split: prod.splits\<close>)

interpretation gone: inductive_invariant server_init "server_step D" bridged_gone for D
proof unfold_locales
  show "bridged_gone w" if "server_init w" for w :: "'a world"
    using that by (auto simp: server_init_def new_world_def bridged_gone_def)
  show "bridged_gone w'" if "bridged_gone w" "server_step D w w'" for w w' :: "'a world"
    using that bridged_gone_event unfolding server_step_def by blast
qed

section \<open>Every event is a step of the specification or none\<close>

lemma paired_by_ends: "x \<in> set (concat (map (\<lambda>(j, i). [j, i]) (paired_by l))) \<longleftrightarrow> (\<exists>i j. l = BridgeCreated j i \<and> x \<in> {i, j})"
  by (cases l) auto

lemma taken_abs_world: "x \<in> set (taken (abs_world w)) \<longleftrightarrow> (\<exists>i j. BridgeCreated j i \<in> set (log w) \<and> x \<in> {i, j})"
proof -
  have "x \<in> set (taken (abs_world w)) \<longleftrightarrow> (\<exists>l \<in> set (log w). x \<in> set (concat (map (\<lambda>(j, i). [j, i]) (paired_by l))))"
    by (auto simp: taken_def abs_world_def view_def core_def)
  then show ?thesis
    unfolding paired_by_ends by blast
qed

lemma session_not_taken:
  assumes "bridged_gone w" and "sessions w i = Some s"
  shows "i \<notin> set (taken (abs_world w))"
  using assms unfolding taken_abs_world bridged_gone_def by (auto simp: dom_def)

lemma abs_world_simps [simp]:
  "admitted (abs_world w) = {i. authenticated w i}" "waiting (abs_world w) = waits (registry w)"
  by (simp_all add: abs_world_def view_def core_def authenticated_def)

lemma view_core:
  "view (m, log w) = (abs_world w)\<lparr>waiting := waits m\<rparr>"
  "view (m, log w @ l) = (view (registry w, log w @ l))\<lparr>waiting := waits m\<rparr>"
  "view (registry w, log w) = abs_world w"
  by (simp_all add: abs_world_def core_def view_def)

lemma waits_registered: "waits m = Some j \<Longrightarrow> j \<in> client_session ` snd ` set (senders_sessions m)"
  by (auto simp: waits_def split: list.splits)

lemma waits_register:
  assumes "registry_ok m"
  shows "waits (snd (registerStreamer i t m)) = Some i"
  using assms by (rule registry_cases) (simp_all add: waits_def registerStreamer_eq map_contains_def del: str_simps)

lemma waits_extract:
  assumes "registry_ok m" and "fst (extract_session code m) = Some j"
  shows "waits m = Some j" and "waits (snd (extract_session code m)) = None"
  using assms(1) by (rule registry_cases; use assms(2) in \<open>simp add: waits_def extract_session_def split: if_splits\<close>)+

lemma request_refines:
  assumes inv: "world_inv w" and i: "authenticated w i" "i \<notin> registered w" "i \<notin> set (taken (abs_world w))" and c: "c \<in> request_effects i w"
  shows "view c = abs_world w \<or> rendezvous_step (Some i) (abs_world w) (view c)"
proof -
  have ok: "registry_ok (registry w)"
    using world_invD(4) [OF inv] .
  have other: "i \<noteq> j" if "waits (registry w) = Some j" for j
    using waits_registered [OF that] i(2) by (auto simp: registered_def)
  consider "c = core w"
    | t code where "c = (snd (registerStreamer i t (registry w)), log w @ [RegisteredStreamer i code])"
    | code j where "fst (extract_session code (registry w)) = Some j" "c = (snd (extract_session code (registry w)), log w)"
    | code j where "fst (extract_session code (registry w)) = Some j"
        "c = (snd (extract_session code (registry w)), log w @ [BridgeCreated j i])"
    using c unfolding request_effects_def by blast
  then show ?thesis
  proof cases
    case 1
    then show ?thesis
      by (simp add: abs_world_def)
  next
    case 2
    then have "view c = (abs_world w)\<lparr>waiting := Some i\<rparr>"
      by (simp add: view_log(3) view_core(1) waits_register [OF ok])
    then show ?thesis
      using i(1,3) by (simp add: rendezvous_step.wait)
  next
    case 3
    note left = waits_extract [OF ok 3(1)]
    have "view c = (abs_world w)\<lparr>waiting := None\<rparr>"
      by (simp add: 3(2) view_core(1) left(2))
    then show ?thesis
      using left(1) i(1,3) other by (auto intro: rendezvous_step.lose)
  next
    case 4
    note left = waits_extract [OF ok 4(1)]
    have "view c = (abs_world w)\<lparr>waiting := None, pairs := pairs (abs_world w) @ [(j, i)]\<rparr>"
      by (simp add: 4(2) view_log(4) view_core(1) left(2))
    then show ?thesis
      using left(1) i(1,3) other by (auto intro: rendezvous_step.pair)
  qed
qed

lemma login_refines:
  "c \<in> {core w, (registry w, log w @ [ConnectionAuthenticated i]), (registry w, log w @ [AuthenticationFailed i])} \<Longrightarrow>
     i \<notin> set (taken (abs_world w)) \<Longrightarrow> view c = abs_world w \<or> rendezvous_step (Some i) (abs_world w) (view c)"
  using rendezvous_step.admit [of i "abs_world w"] by (auto simp: view_log(1,2) view_core(3) core_def)

lemma read_refines:
  assumes inv: "world_inv w" "bridged_gone w" and read: "sessions w i = Some s" "reads (base s) \<noteq> []"
  shows "view (core (snd (read_done D I i ec bytes w))) = abs_world w
    \<or> rendezvous_step (Some i) (abs_world w) (view (core (snd (read_done D I i ec bytes w))))"
proof -
  note free = session_not_taken [OF inv(2) read(1)]
  let ?C = "{c. view c = abs_world w \<or> rendezvous_step (Some i) (abs_world w) (view c)}"
  have "core (snd (read_done D I i ec bytes w)) \<in> ?C"
  proof (rule core_kept.kept_read_done_if)
    show "core w \<in> ?C"
      by (simp add: abs_world_def)
  next
    fix s h hr rs
    assume s: "sessions w i = Some s" "reads (base s) = BodyRead h hr # rs"
    let ?w = "w\<lparr>sessions := (sessions w)(i \<mapsto> s\<lparr>base := (base s)\<lparr>reads := rs, data_buffer := overwrite (data_buffer (base s)) bytes\<rparr>\<rparr>)\<rparr>"
    let ?m = "\<lparr>msg_type = hdr_type hr, content = take (length bytes) (overwrite (data_buffer (base s)) bytes)\<rparr>"
    have same: "core ?w = core w" "registry ?w = registry w" "log ?w = log w" "request_effects i ?w = request_effects i w"
      by (simp_all add: request_effects_def core_def)
    show "core (snd (run_handler D I i (session_class s) h ?m ?w)) \<in> ?C"
    proof (cases h)
      case AuthenticateCallback
      then have "core (snd (run_handler D I i (session_class s) h ?m ?w))
          \<in> {core w, (registry w, log w @ [ConnectionAuthenticated i]), (registry w, log w @ [AuthenticationFailed i])}"
        using login_core [of D I i ?m ?w] unfolding same by (simp only: run_handler_def handler.case)
      then show ?thesis
        using login_refines [OF _ free] by blast
    next
      case HandleRead
      have i: "authenticated w i" "i \<notin> registered w"
        using world_invD(1) [OF inv(1) s(1)] world_invD(3) [OF inv(1), of i] s HandleRead by (auto simp: session_ok_def)
      have "core (snd (run_handler D I i (session_class s) h ?m ?w)) \<in> request_effects i w"
        using served_core [of D I i "session_class s" ?m ?w] unfolding same HandleRead .
      from request_refines [OF inv(1) i free this] show ?thesis
        by blast
    qed
  qed
  then show ?thesis
    by blast
qed

lemma create_core: "core (snd (create_and_start ops c s w)) = core w"
proof -
  have start: "keeps (\<lambda>u. core u \<in> {core w}) (start_session ops i)" for i
    unfolding start_session_def by (intro keeps_intros core_kept.kept_session)
  show ?thesis
  proof (cases "op_remote_endpoint ops s")
    case (Inr address)
    then show ?thesis
      using keepsD [OF start, of "w\<lparr>sessions := (sessions w)(next_session w \<mapsto> new_session c address s),
          next_session := Suc (next_session w)\<rparr>" "next_session w"]
      by (simp add: create_and_start_def Let_def)
  qed (simp add: create_and_start_def)
qed

lemma accept_core: "core (snd (accept_done ops c ec s w)) = core w"
proof -
  have create: "keeps (\<lambda>u. core u \<in> {core w}) (create_and_start ops c s)"
    by (simp add: keeps_def create_core)
  have "keeps (\<lambda>u. core u \<in> {core w}) (try_start ops c ec s)"
    unfolding try_start_def by (cases ec) (simp_all only: option.case, intro keeps_intros create, intro keeps_intros)
  moreover have "keeps (\<lambda>u. core u \<in> {core w}) (acceptNewConnection c)"
    by (simp add: keeps_def acceptNewConnection_def modify_def)
  ultimately have "keeps (\<lambda>u. core u \<in> {core w}) (bindE (try_start ops c ec s) (\<lambda>_. acceptNewConnection c))"
    by (intro keeps_bindE)
  from keepsD [OF this, of "w\<lparr>accepting := (accepting w)(c := False)\<rparr>"] show ?thesis
    unfolding accept_done_try by simp
qed

lemma sweep_waits:
  assumes "registry_ok m"
  shows "waits (terminateTimeoutClients clock timeout m) \<in> {waits m, None}"
proof -
  have ok: "registry_ok (terminateTimeoutClients clock timeout m)"
    by (rule registry_ok_terminate [OF assms])
  have sub: "set (senders_sessions (terminateTimeoutClients clock timeout m)) \<subseteq> set (senders_sessions m)"
    using terminate_loop_subseq [of clock timeout 0 "senders_sessions m"] by (simp add: terminateTimeoutClients_def)
  from ok show ?thesis
  proof (rule registry_cases)
    fix n
    assume kept: "senders_sessions (terminateTimeoutClients clock timeout m) = [(str ''test'', n)]"
    from assms show ?thesis
      by (rule registry_cases) (use sub kept in \<open>auto simp: waits_def simp del: str_simps\<close>)
  qed (simp add: waits_def)
qed

lemma event_refines:
  assumes inv: "world_inv w" "bridged_gone w" and event: "server_event D w l r w'"
  shows "abs_world w' = abs_world w \<or> rendezvous_step (actor l) (abs_world w) (abs_world w')"
  using event
proof (cases rule: server_event.cases)
  case (event_read i s rd rs bytes ec I w1)
  have read: "sessions w i = Some s" "reads (base s) \<noteq> []" "abs_world w' = view (core (snd (read_done D I i ec bytes w)))" "actor l = Some i"
    using event_read by (simp_all add: abs_world_def)
  show ?thesis
    using read_refines [OF inv read(1,2), of D I ec bytes] unfolding read(3,4) .
next
  case (event_accept c ec s w1)
  then show ?thesis
    using accept_core [of "the_asio D" c ec s w] by (simp add: abs_world_def)
next
  case (event_bridge k d bytes ec)
  then show ?thesis
    by (auto simp: abs_world_def bridge_done_def split: prod.splits)
next
  case (event_cleaner cleaner clock)
  let ?m = "terminateTimeoutClients clock (client_timeout cleaner) (registry w)"
  have "abs_world w' = (abs_world w)\<lparr>waiting := waits ?m\<rparr>"
    using event_cleaner by (simp add: abs_world_def) (simp add: view_def core_def)
  moreover have "(abs_world w)\<lparr>waiting := waits (registry w)\<rparr> = abs_world w"
    by (simp add: abs_world_def view_def core_def)
  moreover have "actor l = None"
    using event_cleaner by simp
  ultimately show ?thesis
    using sweep_waits [OF world_invD(4) [OF inv(1)], of clock "client_timeout cleaner"] rendezvous_step.expire [of "abs_world w"]
    by auto
next
  case event_user
  then show ?thesis
    by (simp add: abs_world_def)
qed

lemma init_refines: "server_init w \<Longrightarrow> rendezvous_init (abs_world w)"
  by (auto simp: server_init_def rendezvous_init_def new_world_def abs_world_def view_def core_def waits_def
    initCleanerThread_def new_manager_def)

lemma world_meets: "reach server_init (server_step D) w \<Longrightarrow> reach rendezvous_init rendezvous_next (abs_world w)"
proof (induction rule: reach.induct)
  case (reach_init w)
  then show ?case
    by (intro reach.reach_init init_refines)
next
  case (reach_step w w')
  obtain l r where event: "server_event D w l r w'"
    using reach_step(2) by (auto simp: server_step_def)
  have inv: "world_inv w" "bridged_gone w"
    using reach_step(1) by (rule server.holds_reachable, rule gone.holds_reachable)
  from event_refines [OF inv event] have "abs_world w' = abs_world w \<or> rendezvous_next (abs_world w) (abs_world w')"
    unfolding rendezvous_next_def by blast
  then show ?case
    using reach_step(3) by (auto intro: reach.reach_step)
qed

section \<open>Properties\<close>

text \<open>
  C4. The servers are a meeting point. In every reachable state, whatever event comes next and
  whatever becomes of it, the servers take one step of the abstract specification, caused by
  the client whose message has arrived, or none: they admit that client, let it wait in place
  of whoever waited, or pair it with the one who waits (or lose that one). What they have
  done so far is a run of the specification from its start.
\<close>

theorem server_refines_rendezvous:
  assumes "reach server_init (server_step D) w" and "server_event D w l r w'"
  shows "(abs_world w' = abs_world w \<or> rendezvous_step (actor l) (abs_world w) (abs_world w'))
    \<and> reach rendezvous_init rendezvous_next (abs_world w')"
proof -
  have inv: "world_inv w" "bridged_gone w"
    using assms(1) by (rule server.holds_reachable, rule gone.holds_reachable)
  have "server_step D w w'"
    using assms(2) by (auto simp: server_step_def)
  with assms(1) have "reach server_init (server_step D) w'"
    by (rule reach_step)
  then show ?thesis
    using event_refines [OF inv assms(2)] world_meets by blast
qed

text \<open>In a run that ends with a bridge some event was a step of the specification.\<close>

lemma trace_changes:
  assumes "server_trace D w0 ls w" and "reach server_init (server_step D) w0" and "abs_world w \<noteq> abs_world w0"
  shows "\<exists>u l u'. reach server_init (server_step D) u \<and> server_event D u l (Inr ()) u' \<and> abs_world u' \<noteq> abs_world u"
  using assms
proof (induction rule: server_trace.induct)
  case (trace_cons w l w' ls w'')
  have "server_step D w w'"
    using trace_cons.hyps(1) by (auto simp: server_step_def)
  with trace_cons.prems(1) have "reach server_init (server_step D) w'"
    by (rule reach_step)
  with trace_cons show ?case
    by (cases "abs_world w' = abs_world w") auto
qed simp

lemma bridge_in_log:
  assumes "reach server_init (server_step D) w" and "bridges w = [b]"
  obtains j i where "BridgeCreated j i \<in> set (log w)"
proof -
  have "length (filter is_bridge_line (log w)) = 1"
    using bridges.holds_reachable [OF assms(1)] assms(2) by (simp add: bridges_sound_def)
  then obtain l where "l \<in> set (log w)" "is_bridge_line l"
    by (metis filter_False length_0_conv zero_neq_one)
  with that show ?thesis
    by (cases l) auto
qed

lemma server_refines_rendezvous_witness:
  "\<exists>w l w'. server_event pipe_deps w l (Inr ()) w' \<and> abs_world w' \<noteq> abs_world w
     \<and> rendezvous_step (actor l) (abs_world w) (abs_world w')"
proof -
  have idle: "opened idle_stream"
    by (simp add: idle_stream_def)
  have start: "reach server_init (server_step pipe_deps) one_account"
    by (intro reach_init one_account_init)
  obtain ls w b where run: "server_trace pipe_deps one_account ls w" "bridges w = [b]"
    by (rule server_pairs [OF pipe_deps_contracts idle idle one_account_init one_account_json(4-6) one_account_credentials
        one_account_json(3-6) one_account_credentials one_account_json(3)]) (erule (1) that)
  obtain j i where "BridgeCreated j i \<in> set (log w)"
    by (rule bridge_in_log [OF trace_reach [OF run(1) start] run(2)])
  then have "i \<in> set (taken (abs_world w))"
    by (auto simp: taken_abs_world)
  moreover have "taken (abs_world one_account) = []"
    using init_refines [OF one_account_init] by (simp add: rendezvous_init_def taken_def)
  ultimately have "abs_world w \<noteq> abs_world one_account"
    by auto
  from trace_changes [OF run(1) start this] obtain u l u' where
    u: "reach server_init (server_step pipe_deps) u" "server_event pipe_deps u l (Inr ()) u'" "abs_world u' \<noteq> abs_world u"
    by blast
  with server_refines_rendezvous [OF u(1,2)] show ?thesis
    by blast
qed

text \<open>
  C5. A session is in at most one bridge, ever. In every reachable state all ends of all the
  bridges that were made are different sessions, each of them logged in, and none of them is
  the streamer that waits or a session that exists: a stream goes to one viewer only, and
  neither side gets a second partner.
\<close>

theorem bridges_are_matching:
  assumes "reach server_init (server_step D) w"
  shows "distinct (concat (map (\<lambda>(j, i). [j, i]) (concat (map paired_by (log w)))))
    \<and> (\<forall>i j. BridgeCreated j i \<in> set (log w) \<longrightarrow>
         {i, j} \<subseteq> {k. ConnectionAuthenticated k \<in> set (log w)} \<and> {i, j} \<inter> registered w = {}
         \<and> sessions w i = None \<and> sessions w j = None)"
proof -
  have inv: "world_inv w" "bridged_gone w" "well_matched (abs_world w)"
    using server.holds_reachable [OF assms] gone.holds_reachable [OF assms] meeting.holds_reachable [OF world_meets [OF assms]]
    by blast+
  have ends: "taken (abs_world w) = concat (map (\<lambda>(j, i). [j, i]) (concat (map paired_by (log w))))"
    by (simp add: taken_def abs_world_def view_def core_def)
  have "k \<notin> registered w" if "sessions w k = None" for k
    using world_invD(3) [OF inv(1), of k] that by auto
  then show ?thesis
    using inv(2,3) world_invD(5) [OF inv(1)] unfolding bridged_gone_def well_matched_def ends
    by (auto simp: authenticated_def dom_def)
qed

lemma bridges_are_matching_witness:
  "\<exists>w :: pipe world. \<exists>i j. BridgeCreated j i \<in> set (log w) \<and> i \<noteq> j \<and> sessions w i = None \<and> sessions w j = None
     \<and> {i, j} \<inter> registered w = {}"
proof -
  obtain w b where w: "reach server_init (server_step pipe_deps) w" "bridges w = [b]"
    by (rule bridged_world)
  then obtain j i where made: "BridgeCreated j i \<in> set (log w)"
    by (rule bridge_in_log)
  have "i \<noteq> j"
    using world_invD(5) [OF server.holds_reachable [OF w(1)] made] by simp
  moreover have "{i, j} \<inter> registered w = {} \<and> sessions w i = None \<and> sessions w j = None"
    using bridges_are_matching [OF w(1)] made by auto
  ultimately show ?thesis
    using made by (intro exI [of _ w] exI [of _ i] exI [of _ j]) simp
qed

end
