(* ===== verification/Programs.thy ===== *)
theory Programs
  imports Remote_Control Server_Process
begin

text \<open>
  The programs: the \<open>main\<close> functions under \<open>apps/\<close>, which put the components together with fixed
  addresses and passwords. \<open>None\<close> is a program that does not end, \<open>Inl e\<close> one that an exception
  ends, \<open>Inr n\<close> one that returns \<open>n\<close>. The program of the servers is in \<open>Server_Process\<close>. Arguments do not count the name of the program.
\<close>

section \<open>The programs\<close>

definition viewer_main ::
  "'j json_writer \<Rightarrow> 's resolver \<Rightarrow> ('s, 'd, 'f) viewer_deps \<Rightarrow> av_setup \<Rightarrow> 'd \<Rightarrow> (nat \<Rightarrow> sdl_event list) \<Rightarrow> 's
     \<Rightarrow> cstring list \<Rightarrow> ((exn + int) \<times> ('s, 'd) viewer option) option" where
  "viewer_main W R D A dec arrivals s args =
     (case args of
        [] \<Rightarrow> Some (Inr 1, None)
      | stream_id # _ \<Rightarrow>
          (case new_ClientSocket R (vd_asio D) s (str ''localhost'') 44321 False of
             Inl e \<Rightarrow> Some (Inl e, None)
           | Inr c \<Rightarrow>
               (case seqE (login W (vd_asio D) (str ''some_user@gmail.com'') (str ''superStrongPassword''))
                          (findOtherClient (vd_asio D) stream_id) (socket_base c) of
                  (Inl e, _) \<Rightarrow> Some (Inl e, None)
                | (Inr is_found, sb) \<Rightarrow>
                    if is_found
                    then (case new_ScreenViewerClient D A dec sb of
                            Inl e \<Rightarrow> Some (Inl e, None)
                          | Inr v \<Rightarrow> map_option (\<lambda>(r, v'). (case r of Inl e \<Rightarrow> Inl e | Inr u \<Rightarrow> Inr 0, Some v'))
                                       (viewer_run D arrivals v))
                    else Some (Inr 0, None))))"

text \<open>The program up to the loop of \<open>run\<close>: the process it becomes. The answer of the wait is not used.\<close>

definition streamer_main ::
  "'j json_writer \<Rightarrow> 's resolver \<Rightarrow> (int \<Rightarrow> string) \<Rightarrow> x_display \<Rightarrow> ('s, 'w, x11, 'a) streamer_deps \<Rightarrow> av_setup \<Rightarrow> 'a
     \<Rightarrow> 'w \<Rightarrow> 'w \<Rightarrow> (nat \<Rightarrow> int) \<Rightarrow> 's \<Rightarrow> (exn + ('s, x11, 'a) process) option" where
  "streamer_main W R fmt_int display D A codec w w' clock s =
     (case new_ClientSocket R (sd_asio D) s (str ''localhost'') 44321 False of
        Inl e \<Rightarrow> Some (Inl e)
      | Inr c \<Rightarrow>
          (case seqE (login W (sd_asio D) (str ''some_other_user@gmail.com'') (str ''superStrongPassword''))
                     (requestStreamerID (sd_asio D)) (socket_base c) of
             (Inl e, _) \<Rightarrow> Some (Inl e)
           | (Inr streamer_id, sb) \<Rightarrow>
               (case waitForStartStreamMessage (sd_asio D) clock DEFAULT_TIMEOUT sb of
                  None \<Rightarrow> None
                | Some (Inl e, _) \<Rightarrow> Some (Inl e)
                | Some (Inr started, sb') \<Rightarrow>
                    Some (case new_X11IOController fmt_int display of
                            Inl e \<Rightarrow> Inl e
                          | Inr io \<Rightarrow>
                              (case new_ScreenViewerStreamer D A codec w sb' io of
                                 Inl e \<Rightarrow> Inl e
                               | Inr st \<Rightarrow> Inr (proceed (start_streaming D w') \<lparr>streamer_of = st, ended_by = None\<rparr>))))))"

definition add_user_main ::
  "lib \<Rightarrow> db_calls \<Rightarrow> 'r bcrypt \<Rightarrow> 'r \<Rightarrow> cstring option \<Rightarrow> cstring list \<Rightarrow> user_table \<Rightarrow> (exn + int) \<times> user_table" where
  "add_user_main L C B salt fault args table =
     (case args of
        email # password # _ \<Rightarrow>
          (case seqE (lift_sum (new_UsersManager L C (str ''localhost'') (str ''postgres'') (str ''root'') (str ''screen-viewer'') 5432))
                     (addUser B salt fault email password) table of
             (Inl e, t) \<Rightarrow> (Inl e, t)
           | (Inr u, t) \<Rightarrow> (Inr 0, t))
      | _ \<Rightarrow> (Inr 1, table))"

section \<open>Logging in first\<close>

text \<open>What comes after the login of a program, on a connection that answers it.\<close>

lemma login_first:
  assumes contract: "stream_contract ops sent avail live" and "live (socket sb)"
    and "avail (socket sb) = frame t c @ rest" and "length c \<le> BUFFER_SIZE"
    and json: "login_json W email password = Inr text"
  obtains s where "live s" "avail s = rest"
    "t = ACK \<longrightarrow> (\<forall>k. seqE (login W ops email password) k sb
       = k (sb\<lparr>socket := s, data_buffer := overwrite (data_buffer sb) c\<rparr>))"
    "t \<noteq> ACK \<longrightarrow> (\<forall>k. \<exists>e. seqE (login W ops email password) k sb
       = (Inl e, sb\<lparr>socket := s, data_buffer := overwrite (data_buffer sb) c\<rparr>))"
proof -
  obtain s where s: "snd (login W ops email password sb) = sb\<lparr>socket := s, data_buffer := overwrite (data_buffer sb) c\<rparr>"
    "fst (login W ops email password sb) = Inr () \<longleftrightarrow> t = ACK" "live s" "avail s = rest"
    using login_answer [OF assms(1-4) json [unfolded login_json_def]] by blast
  let ?tb = "sb\<lparr>socket := s, data_buffer := overwrite (data_buffer sb) c\<rparr>"
  show ?thesis
  proof (cases "t = ACK")
    case True
    then have "login W ops email password sb = (Inr (), ?tb)"
      using s(1,2) by (metis prod.collapse)
    with True s(3,4) show ?thesis
      by (intro that [of s]) (simp_all add: seqE_step(1))
  next
    case False
    then obtain e where "login W ops email password sb = (Inl e, ?tb)"
      using s(1,2) by (cases "login W ops email password sb"; cases "fst (login W ops email password sb)") auto
    with False s(3,4) show ?thesis
      by (intro that [of s]) (simp_all add: seqE_step(2))
  qed
qed

section \<open>The viewer from its arguments to its end\<close>


text \<open>A server that acknowledges twice and sends one picture.\<close>

definition friendly_server :: pipe where
  "friendly_server = \<lparr>incoming = frame ACK [] @ frame ACK [] @ message_stream [(SCREEN_UPDATE, [7])], outgoing = [], opened = True\<rparr>"

definition local_resolver :: "pipe resolver" where
  "local_resolver = \<lparr>op_resolve = (\<lambda>host port. Inr [(host, port)]), op_connect = (\<lambda>e s. (None, s))\<rparr>"


section \<open>The streamer up to the loop of run\<close>

lemma new_ClientSocket_base:
  "new_ClientSocket R ops s host port verify = Inr c \<Longrightarrow> \<exists>t. socket_base c = (new_SocketBase s)\<lparr>socket := t\<rparr>"
  by (auto simp: construction_outcome split: sum.splits list.splits prod.splits option.splits)

text \<open>What the constructors of the controller and of the streamer make of the connection.\<close>

definition becomes_streamer ::
  "(int \<Rightarrow> string) \<Rightarrow> x_display \<Rightarrow> ('s, 'w, x11, 'a) streamer_deps \<Rightarrow> av_setup \<Rightarrow> 'a \<Rightarrow> 'w \<Rightarrow> 'w
     \<Rightarrow> ('s, streamer_handler) SocketBase \<Rightarrow> exn + ('s, x11, 'a) process" where
  "becomes_streamer fmt_int display D A codec w w' sb =
     (case new_X11IOController fmt_int display of
        Inl e \<Rightarrow> Inl e
      | Inr io \<Rightarrow>
          (case new_ScreenViewerStreamer D A codec w sb io of
             Inl e \<Rightarrow> Inl e
           | Inr st \<Rightarrow> Inr (proceed (start_streaming D w') \<lparr>streamer_of = st, ended_by = None\<rparr>)))"

lemma becomes_streamer_outcome:
  assumes "buffer_ok sb" and "reads sb = []" and "writes sb = []"
  shows "case new_X11IOController fmt_int display of
       Inl e \<Rightarrow> becomes_streamer fmt_int display D A codec w w' sb = Inl e
     | Inr io \<Rightarrow>
         (case createVideoEncoder D A codec w io of
            (Inl e, io') \<Rightarrow> becomes_streamer fmt_int display D A codec w w' sb = Inl e
          | (Inr encoder, io') \<Rightarrow> (\<exists>p st. becomes_streamer fmt_int display D A codec w w' sb = Inr p
              \<and> process_init D p \<and> p = proceed (start_streaming D w') \<lparr>streamer_of = st, ended_by = None\<rparr>
              \<and> st_socket st = sb))"
proof -
  have init: "process_init D (proceed (start_streaming D w') \<lparr>streamer_of = st, ended_by = None\<rparr>)"
    if "new_ScreenViewerStreamer D A codec w sb io = Inr st" for io st
    using assms that unfolding process_init_def by blast
  have made: "\<exists>p st. becomes_streamer fmt_int display D A codec w w' sb = Inr p
      \<and> process_init D p \<and> p = proceed (start_streaming D w') \<lparr>streamer_of = st, ended_by = None\<rparr> \<and> st_socket st = sb"
    if "new_X11IOController fmt_int display = Inr io" "createVideoEncoder D A codec w io = (Inr encoder, io')" for io encoder io'
  proof -
    let ?st = "\<lparr>st_socket = sb, st_io = io', st_encoder = encoder, st_messages = []\<rparr>"
    have "new_ScreenViewerStreamer D A codec w sb io = Inr ?st"
      using that(2) by (simp add: new_ScreenViewerStreamer_def)
    with that(1) init [OF this] show ?thesis
      by (intro exI [of _ "proceed (start_streaming D w') \<lparr>streamer_of = ?st, ended_by = None\<rparr>"] exI [of _ ?st])
        (simp add: becomes_streamer_def)
  qed
  have "becomes_streamer fmt_int display D A codec w w' sb = Inl e"
    if "new_X11IOController fmt_int display = Inr io" "createVideoEncoder D A codec w io = (Inl e, io')" for io e io'
    using that by (simp add: becomes_streamer_def new_ScreenViewerStreamer_def)
  moreover have "becomes_streamer fmt_int display D A codec w w' sb = Inl e" if "new_X11IOController fmt_int display = Inl e" for e
    using that by (simp add: becomes_streamer_def)
  ultimately show ?thesis
    using made by (auto split: sum.split prod.split)
qed

text \<open>
  C23. What becomes of the streaming program. Connected to a server that answers the login and the
  registration and then starts the stream in time, with messages that fit one frame: it ends with
  an exception when the login is not acknowledged, with one that names the answer when that is
  not a code, with that of the controller or of the encoder when one of them cannot be made; and
  otherwise it becomes a streaming process in its initial state, on a socket from which
  everything up to the start has been read.
\<close>

theorem streamer_program_outcome:
  fixes c :: "('s, streamer_handler) ClientSocket"
  assumes contract: "stream_contract (sd_asio D) sent avail live"
    and connected: "new_ClientSocket R (sd_asio D) s (str ''localhost'') 44321 False = Inr c" "live (socket (socket_base c))"
    and stream: "avail (socket (socket_base c)) = frame a1 c1 @ frame a2 c2 @ frame START_STREAM c3 @ rest"
      "length c1 \<le> BUFFER_SIZE" "length c2 \<le> BUFFER_SIZE" "length c3 \<le> BUFFER_SIZE"
    and json: "login_json W (str ''some_other_user@gmail.com'') (str ''superStrongPassword'') = Inr text"
    and timely: "in_time clock DEFAULT_TIMEOUT 1"
  shows "(a1 \<noteq> ACK \<longrightarrow> (\<exists>e. streamer_main W R fmt_int display D A codec w w' clock s = Some (Inl e)))
    \<and> (a1 = ACK \<and> a2 \<noteq> ID \<longrightarrow> streamer_main W R fmt_int display D A codec w w' clock s
          = Some (Inl (ScreenViewerBaseException (NotRegistered (type_name a2)))))
    \<and> (a1 = ACK \<and> a2 = ID \<longrightarrow>
        (case new_X11IOController fmt_int display of
           Inl e \<Rightarrow> streamer_main W R fmt_int display D A codec w w' clock s = Some (Inl e)
         | Inr io \<Rightarrow>
             (case createVideoEncoder D A codec w io of
                (Inl e, io') \<Rightarrow> streamer_main W R fmt_int display D A codec w w' clock s = Some (Inl e)
              | (Inr encoder, io') \<Rightarrow> (\<exists>p st. streamer_main W R fmt_int display D A codec w w' clock s = Some (Inr p)
                  \<and> process_init D p \<and> p = proceed (start_streaming D w') \<lparr>streamer_of = st, ended_by = None\<rparr>
                  \<and> live (socket (st_socket st)) \<and> avail (socket (st_socket st)) = rest))))"
proof -
  let ?main = "streamer_main W R fmt_int display D A codec w w' clock s"
  let ?sb = "socket_base c" and ?email = "str ''some_other_user@gmail.com''" and ?password = "str ''superStrongPassword''"
  let ?tb = "\<lambda>t. ?sb\<lparr>socket := t, data_buffer := overwrite (data_buffer ?sb) c1\<rparr>"
  obtain t where t: "live t" "avail t = frame a2 c2 @ frame START_STREAM c3 @ rest"
    "a1 = ACK \<longrightarrow> (\<forall>k :: (exn, ('s, streamer_handler) SocketBase, cstring) eff. seqE (login W (sd_asio D) ?email ?password) k ?sb = k (?tb t))"
    "a1 \<noteq> ACK \<longrightarrow> (\<forall>k :: (exn, ('s, streamer_handler) SocketBase, cstring) eff. \<exists>e. seqE (login W (sd_asio D) ?email ?password) k ?sb = (Inl e, ?tb t))"
    by (rule login_first [OF contract connected(2) stream(1,2) json])
  have "live (socket (?tb t))" "avail (socket (?tb t)) = frame a2 c2 @ frame START_STREAM c3 @ rest"
    using t(1,2) by simp_all
  moreover have same: "(?tb t)\<lparr>socket := u\<rparr> = ?tb u" for u
    by (cases ?sb) simp
  ultimately obtain u where
    u: "requestStreamerID (sd_asio D) (?tb t) = ((if a2 = ID then Inr c2
          else Inl (ScreenViewerBaseException (NotRegistered (type_name a2)))), ?tb u)"
      "avail u = frame START_STREAM c3 @ rest" "live u"
    using registration_answer [OF contract _ _ stream(3), of "?tb t"] unfolding same by blast
  have "live (socket (?tb u))" "avail (socket (?tb u)) = frame START_STREAM c3 @ rest"
    using u(2,3) by simp_all
  from wait_now [OF contract this stream(4) timely] obtain z where
    z: "waitForStartStreamMessage (sd_asio D) clock DEFAULT_TIMEOUT (?tb u) = Some (Inr True,
        ?sb\<lparr>socket := z, data_buffer := overwrite (overwrite (data_buffer ?sb) c1) c3\<rparr>)" (is "_ = Some (_, ?zb)")
      "live z" "avail z = rest"
    by auto
  have refused: "\<exists>e. ?main = Some (Inl e)" if no: "a1 \<noteq> ACK"
  proof -
    obtain e x where "seqE (login W (sd_asio D) ?email ?password) (requestStreamerID (sd_asio D)) ?sb = (Inl e, x)"
      using t(4) no by blast
    then show ?thesis
      using connected(1) by (simp add: streamer_main_def del: str_simps)
  qed
  have unregistered: "?main = Some (Inl (ScreenViewerBaseException (NotRegistered (type_name a2))))" if "a1 = ACK" "a2 \<noteq> ID"
    using t(3) that connected(1) u(1) by (simp add: streamer_main_def del: str_simps)
  have started: "?main = Some (becomes_streamer fmt_int display D A codec w w' ?zb)" if "a1 = ACK" "a2 = ID"
    using t(3) that connected(1) u(1) z(1) by (simp add: streamer_main_def becomes_streamer_def del: str_simps)
  have "buffer_ok ?zb" "reads ?zb = []" "writes ?zb = []"
    using new_ClientSocket_base [OF connected(1)] stream(2,4) by (auto simp: buffer_ok_def new_SocketBase_def)
  from becomes_streamer_outcome [OF this, of fmt_int display D A codec w w'] show ?thesis
    using refused unregistered started z(2,3) by (fastforce split: sum.splits prod.splits)
qed

text \<open>A server that acknowledges, gives a code and starts the stream at once, and a display of one pixel.\<close>

definition starting_server :: pipe where
  "starting_server = \<lparr>incoming = frame ACK [] @ frame ID [1] @ frame START_STREAM [] @ [], outgoing = [], opened = True\<rparr>"

definition dot_display :: x_display where
  "dot_display = \<lparr>XOpenDisplay = True, XineramaIsActive = True, XineramaQueryScreens = (Some [screens dot_screen], 1)\<rparr>"

lemma streamer_program_outcome_witness:
  "\<exists>p st. streamer_main plain_writer local_resolver (\<lambda>n. []) dot_display dot_deps good_setup 0 no_cursor no_cursor (\<lambda>i. 0)
      starting_server = Some (Inr p) \<and> process_init dot_deps p
     \<and> p = proceed (start_streaming dot_deps no_cursor) \<lparr>streamer_of = st, ended_by = None\<rparr> \<and> incoming (socket (st_socket st)) = []"
proof -
  have asio: "sd_asio dot_deps = pipe_ops" and contract: "stream_contract (sd_asio dot_deps) outgoing incoming opened"
    using pipe_contract by (simp_all add: dot_deps_def)
  obtain c :: "(pipe, streamer_handler) ClientSocket" where
    c: "new_ClientSocket local_resolver (sd_asio dot_deps) starting_server (str ''localhost'') 44321 False = Inr c"
      "opened (socket (socket_base c))" "socket (socket_base c) = starting_server"
    by (simp add: new_ClientSocket_def connect_def local_resolver_def asio starting_server_def Let_def
      start_context_thread_def new_SocketBase_def eff del: str_simps)
  have stream: "incoming (socket (socket_base c)) = frame ACK [] @ frame ID [1] @ frame START_STREAM [] @ []"
    "length ([] :: cstring) \<le> BUFFER_SIZE" "length [1 :: byte] \<le> BUFFER_SIZE" "length ([] :: cstring) \<le> BUFFER_SIZE"
    using c(3) by (simp_all add: starting_server_def BUFFER_SIZE_def)
  have json: "login_json plain_writer (str ''some_other_user@gmail.com'') (str ''superStrongPassword'') = Inr (str ''superStrongPassword'')"
    by (simp add: login_json_def plain_writer_def del: str_simps)
  have timely: "in_time (\<lambda>i. 0) DEFAULT_TIMEOUT 1"
    by (simp add: in_time_def DEFAULT_TIMEOUT_def)
  have io: "new_X11IOController (\<lambda>n. []) dot_display = Inr dot_screen"
    by (simp add: new_X11IOController_def getScreensInfo_def dot_display_def dot_screen_def)
  have encoder: "createVideoEncoder dot_deps good_setup 0 no_cursor dot_screen = (Inr dot_encoder, dot_screen)"
    using dot_screenshot by (simp add: createVideoEncoder_def bindE_def lift_sum_def dot_deps_def x11_ops_def
      new_VideoEncoder_def createEncodeContext_def createFrame_def good_setup_def dot_encoder_def)
  from streamer_program_outcome [OF contract c(1,2) stream json timely, of "\<lambda>n. []" dot_display good_setup 0 no_cursor no_cursor]
  show ?thesis
    unfolding io sum.case encoder prod.case by blast
qed

section \<open>An account from the command line to the login\<close>

definition add_user_runs ::
  "lib \<Rightarrow> db_calls \<Rightarrow> 'r bcrypt \<Rightarrow> ('r \<times> cstring option \<times> cstring list) list \<Rightarrow> user_table \<Rightarrow> user_table" where
  "add_user_runs L C B runs table = fold (\<lambda>(salt, fault, args) t. snd (add_user_main L C B salt fault args t)) runs table"

text \<open>The program adds at most the row that was asked for, and never changes another.\<close>

lemma add_user_main_table:
  "snd (add_user_main L C B salt fault args table) = table
     \<or> (\<exists>email password rest. args = email # password # rest \<and> table email = None
          \<and> snd (add_user_main L C B salt fault args table) = table(email \<mapsto> generateHash B salt password))"
  by (cases fault) (auto simp: add_user_main_def addUser_def checkEmailConstraints_def checkPasswordConstraints_def seqE_def
    bindE_def ret_def lift_sum_def INSERT_USER_def Let_def split: list.split sum.split)

lemma add_user_runs_keep: "table email = Some hash \<Longrightarrow> add_user_runs L C B runs table email = Some hash"
  unfolding add_user_runs_def
proof (induction runs arbitrary: table)
  case (Cons r runs)
  obtain salt fault args where r: "r = (salt, fault, args)"
    by (cases r)
  have "snd (add_user_main L C B salt fault args table) email = Some hash"
    using add_user_main_table [of L C B salt fault args table] Cons.prems by auto
  with Cons.IH r show ?case
    by simp
qed simp

text \<open>
  C24. An account from the command line to the login. \<open>add_user\<close> without two arguments returns 1 and
  changes nothing; when the connection or a statement cannot be made, or the email is taken, it
  ends with an exception and changes nothing; otherwise it returns 0, and every server that is
  started on the database later, whatever other accounts are added in the meantime, accepts the
  email and the password, if BCrypt validates the hashes it generates.
\<close>

theorem account_program:
  assumes "validatePassword (the_bcrypt D) password (generateHash (the_bcrypt D) salt password)"
  shows "add_user_main L C (the_bcrypt D) salt fault [] table = (Inr 1, table)
    \<and> add_user_main L C (the_bcrypt D) salt fault [email] table = (Inr 1, table)
    \<and> (case new_UsersManager L C (str ''localhost'') (str ''postgres'') (str ''root'') (str ''screen-viewer'') 5432 of
         Inl e \<Rightarrow> add_user_main L C (the_bcrypt D) salt fault (email # password # rest) table = (Inl e, table)
       | Inr u \<Rightarrow>
           (table email \<noteq> None \<or> fault \<noteq> None \<longrightarrow>
              (\<exists>e. add_user_main L C (the_bcrypt D) salt fault (email # password # rest) table = (Inl e, table)))
         \<and> (table email = None \<and> fault = None \<longrightarrow>
              (\<exists>t. add_user_main L C (the_bcrypt D) salt fault (email # password # rest) table = (Inr 0, t)
                 \<and> (\<forall>later C' S dir p. server_main L C' S dir (add_user_runs L C (the_bcrypt D) later t) = Inr p \<longrightarrow>
                      credentials_ok D (the_world p) email password))))"
proof -
  let ?made = "new_UsersManager L C (str ''localhost'') (str ''postgres'') (str ''root'') (str ''screen-viewer'') 5432"
  let ?hash = "generateHash (the_bcrypt D) salt password"
  have run: "add_user_main L C (the_bcrypt D) salt fault (email # password # rest) table =
      (case ?made of Inl e \<Rightarrow> (Inl e, table)
       | Inr u \<Rightarrow> (case fault of Some reason \<Rightarrow> (Inl (DatabaseError reason), table)
           | None \<Rightarrow> if table email \<noteq> None then (Inl (UsersManagerException email), table)
                     else (Inr 0, table(email \<mapsto> ?hash))))"
    by (auto simp: add_user_main_def addUser_def checkEmailConstraints_def checkPasswordConstraints_def seqE_def
      bindE_def ret_def lift_sum_def INSERT_USER_def Let_def simp del: str_simps split: sum.split option.split)
  have "credentials_ok D (the_world p) email password"
    if "server_main L C' S dir (add_user_runs L C (the_bcrypt D) later (table(email \<mapsto> ?hash))) = Inr p" for later C' S dir p
  proof -
    have "the_world p = new_world (add_user_runs L C (the_bcrypt D) later (table(email \<mapsto> ?hash))) 120 1"
      by (rule server_main_world [OF that])
    moreover have "add_user_runs L C (the_bcrypt D) later (table(email \<mapsto> ?hash)) email = Some ?hash"
      by (rule add_user_runs_keep) simp
    ultimately show ?thesis
      using assms by (simp add: credentials_ok_def new_world_def)
  qed
  then show ?thesis
    unfolding run by (auto simp: add_user_main_def split: sum.split option.split)
qed

lemma account_program_witness:
  "\<exists>t. add_user_main (the_lib pipe_deps) good_db plain_bcrypt 3 None [[1], [2]] Map.empty = (Inr 0, t)
     \<and> (\<exists>p :: pipe server_process. server_main (the_lib pipe_deps) good_db good_files [] (add_user_runs (the_lib pipe_deps) good_db plain_bcrypt [(4, None, [[1], [5]])] t) = Inr p
          \<and> credentials_ok pipe_deps (the_world p) [1] [2])"
proof -
  have valid: "validatePassword (the_bcrypt pipe_deps) [2] (generateHash (the_bcrypt pipe_deps) 3 [2])"
    by (simp add: pipe_deps_def plain_bcrypt_def)
  have made: "new_UsersManager (the_lib pipe_deps) good_db (str ''localhost'') (str ''postgres'') (str ''root'') (str ''screen-viewer'') 5432 = Inr ()"
    by (simp add: new_UsersManager_def good_db_def del: str_simps)
  have bcrypt: "the_bcrypt pipe_deps = plain_bcrypt"
    by (simp add: pipe_deps_def)
  from account_program [OF valid, of "the_lib pipe_deps" good_db None Map.empty "[1]" "[]"]
  obtain t where t: "add_user_main (the_lib pipe_deps) good_db plain_bcrypt 3 None [[1], [2]] Map.empty = (Inr 0, t)"
    and later: "\<And>later C' S dir (p :: pipe server_process). server_main (the_lib pipe_deps) C' S dir (add_user_runs (the_lib pipe_deps) good_db plain_bcrypt later t) = Inr p \<Longrightarrow>
      credentials_ok pipe_deps (the_world p) [1] [2]"
    unfolding made sum.case bcrypt by auto
  obtain p :: "pipe server_process" where
    "server_main (the_lib pipe_deps) good_db good_files [] (add_user_runs (the_lib pipe_deps) good_db plain_bcrypt [(4, None, [[1], [5]])] t) = Inr p"
    by (rule good_server)
  with t later show ?thesis
    by blast
qed

end
